(* ===== verification/Prelude.thy ===== *)
theory Prelude
  imports Main "HOL-Library.Char_ord" "HOL-Library.List_Lexorder"
begin

text \<open>
  What every component shares: the named collections the component proofs draw on, the
  decimal text of integers (Python's \<open>str(n)\<close> and \<open>int(s)\<close>), Python's
  \<open>strip\<close>, the conversion of an integer to a double, JSON values and the exceptions
  of the scheduler.
\<close>

named_theorems app_defs \<open>definitions of operations, unfolded by symbolic execution\<close>
named_theorems key_facts \<open>Redis keys of different families differ\<close>
named_theorems frame_facts \<open>what an operation leaves alone\<close>

subsection \<open>Decimal text\<close>

definition digit_char :: "nat \<Rightarrow> char" where
  "digit_char n = char_of (48 + n)"

definition char_digit :: "char \<Rightarrow> nat option" where
  "char_digit c = (let n = of_char c :: nat in if 48 \<le> n \<and> n \<le> 57 then Some (n - 48) else None)"

fun show_nat :: "nat \<Rightarrow> string" where
  "show_nat n = (if n < 10 then [digit_char n] else show_nat (n div 10) @ [digit_char (n mod 10)])"

declare show_nat.simps [simp del]

definition show_int :: "int \<Rightarrow> string" where
  "show_int i = (if i < 0 then CHR ''-'' # show_nat (nat (- i)) else show_nat (nat i))"

fun read_digits :: "nat \<Rightarrow> string \<Rightarrow> nat option" where
  "read_digits acc [] = Some acc"
| "read_digits acc (c # cs) =
     (case char_digit c of None \<Rightarrow> None | Some d \<Rightarrow> read_digits (10 * acc + d) cs)"

definition read_nat :: "string \<Rightarrow> nat option" where
  "read_nat s = (if s = [] then None else read_digits 0 s)"

definition read_int :: "string \<Rightarrow> int option" where
  "read_int s =
     (case s of [] \<Rightarrow> None
      | c # cs \<Rightarrow> if c = CHR ''-'' then map_option (\<lambda>n. - int n) (read_nat cs)
                  else map_option int (read_nat s))"

lemma char_digit_digit_char [simp]: "n < 10 \<Longrightarrow> char_digit (digit_char n) = Some n"
  by (simp add: char_digit_def digit_char_def Let_def)

lemma read_digits_append:
  "read_digits acc (xs @ ys) = (case read_digits acc xs of None \<Rightarrow> None | Some n \<Rightarrow> read_digits n ys)"
  by (induction acc xs rule: read_digits.induct) (auto split: option.splits)

lemma read_digits_show_nat: "read_digits 0 (show_nat n) = Some n"
proof (induction n rule: show_nat.induct)
  case (1 n)
  show ?case
  proof (cases "n < 10")
    case True
    then show ?thesis by (subst show_nat.simps) simp
  next
    case False
    with 1 have "read_digits 0 (show_nat (n div 10)) = Some (n div 10)" by simp
    with False show ?thesis by (subst show_nat.simps) (simp add: read_digits_append)
  qed
qed

lemma show_nat_nonempty [simp]: "show_nat n \<noteq> []"
  by (subst show_nat.simps) simp

lemma show_int_nonempty [simp]: "show_int i \<noteq> []"
  by (simp add: show_int_def)

lemma digit_char_digits: "n < 10 \<Longrightarrow> (of_char (digit_char n) :: nat) = 48 + n"
  by (simp add: digit_char_def)

lemma set_show_nat: "c \<in> set (show_nat n) \<Longrightarrow> 48 \<le> (of_char c :: nat) \<and> (of_char c :: nat) \<le> 57"
proof (induction n rule: show_nat.induct)
  case (1 n)
  show ?case
  proof (cases "n < 10")
    case True
    with 1(2) show ?thesis by (subst (asm) show_nat.simps) (auto simp: digit_char_digits)
  next
    case False
    have "c \<in> set (show_nat (n div 10)) \<or> c = digit_char (n mod 10)"
      using 1(2) False by (subst (asm) show_nat.simps) auto
    then show ?thesis using 1(1) False by (auto simp: digit_char_digits)
  qed
qed

lemma hd_show_nat: "hd (show_nat n) \<noteq> CHR ''-''"
  using set_show_nat [of "hd (show_nat n)" n] by auto

lemma read_int_show_int [simp]: "read_int (show_int i) = Some i"
proof (cases "i < 0")
  case True
  then show ?thesis
    by (simp add: show_int_def read_int_def read_nat_def read_digits_show_nat)
next
  case False
  obtain c cs where c: "show_nat (nat i) = c # cs" by (cases "show_nat (nat i)") auto
  then have "c \<noteq> CHR ''-''" using hd_show_nat [of "nat i"] by simp
  with c False show ?thesis
    using read_digits_show_nat [of "nat i"] by (simp add: show_int_def read_int_def read_nat_def)
qed

lemma show_int_inj [simp]: "show_int i = show_int j \<longleftrightarrow> i = j"
  by (metis option.inject read_int_show_int)

text \<open>Text that survives the NUL-separated encoding: not empty and free of NUL.\<close>

definition clean :: "string \<Rightarrow> bool" where
  "clean s \<longleftrightarrow> s \<noteq> [] \<and> CHR 0x00 \<notin> set s"

lemma clean_show_int [simp]: "clean (show_int i)"
  using set_show_nat [of "CHR 0x00"] by (auto simp: clean_def show_int_def)

subsection \<open>Python's strip and int\<close>

definition py_space :: "char \<Rightarrow> bool" where
  "py_space c \<longleftrightarrow> (let n = of_char c :: nat in n = 32 \<or> (9 \<le> n \<and> n \<le> 13) \<or> (28 \<le> n \<and> n \<le> 31) \<or> n = 133 \<or> n = 160)"

definition lstrip :: "string \<Rightarrow> string" where
  "lstrip s = dropWhile py_space s"

definition strip :: "string \<Rightarrow> string" where
  "strip s = rev (dropWhile py_space (rev (lstrip s)))"

text \<open>
  \<open>int(s)\<close> on text: surrounding white space is dropped, one sign is allowed, and single
  underscores may separate digits. Anything else is a \<open>ValueError\<close>, here None.
\<close>

fun drop_underscores :: "bool \<Rightarrow> string \<Rightarrow> string option" where
  "drop_underscores prev [] = (if prev then Some [] else None)"
| "drop_underscores prev (c # cs) =
     (if c = CHR ''_'' then (if prev then drop_underscores False cs else None)
      else map_option ((#) c) (drop_underscores True cs))"

definition py_int :: "string \<Rightarrow> int option" where
  "py_int s =
     (case strip s of [] \<Rightarrow> None
      | c # cs \<Rightarrow>
          let body = (if c = CHR ''-'' \<or> c = CHR ''+'' then cs else c # cs);
              sign = (if c = CHR ''-'' then -1 else 1)
          in case drop_underscores False body of None \<Rightarrow> None
             | Some ds \<Rightarrow> map_option (\<lambda>n. sign * int n) (read_nat ds))"

lemma drop_underscores_none:
  "\<forall>c \<in> set s. c \<noteq> CHR ''_'' \<Longrightarrow> drop_underscores True s = Some s"
  by (induction s) auto

lemma drop_underscores_show_nat: "drop_underscores False (show_nat n) = Some (show_nat n)"
proof -
  have no: "\<forall>c \<in> set (show_nat n). c \<noteq> CHR ''_''"
    using set_show_nat [of _ n] by force
  obtain c cs where c: "show_nat n = c # cs" by (cases "show_nat n") auto
  with no show ?thesis by (simp add: drop_underscores_none)
qed

lemma dropWhile_not_space: "\<forall>c \<in> set s. \<not> py_space c \<Longrightarrow> dropWhile py_space s = s"
  by (cases s) auto

lemma strip_no_space: "\<forall>c \<in> set s. \<not> py_space c \<Longrightarrow> strip s = s"
  by (simp add: strip_def lstrip_def dropWhile_not_space)

lemma not_space_show_nat: "c \<in> set (show_nat n) \<Longrightarrow> \<not> py_space c"
  using set_show_nat [of c n] by (auto simp: py_space_def Let_def)

lemma strip_show_int [simp]: "strip (show_int i) = show_int i"
proof (rule strip_no_space)
  have "\<not> py_space CHR ''-''" by (simp add: py_space_def Let_def)
  then show "\<forall>c \<in> set (show_int i). \<not> py_space c"
    using not_space_show_nat by (auto simp: show_int_def)
qed

lemma py_int_show_int [simp]: "py_int (show_int i) = Some i"
proof (cases "i < 0")
  case True
  then show ?thesis
    unfolding py_int_def strip_show_int
    by (simp add: show_int_def Let_def drop_underscores_show_nat read_nat_def read_digits_show_nat)
next
  case False
  obtain c cs where c: "show_nat (nat i) = c # cs" by (cases "show_nat (nat i)") auto
  have "48 \<le> (of_char c :: nat)" using c set_show_nat [of c "nat i"] by simp
  then have nc: "c \<noteq> CHR ''-''" "c \<noteq> CHR ''+''" by auto
  from c False have "show_int i = c # cs" by (simp add: show_int_def)
  with nc c False show ?thesis
    unfolding py_int_def strip_show_int
    using drop_underscores_show_nat [of "nat i"] read_digits_show_nat [of "nat i"]
    by (simp add: Let_def read_nat_def)
qed

definition rstrip_slash :: "string \<Rightarrow> string" where
  "rstrip_slash s = rev (dropWhile (\<lambda>c. c = CHR ''/'') (rev s))"

definition lower_char :: "char \<Rightarrow> char" where
  "lower_char c = (let n = of_char c :: nat in if 65 \<le> n \<and> n \<le> 90 then char_of (n + 32) else c)"

definition lower :: "string \<Rightarrow> string" where
  "lower s = List.map lower_char s"

subsection \<open>Doubles\<close>

text \<open>
  \<open>float(n)\<close> of a Python integer: exact up to 53 significant bits, beyond that rounded to
  nearest, ties to even; None is the \<open>OverflowError\<close> of a value out of range.
\<close>

fun bit_length_nat :: "nat \<Rightarrow> nat" where
  "bit_length_nat n = (if n = 0 then 0 else Suc (bit_length_nat (n div 2)))"

declare bit_length_nat.simps [simp del]

definition round53 :: "nat \<Rightarrow> nat" where
  "round53 n =
     (let b = bit_length_nat n in
      if b \<le> 53 then n
      else let s = b - 53; q = n div 2 ^ s; r = n mod 2 ^ s; half = 2 ^ (s - 1)
           in (if r > half \<or> (r = half \<and> odd q) then q + 1 else q) * 2 ^ s)"

definition float_of_int :: "int \<Rightarrow> int option" where
  "float_of_int i =
     (let m = round53 (nat \<bar>i\<bar>) in if m < 2 ^ 1024 then Some (sgn i * int m) else None)"

lemma bit_length_nat_le: "n < 2 ^ k \<Longrightarrow> bit_length_nat n \<le> k"
proof (induction k arbitrary: n)
  case 0
  then show ?case by (simp add: bit_length_nat.simps)
next
  case (Suc k)
  show ?case
  proof (cases "n = 0")
    case True
    then show ?thesis by (simp add: bit_length_nat.simps)
  next
    case False
    have "n div 2 < 2 ^ k" using Suc.prems by simp
    then have "bit_length_nat (n div 2) \<le> k" by (rule Suc.IH)
    with False show ?thesis by (subst bit_length_nat.simps) simp
  qed
qed

lemma float_of_int_exact: "\<bar>i\<bar> < 2 ^ 53 \<Longrightarrow> float_of_int i = Some i"
proof -
  assume i: "\<bar>i\<bar> < 2 ^ 53"
  then have n: "nat \<bar>i\<bar> < 2 ^ 53" by (simp add: nat_less_iff)
  then have "bit_length_nat (nat \<bar>i\<bar>) \<le> 53" by (rule bit_length_nat_le)
  then have r: "round53 (nat \<bar>i\<bar>) = nat \<bar>i\<bar>" by (simp add: round53_def Let_def)
  have "(2::nat) ^ 53 \<le> 2 ^ 1024" by (rule power_increasing) auto
  with n have "nat \<bar>i\<bar> < 2 ^ 1024" by linarith
  then show ?thesis by (simp add: float_of_int_def Let_def r sgn_mult_abs del: power_numeral)
qed

subsection \<open>JSON values and exceptions\<close>

text \<open>
  The values of a JSON document as Python holds them. Fractional numbers are not
  modelled: a number is an integer.
\<close>

datatype json = JNull | JBool bool | JNum int | JStr string | JList "json list"
  | JObj "(string \<times> json) list"

text \<open>The exceptions the scheduler raises or catches, with the text \<open>str(exc)\<close> gives.\<close>

datatype exn =
    RedisError string
  | OSConnectionError string
  | HTTPStatusError int string
  | TimeoutException string
  | ConnectError string
  | CancelledError
  | ValueError string
  | TypeError string
  | AttributeError string
  | OverflowError string
  | MemoryError
  | RuntimeError string
  | KeyError string
  | GitHubAppError string
  | LLMError string
  | LLMTimeout string
  | BudgetExceeded string
  | BudgetUnavailable string
  | WorktreeError string
  | RedisUnavailable string \<comment> \<open>ConnectionError and TimeoutError of redis, where the code tells them apart\<close>
  | ReadTimeout string
  | HttpxError string \<comment> \<open>another HTTPError of httpx\<close>
  | ValidationError "string list"
  | HTTPException int json
  | OtherException string

fun exn_str :: "exn \<Rightarrow> string" where
  "exn_str (RedisError m) = m"
| "exn_str (OSConnectionError m) = m"
| "exn_str (HTTPStatusError _ m) = m"
| "exn_str (TimeoutException m) = m"
| "exn_str (ConnectError m) = m"
| "exn_str CancelledError = []"
| "exn_str (ValueError m) = m"
| "exn_str (TypeError m) = m"
| "exn_str (AttributeError m) = m"
| "exn_str (OverflowError m) = m"
| "exn_str MemoryError = []"
| "exn_str (RuntimeError m) = m"
| "exn_str (KeyError k) = CHR 0x27 # k @ [CHR 0x27]"
| "exn_str (GitHubAppError m) = m"
| "exn_str (LLMError m) = m"
| "exn_str (LLMTimeout m) = m"
| "exn_str (BudgetExceeded m) = m"
| "exn_str (BudgetUnavailable m) = m"
| "exn_str (WorktreeError m) = m"
| "exn_str (RedisUnavailable m) = m"
| "exn_str (ReadTimeout m) = m"
| "exn_str (HttpxError m) = m"
| "exn_str (ValidationError _) = ''validation error''"
| "exn_str (HTTPException _ _) = ''http exception''"
| "exn_str (OtherException m) = m"

fun is_redis_error :: "exn \<Rightarrow> bool" where
  "is_redis_error (RedisError _) = True"
| "is_redis_error _ = False"

lemma is_redis_error_iff: "is_redis_error e \<longleftrightarrow> (\<exists>m. e = RedisError m)"
  by (cases e) auto

text \<open>\<open>except Exception\<close> catches everything but the cancellation of the task.\<close>

definition is_exception :: "exn \<Rightarrow> bool" where
  "is_exception e \<longleftrightarrow> e \<noteq> CancelledError"

text \<open>Truth of a JSON value, and \<open>v.get(key, default)\<close> on one.\<close>

fun truthy :: "json \<Rightarrow> bool" where
  "truthy JNull = False"
| "truthy (JBool b) = b"
| "truthy (JNum n) = (n \<noteq> 0)"
| "truthy (JStr s) = (s \<noteq> [])"
| "truthy (JList l) = (l \<noteq> [])"
| "truthy (JObj kvs) = (kvs \<noteq> [])"

fun json_get :: "json \<Rightarrow> string \<Rightarrow> json \<Rightarrow> exn + json" where
  "json_get (JObj kvs) k dflt = Inr (case map_of kvs k of None \<Rightarrow> dflt | Some v \<Rightarrow> v)"
| "json_get _ k dflt = Inl (AttributeError ''object has no attribute get'')"

text \<open>Assignment to a key of a dictionary, which keeps the place of a key it has.\<close>

fun dict_put :: "string \<Rightarrow> 'a \<Rightarrow> (string \<times> 'a) list \<Rightarrow> (string \<times> 'a) list" where
  "dict_put k v [] = [(k, v)]"
| "dict_put k v ((j, w) # kvs) = (if k = j then (j, v) # kvs else (j, w) # dict_put k v kvs)"

lemma map_of_dict_put [simp]: "map_of (dict_put k v kvs) j = (if j = k then Some v else map_of kvs j)"
  by (induction k v kvs rule: dict_put.induct) auto

text \<open>
  \<open>dict(v)\<close>: a dictionary is copied, a sequence must hold pairs. A key that is no text
  is written as \<open>json.dumps\<close> writes it; a list or dictionary cannot be a key.
\<close>

fun key_text :: "json \<Rightarrow> exn + string" where
  "key_text (JStr s) = Inr s"
| "key_text (JNum n) = Inr (show_int n)"
| "key_text (JBool b) = Inr (if b then ''true'' else ''false'')"
| "key_text JNull = Inr ''null''"
| "key_text _ = Inl (TypeError ''unhashable type'')"

definition bad_pair :: exn where
  "bad_pair = ValueError ''dictionary update sequence element has wrong length''"

definition pair_of :: "json \<Rightarrow> exn + (string \<times> json)" where
  "pair_of p =
     (case p of
        JList l \<Rightarrow>
          (case l of
             [k, v] \<Rightarrow> (case key_text k of Inl e \<Rightarrow> Inl e | Inr s \<Rightarrow> Inr (s, v))
           | _ \<Rightarrow> Inl bad_pair)
      | JStr s \<Rightarrow> (case s of [a, b] \<Rightarrow> Inr ([a], JStr [b]) | _ \<Rightarrow> Inl bad_pair)
      | JObj kvs \<Rightarrow> (case kvs of [(a, _), (b, _)] \<Rightarrow> Inr (a, JStr b) | _ \<Rightarrow> Inl bad_pair)
      | _ \<Rightarrow> Inl (TypeError ''cannot convert dictionary update sequence element''))"

fun dict_of_pairs :: "json list \<Rightarrow> (string \<times> json) list \<Rightarrow> exn + (string \<times> json) list" where
  "dict_of_pairs [] acc = Inr acc"
| "dict_of_pairs (p # ps) acc =
     (case pair_of p of Inl e \<Rightarrow> Inl e | Inr (k, v) \<Rightarrow> dict_of_pairs ps (dict_put k v acc))"

fun dict_of :: "json \<Rightarrow> exn + (string \<times> json) list" where
  "dict_of (JObj kvs) = Inr kvs"
| "dict_of (JList ps) = dict_of_pairs ps []"
| "dict_of (JStr s) = (if s = [] then Inr [] else Inl bad_pair)"
| "dict_of _ = Inl (TypeError ''object is not iterable'')"

subsection \<open>Times\<close>

text \<open>
  \<open>datetime.fromisoformat(s).timestamp()\<close>, in microseconds, on the form that
  \<open>isoformat()\<close> gives a time in UTC: \<open>YYYY-MM-DDTHH:MM:SS[.ffffff]+00:00\<close>. None is the
  \<open>ValueError\<close> of a text that is no time.
\<close>

definition days_from_civil :: "int \<Rightarrow> int \<Rightarrow> int \<Rightarrow> int" where
  "days_from_civil y m d =
     (let y = (if m \<le> 2 then y - 1 else y);
          era = y div 400; yoe = y mod 400;
          doy = (153 * ((m + 9) mod 12) + 2) div 5 + d - 1;
          doe = yoe * 365 + yoe div 4 - yoe div 100 + doy
      in era * 146097 + doe - 719468)"

definition days_in_month :: "int \<Rightarrow> int \<Rightarrow> int" where
  "days_in_month y m =
     (if m = 2 then (if (y mod 4 = 0 \<and> y mod 100 \<noteq> 0) \<or> y mod 400 = 0 then 29 else 28)
      else if m \<in> {4, 6, 9, 11} then 30 else 31)"

definition num_at :: "nat \<Rightarrow> nat \<Rightarrow> string \<Rightarrow> int option" where
  "num_at i n s = (if length s < i + n then None else map_option int (read_nat (take n (drop i s))))"

definition iso_fraction :: "string \<Rightarrow> int option" where
  "iso_fraction s =
     (if s = ''+00:00'' then Some 0
      else if length s = 13 \<and> s ! 0 = CHR ''.'' \<and> drop 7 s = ''+00:00'' then num_at 1 6 s
      else None)"

definition from_iso :: "string \<Rightarrow> int option" where
  "from_iso s =
     (if length s \<noteq> 25 \<and> length s \<noteq> 32 then None
      else if s ! 4 \<noteq> CHR ''-'' \<or> s ! 7 \<noteq> CHR ''-'' \<or> s ! 10 \<noteq> CHR ''T'' \<or> s ! 13 \<noteq> CHR '':'' \<or>
              s ! 16 \<noteq> CHR '':'' then None
      else
        (case (num_at 0 4 s, num_at 5 2 s, num_at 8 2 s, num_at 11 2 s, num_at 14 2 s, num_at 17 2 s,
               iso_fraction (drop 19 s)) of
           (Some y, Some mo, Some d, Some h, Some mi, Some sec, Some us) \<Rightarrow>
             if 1 \<le> y \<and> 1 \<le> mo \<and> mo \<le> 12 \<and> 1 \<le> d \<and> d \<le> days_in_month y mo \<and> h < 24 \<and> mi < 60 \<and> sec < 60
             then Some ((days_from_civil y mo d * 86400 + h * 3600 + mi * 60 + sec) * 1000000 + us)
             else None
         | _ \<Rightarrow> None))"

lemma from_iso_example: "from_iso ''2026-05-26T09:12:03.441000+00:00'' = Some 1779786723441000"
  by (simp add: from_iso_def num_at_def read_nat_def char_digit_def iso_fraction_def
      days_from_civil_def days_in_month_def Let_def)

text \<open>\<open>int(t * 1000)\<close> of a time in seconds, from microseconds: truncation towards zero.\<close>

definition int_ms :: "int \<Rightarrow> int" where
  "int_ms us = (if us < 0 then - ((- us) div 1000) else us div 1000)"

end
