(* ===== verification/Effects.thy ===== *)
theory Effects
  imports Prelude
begin

text \<open>
  Programs with effects. A coroutine of the scheduler, and a Lua script inside Redis, is a
  tree: it has returned, or it issues a command and goes on with the reply. The tree says
  nothing of what a command does; a handler \<open>H\<close> (the Redis server, the backend, the
  clock) gives the reply and the next world. \<open>run\<close> executes one program alone;
  \<open>sys_step\<close> interleaves any number of them at their commands, which are the
  \<open>await\<close> points of the source. \<open>wp\<close> is the proof rule for the interleaving.
\<close>

datatype (dead 'c, dead 'r, 'a) tree = Ret 'a | Call 'c "'r \<Rightarrow> ('c, 'r, 'a) tree"

primrec bind :: "('c, 'r, 'a) tree \<Rightarrow> ('a \<Rightarrow> ('c, 'r, 'b) tree) \<Rightarrow> ('c, 'r, 'b) tree" where
  "bind (Ret a) f = f a"
| "bind (Call c k) f = Call c (\<lambda>r. bind (k r) f)"

primrec run :: "('c \<Rightarrow> 's \<Rightarrow> 'r \<times> 's) \<Rightarrow> ('c, 'r, 'a) tree \<Rightarrow> 's \<Rightarrow> 'a \<times> 's" where
  "run H (Ret a) s = (a, s)"
| "run H (Call c k) s = run H (k (fst (H c s))) (snd (H c s))"

lemma bind_Ret [simp]: "bind m Ret = m"
  by (induction m) auto

lemma bind_bind [simp]: "bind (bind m f) g = bind m (\<lambda>a. bind (f a) g)"
  by (induction m) auto

lemma run_bind [simp]: "run H (bind m f) s = run H (f (fst (run H m s))) (snd (run H m s))"
  by (induction m arbitrary: s) auto

subsection \<open>Weakest preconditions under interference\<close>

text \<open>
  \<open>wp ok G m Q\<close>: every command the program can issue satisfies \<open>ok\<close>, as
  long as every reply satisfies what the others guarantee, \<open>G\<close>; a result satisfies
  \<open>Q\<close>.
\<close>

primrec wp :: "('c \<Rightarrow> bool) \<Rightarrow> ('c \<Rightarrow> 'r \<Rightarrow> bool) \<Rightarrow> ('c, 'r, 'a) tree \<Rightarrow> ('a \<Rightarrow> bool) \<Rightarrow> bool" where
  "wp ok G (Ret a) Q = Q a"
| "wp ok G (Call c k) Q = (ok c \<and> (\<forall>r. G c r \<longrightarrow> wp ok G (k r) Q))"

lemma wp_bind [simp]: "wp ok G (bind m f) Q = wp ok G m (\<lambda>a. wp ok G (f a) Q)"
  by (induction m) auto

lemma wp_mono: "wp ok G m P \<Longrightarrow> (\<And>a. P a \<Longrightarrow> Q a) \<Longrightarrow> wp ok G m Q"
  by (induction m) auto

lemma wp_weaken: "wp ok G m P \<Longrightarrow> wp ok G m (\<lambda>_. True)"
  by (erule wp_mono) simp

subsection \<open>Coroutines that may raise\<close>

definition return :: "'a \<Rightarrow> ('c, 'r, exn + 'a) tree" where
  "return a = Ret (Inr a)"

definition raise :: "exn \<Rightarrow> ('c, 'r, exn + 'a) tree" where
  "raise e = Ret (Inl e)"

definition andThen :: "('c, 'r, exn + 'a) tree \<Rightarrow> ('a \<Rightarrow> ('c, 'r, exn + 'b) tree) \<Rightarrow> ('c, 'r, exn + 'b) tree" where
  "andThen m f = bind m (\<lambda>x. case x of Inl e \<Rightarrow> Ret (Inl e) | Inr a \<Rightarrow> f a)"

text \<open>\<open>try: m except e: h e\<close>, and \<open>try: m finally: f\<close>.\<close>

definition catch :: "('c, 'r, exn + 'a) tree \<Rightarrow> (exn \<Rightarrow> ('c, 'r, exn + 'a) tree) \<Rightarrow> ('c, 'r, exn + 'a) tree" where
  "catch m h = bind m (\<lambda>x. case x of Inl e \<Rightarrow> h e | Inr a \<Rightarrow> Ret (Inr a))"

definition finally_do :: "('c, 'r, exn + 'a) tree \<Rightarrow> ('c, 'r, exn + unit) tree \<Rightarrow> ('c, 'r, exn + 'a) tree" where
  "finally_do m f = bind m (\<lambda>x. andThen f (\<lambda>_. Ret x))"

lemma sum_case_cong: "(\<And>a. f a = f' a) \<Longrightarrow> (\<And>b. g b = g' b) \<Longrightarrow> case_sum f g = case_sum f' g'"
  by (auto simp: fun_eq_iff split: sum.splits)

lemma run_andThen:
  "run H (andThen m f) s = (case run H m s of (Inl e, s') \<Rightarrow> (Inl e, s') | (Inr a, s') \<Rightarrow> run H (f a) s')"
  by (auto simp: andThen_def split: prod.splits sum.splits)

lemma run_catch:
  "run H (catch m h) s = (case run H m s of (Inl e, s') \<Rightarrow> run H (h e) s' | (Inr a, s') \<Rightarrow> (Inr a, s'))"
  by (auto simp: catch_def split: prod.splits sum.splits)

lemma run_finally:
  "run H (finally_do m f) s = (case run H m s of (x, s') \<Rightarrow>
     (case run H f s' of (Inl e, s'') \<Rightarrow> (Inl e, s'') | (Inr _, s'') \<Rightarrow> (x, s'')))"
  by (auto simp: finally_do_def run_andThen split: prod.splits sum.splits)

lemma wp_andThen [simp]:
  "wp ok G (andThen m f) Q = wp ok G m (\<lambda>x. case x of Inl e \<Rightarrow> Q (Inl e) | Inr a \<Rightarrow> wp ok G (f a) Q)"
  by (auto simp: andThen_def intro!: arg_cong [where f = "wp ok G m"] split: sum.splits)

lemma wp_catch [simp]:
  "wp ok G (catch m h) Q = wp ok G m (\<lambda>x. case x of Inl e \<Rightarrow> wp ok G (h e) Q | Inr a \<Rightarrow> Q (Inr a))"
  by (auto simp: catch_def intro!: arg_cong [where f = "wp ok G m"] split: sum.splits)

lemma wp_finally [simp]:
  "wp ok G (finally_do m f) Q =
     wp ok G m (\<lambda>x. wp ok G f (\<lambda>y. case y of Inl e \<Rightarrow> Q (Inl e) | Inr _ \<Rightarrow> Q x))"
  by (auto simp: finally_do_def intro!: arg_cong [where f = "wp ok G m"] arg_cong [where f = "wp ok G f"]
      split: sum.splits)

lemma wp_return [simp]: "wp ok G (return a) Q = Q (Inr a)"
  by (simp add: return_def)

lemma wp_raise [simp]: "wp ok G (raise e) Q = Q (Inl e)"
  by (simp add: raise_def)

lemma run_return [simp]: "run H (return a) s = (Inr a, s)"
  by (simp add: return_def)

lemma run_raise [simp]: "run H (raise e) s = (Inl e, s)"
  by (simp add: raise_def)

subsection \<open>Traces\<close>

primrec trace :: "('c \<Rightarrow> 's \<Rightarrow> 'r \<times> 's) \<Rightarrow> ('c, 'r, 'a) tree \<Rightarrow> 's \<Rightarrow> 'c list" where
  "trace H (Ret a) s = []"
| "trace H (Call c k) s = c # trace H (k (fst (H c s))) (snd (H c s))"

lemma trace_bind: "trace H (bind m f) s = trace H m s @ trace H (f (fst (run H m s))) (snd (run H m s))"
  by (induction m arbitrary: s) auto

lemma trace_andThen:
  "trace H (andThen m f) s = trace H m s @
     (case run H m s of (Inl e, _) \<Rightarrow> [] | (Inr a, s') \<Rightarrow> trace H (f a) s')"
  by (auto simp: andThen_def trace_bind split: sum.splits prod.splits)

text \<open>The commands of a run with their replies.\<close>

primrec history :: "('c \<Rightarrow> 's \<Rightarrow> 'r \<times> 's) \<Rightarrow> ('c, 'r, 'a) tree \<Rightarrow> 's \<Rightarrow> ('c \<times> 'r) list" where
  "history H (Ret a) s = []"
| "history H (Call c k) s = (c, fst (H c s)) # history H (k (fst (H c s))) (snd (H c s))"

lemma trace_history: "trace H m s = map fst (history H m s)"
  by (induction m arbitrary: s) auto

lemma history_bind: "history H (bind m f) s = history H m s @ history H (f (fst (run H m s))) (snd (run H m s))"
  by (induction m arbitrary: s) auto

lemma history_andThen:
  "history H (andThen m f) s = history H m s @
     (case run H m s of (Inl e, _) \<Rightarrow> [] | (Inr a, s') \<Rightarrow> history H (f a) s')"
  by (auto simp: andThen_def history_bind split: sum.splits prod.splits)

lemma history_catch:
  "history H (catch m h) s = history H m s @
     (case run H m s of (Inl e, s') \<Rightarrow> history H (h e) s' | (Inr a, _) \<Rightarrow> [])"
  by (auto simp: catch_def history_bind split: sum.splits prod.splits)

lemma history_pure [simp]: "history H (return a) s = []" "history H (raise e) s = []"
  by (simp_all add: return_def raise_def)

lemma history_finally: "history H (finally_do m f) s = history H m s @ history H f (snd (run H m s))"
  by (auto simp: finally_do_def history_bind history_andThen split: prod.splits sum.splits)

lemma run_andThen_Inr:
  "run H (andThen m f) s = (Inr b, s') \<longleftrightarrow> (\<exists>a s1. run H m s = (Inr a, s1) \<and> run H (f a) s1 = (Inr b, s'))"
  by (auto simp: run_andThen split: prod.splits sum.splits)

lemma history_after: "run H m s = (Inr a, s1) \<Longrightarrow> history H (andThen m f) s = history H m s @ history H (f a) s1"
  by (simp add: history_andThen)

text \<open>
  \<open>wp\<close> without a guarantee bounds what any run issues, and the history of a run satisfies
  any property \<open>wp\<close> of a result.
\<close>

lemma wp_history:
  "wp ok (\<lambda>_ _. True) m Q \<Longrightarrow> (\<forall>(c, r) \<in> set (history H m s). ok c) \<and> Q (fst (run H m s))"
proof (induction m arbitrary: s)
  case (Ret a)
  then show ?case by simp
next
  case (Call c k)
  obtain r s' where h: "H c s = (r, s')" by (cases "H c s")
  from Call.prems have "wp ok (\<lambda>_ _. True) (k r) Q" "ok c" by simp_all
  with Call.IH [of "k r" s'] h show ?case by simp
qed

text \<open>
  With a guarantee \<open>G\<close>: either some reply broke it, or the run kept to \<open>ok\<close> and its result satisfies
  \<open>Q\<close>. So a command that is not \<open>ok\<close> follows a reply outside \<open>G\<close>, and a run without such a reply
  ends in \<open>Q\<close>.
\<close>

lemma wp_outcome:
  "wp ok G m Q \<Longrightarrow> (\<exists>(c, r) \<in> set (history H m s). \<not> G c r) \<or>
     (\<forall>(c, r) \<in> set (history H m s). ok c) \<and> Q (fst (run H m s))"
proof (induction m arbitrary: s)
  case (Ret a)
  then show ?case by simp
next
  case (Call c k)
  let ?r = "fst (H c s)" and ?s = "snd (H c s)"
  show ?case
  proof (cases "G c ?r")
    case True
    with Call.prems have "wp ok G (k ?r) Q" "ok c" by simp_all
    with Call.IH [of "k ?r" ?s] show ?thesis by auto
  qed simp
qed

subsection \<open>Layers\<close>

text \<open>
  A program over the commands of an interface becomes one over the commands of its implementation when
  each command is replaced by the program that carries it out. A run of the result is a run of
  the program on the server the implementation makes, so what holds on every server is kept.
\<close>

primrec layered :: "('c \<Rightarrow> ('d, 'q, 'r) tree) \<Rightarrow> ('c, 'r, 'a) tree \<Rightarrow> ('d, 'q, 'a) tree" where
  "layered impl (Ret a) = Ret a"
| "layered impl (Call c k) = bind (impl c) (\<lambda>r. layered impl (k r))"

lemma run_layered: "run H (layered impl m) s = run (\<lambda>c. run H (impl c)) m s"
  by (induction m arbitrary: s) auto

lemma history_layered:
  assumes "(d, q) \<in> set (history H (layered impl m) s)"
  shows "\<exists>c s'. (c, fst (run H (impl c) s')) \<in> set (history (\<lambda>c. run H (impl c)) m s) \<and>
    (d, q) \<in> set (history H (impl c) s')"
  using assms
proof (induction m arbitrary: s)
  case (Ret a)
  then show ?case by simp
next
  case (Call c k)
  let ?r = "fst (run H (impl c) s)" and ?s' = "snd (run H (impl c) s)"
  from Call.prems consider "(d, q) \<in> set (history H (impl c) s)" | "(d, q) \<in> set (history H (layered impl (k ?r)) ?s')"
    by (auto simp: history_bind)
  then show ?case
  proof cases
    case 1
    then show ?thesis by (intro exI [of _ c] exI [of _ s]) simp
  next
    case 2
    from Call.IH [OF _ this] obtain c' s2 where
        "(c', fst (run H (impl c') s2)) \<in> set (history (\<lambda>c. run H (impl c)) (k ?r) ?s')"
        "(d, q) \<in> set (history H (impl c') s2)" by blast
    then show ?thesis by (intro exI [of _ c'] exI [of _ s2]) simp
  qed
qed

lemma layered_bind: "layered impl (bind m f) = bind (layered impl m) (\<lambda>a. layered impl (f a))"
  by (induction m) auto

subsection \<open>Interleaving\<close>

text \<open>
  The system state is the world and the programs under way. A step is one program's next
  command, a new program (a request, a worker), a program that dies at any point, or a
  change of the world of its own (a key that expires).
\<close>

inductive sys_step ::
  "('c \<Rightarrow> 's \<Rightarrow> 'r \<times> 's) \<Rightarrow> ('s \<Rightarrow> 's \<Rightarrow> bool) \<Rightarrow> (('c, 'r, 'a) tree \<Rightarrow> bool) \<Rightarrow>
   's \<times> ('c, 'r, 'a) tree list \<Rightarrow> 's \<times> ('c, 'r, 'a) tree list \<Rightarrow> bool"
  for H envr progs where
  exec: "i < length ps \<Longrightarrow> ps ! i = Call c k \<Longrightarrow> H c s = (r, s') \<Longrightarrow>
    sys_step H envr progs (s, ps) (s', ps[i := k r])"
| spawn: "progs p \<Longrightarrow> sys_step H envr progs (s, ps) (s, ps @ [p])"
| crash: "sys_step H envr progs (s, ps @ p # qs) (s, ps @ qs)"
| environ: "envr s s' \<Longrightarrow> sys_step H envr progs (s, ps) (s', ps)"

inductive reachable ::
  "('c \<Rightarrow> 's \<Rightarrow> 'r \<times> 's) \<Rightarrow> ('s \<Rightarrow> 's \<Rightarrow> bool) \<Rightarrow> (('c, 'r, 'a) tree \<Rightarrow> bool) \<Rightarrow> 's \<Rightarrow>
   's \<times> ('c, 'r, 'a) tree list \<Rightarrow> bool"
  for H envr progs s0 where
  start: "reachable H envr progs s0 (s0, [])"
| more: "reachable H envr progs s0 x \<Longrightarrow> sys_step H envr progs x y \<Longrightarrow> reachable H envr progs s0 y"

inductive_cases sys_stepE: "sys_step H envr progs x y"

text \<open>
  An invariant of the interleaved system. The provider promises that a command that is
  \<open>ok\<close> keeps \<open>I\<close> and that its reply satisfies \<open>G\<close>; the programs
  promise \<open>wp\<close>.
\<close>

locale rely_guarantee =
  fixes H :: "'c \<Rightarrow> 's \<Rightarrow> 'r \<times> 's"
    and envr :: "'s \<Rightarrow> 's \<Rightarrow> bool"
    and I :: "'s \<Rightarrow> bool"
    and ok :: "'c \<Rightarrow> bool"
    and G :: "'c \<Rightarrow> 'r \<Rightarrow> bool"
  assumes keeps: "I s \<Longrightarrow> ok c \<Longrightarrow> H c s = (r, s') \<Longrightarrow> I s'"
    and replies: "I s \<Longrightarrow> H c s = (r, s') \<Longrightarrow> G c r"
    and environs: "I s \<Longrightarrow> envr s s' \<Longrightarrow> I s'"
begin

lemma step_keeps:
  assumes "sys_step H envr progs x y"
    and "\<And>p. progs p \<Longrightarrow> wp ok G p (\<lambda>_. True)"
    and "I (fst x)" and "\<forall>p \<in> set (snd x). wp ok G p (\<lambda>_. True)"
  shows "I (fst y) \<and> (\<forall>p \<in> set (snd y). wp ok G p (\<lambda>_. True))"
  using assms
proof (induction rule: sys_step.induct)
  case (exec i ps c k s r s')
  have "Call c k \<in> set ps" using exec.hyps(1,2) by (metis nth_mem)
  then have "ok c" and k: "\<And>r. G c r \<Longrightarrow> wp ok G (k r) (\<lambda>_. True)"
    using exec.prems(3) by auto
  with exec have "I s'" and "G c r" by (auto intro: keeps replies)
  with k exec.prems show ?case by (auto dest!: set_update_subset_insert [THEN subsetD])
qed (auto intro: environs)

lemma reachable_keeps:
  assumes "reachable H envr progs s0 x"
    and "\<And>p. progs p \<Longrightarrow> wp ok G p (\<lambda>_. True)"
    and "I s0"
  shows "I (fst x) \<and> (\<forall>p \<in> set (snd x). wp ok G p (\<lambda>_. True))"
  using assms(1)
proof (induction rule: reachable.induct)
  case start
  from assms(3) show ?case by simp
next
  case (more x y)
  show ?case
    by (rule step_keeps [OF more.hyps(2) assms(2)]) (use more.IH in auto)
qed

lemma run_keeps: "I s \<Longrightarrow> wp ok G m (\<lambda>_. True) \<Longrightarrow> I (snd (run H m s))"
proof (induction m arbitrary: s)
  case (Ret a)
  then show ?case by simp
next
  case (Call c k)
  obtain r s' where rs: "H c s = (r, s')" by (cases "H c s") auto
  from Call.prems rs have "I s'" and "G c r" by (auto intro: keeps replies)
  with Call rs show ?case by auto
qed

end

end
