(* ===== verification/Redis.thy ===== *)
theory Redis
  imports Effects
begin

text \<open>
  The part of Redis the scheduler relies on: the data a server holds, the commands the code
  issues, and the documented effect of each (\<open>redis_call\<close>, a single command;
  \<open>redis_exec\<close>, also MULTI/EXEC and a script, which Redis runs atomically). The server
  itself is not code of the repository: it is the parameter \<open>H\<close> of every theorem, and
  \<open>redis_exec\<close> only says what the locale \<open>redis_server\<close> assumes of it.
\<close>

subsection \<open>Values, sorted sets and the database\<close>

text \<open>
  A stored byte string is text, or the bytes \<open>json.dumps\<close> gave for a value, or those bytes
  compressed by \<open>gzip\<close>; the last two are kept as the value they encode.
\<close>

datatype rval = Str string | JsonText json | GzipJson json

text \<open>
  A member of a sorted set with its score. Redis orders a sorted set by score, and members
  of equal score by their bytes. Job scores are integral doubles and times are counted in
  microseconds, so a score is an integer.
\<close>

datatype zentry = ZEntry (zscore: int) (zmember: string)

instantiation zentry :: linorder
begin

definition less_eq_zentry :: "zentry \<Rightarrow> zentry \<Rightarrow> bool" where
  "less_eq_zentry a b \<longleftrightarrow> zscore a < zscore b \<or> (zscore a = zscore b \<and> zmember a \<le> zmember b)"

definition less_zentry :: "zentry \<Rightarrow> zentry \<Rightarrow> bool" where
  "less_zentry a b \<longleftrightarrow> zscore a < zscore b \<or> (zscore a = zscore b \<and> zmember a < zmember b)"

instance
  by standard (auto simp: less_eq_zentry_def less_zentry_def intro: zentry.expand)

end

definition zadd_list :: "int \<Rightarrow> string \<Rightarrow> zentry list \<Rightarrow> zentry list" where
  "zadd_list sc m z = insort (ZEntry sc m) (filter (\<lambda>e. zmember e \<noteq> m) z)"

definition zrem_list :: "string \<Rightarrow> zentry list \<Rightarrow> zentry list" where
  "zrem_list m z = filter (\<lambda>e. zmember e \<noteq> m) z"

definition zmem :: "string \<Rightarrow> zentry list \<Rightarrow> bool" where
  "zmem m z \<longleftrightarrow> m \<in> zmember ` set z"

definition zrank_list :: "string \<Rightarrow> zentry list \<Rightarrow> nat" where
  "zrank_list m z = length (takeWhile (\<lambda>e. zmember e \<noteq> m) z)"

definition zscore_list :: "string \<Rightarrow> zentry list \<Rightarrow> int option" where
  "zscore_list m z = map_of (map (\<lambda>e. (zmember e, zscore e)) z) m"

definition zwf :: "zentry list \<Rightarrow> bool" where
  "zwf z \<longleftrightarrow> sorted z \<and> distinct (map zmember z)"

record db =
  kv :: "string \<Rightarrow> rval option"
  hs :: "string \<Rightarrow> (string \<times> rval) list"
  zs :: "string \<Rightarrow> zentry list"
  ss :: "string \<Rightarrow> string list"
  ttls :: "string \<Rightarrow> int option"
  subs :: "string \<Rightarrow> nat"
  pubs :: "(string \<times> string) list"

definition empty_db :: db where
  "empty_db = \<lparr>kv = \<lambda>_. None, hs = \<lambda>_. [], zs = \<lambda>_. [], ss = \<lambda>_. [], ttls = \<lambda>_. None,
     subs = \<lambda>_. 0, pubs = []\<rparr>"

lemma empty_db_simps [simp]:
  "kv empty_db k = None" "hs empty_db k = []" "zs empty_db k = []" "ss empty_db k = []"
  "ttls empty_db k = None" "subs empty_db k = 0" "pubs empty_db = []"
  by (simp_all add: empty_db_def)

definition key_exists :: "db \<Rightarrow> string \<Rightarrow> bool" where
  "key_exists d k \<longleftrightarrow> kv d k \<noteq> None \<or> hs d k \<noteq> [] \<or> zs d k \<noteq> [] \<or> ss d k \<noteq> []"

definition del_key :: "string \<Rightarrow> db \<Rightarrow> db" where
  "del_key k d = d\<lparr>kv := (kv d)(k := None), hs := (hs d)(k := []), zs := (zs d)(k := []),
     ss := (ss d)(k := []), ttls := (ttls d)(k := None)\<rparr>"

subsection \<open>Commands and replies\<close>

datatype rcmd =
    GET string
  | SET string rval "int option" bool \<comment> \<open>key, value, EX seconds, NX\<close>
  | SETNX string rval
  | SETEX string int rval
  | INCRBY string int
  | DEL string
  | EXISTS string
  | EXPIRE string int
  | TTL string
  | HSET string "rval list"
  | HGET string string
  | HGETALL string
  | ZADD string int string
  | ZREM string string
  | ZCARD string
  | ZRANK string string
  | ZSCORE string string
  | ZFIRST string \<comment> \<open>ZRANGE key 0 0 WITHSCORES\<close>
  | ZRANGEBYSCORE string int int
  | BZPOPMIN string
  | SADD string string
  | SCARD string
  | PUBLISH string string
  | SUBSCRIBE string
  | UNSUBSCRIBE string
  | GETMESSAGE string nat \<comment> \<open>next message of a channel from a position on\<close>
  | PING

abbreviation INCR :: "string \<Rightarrow> rcmd" where "INCR k \<equiv> INCRBY k 1"
abbreviation DECR :: "string \<Rightarrow> rcmd" where "DECR k \<equiv> INCRBY k (-1)"

text \<open>A reply of Redis or of the environment; \<open>RErr\<close> is an exception at the call.\<close>

datatype reply =
    RNil | ROk | RInt int | RBool bool | RText string | RVal rval
  | RPairs "(string \<times> rval) list"
  | RMembers "string list"
  | REntry zentry
  | RMessage nat string
  | RList "reply list"
  | RResponse int "(string \<times> string) list" "json option" \<comment> \<open>status, headers, JSON body\<close>
  | RErr exn

fun is_err :: "reply \<Rightarrow> bool" where
  "is_err (RErr _) = True"
| "is_err _ = False"

text \<open>Redis reads a counter strictly: canonical decimal text within 64 bits.\<close>

definition in_int64 :: "int \<Rightarrow> bool" where
  "in_int64 n \<longleftrightarrow> - (2 ^ 63) \<le> n \<and> n < 2 ^ 63"

fun redis_int :: "rval option \<Rightarrow> int option" where
  "redis_int None = Some 0"
| "redis_int (Some (Str s)) =
     (case read_int s of None \<Rightarrow> None
      | Some n \<Rightarrow> if show_int n = s \<and> in_int64 n then Some n else None)"
| "redis_int (Some (JsonText _)) = None"
| "redis_int (Some (GzipJson _)) = None"

definition not_an_integer :: reply where
  "not_an_integer = RErr (RedisError ''ERR value is not an integer or out of range'')"

text \<open>The variadic arguments of HSET: field, value, field, value.\<close>

fun pairs_of :: "rval list \<Rightarrow> (string \<times> rval) list option" where
  "pairs_of [] = Some []"
| "pairs_of (Str f # v # rest) = map_option ((#) (f, v)) (pairs_of rest)"
| "pairs_of _ = None"

fun put_field :: "string \<Rightarrow> rval \<Rightarrow> (string \<times> rval) list \<Rightarrow> (string \<times> rval) list" where
  "put_field f v [] = [(f, v)]"
| "put_field f v ((g, w) # h) = (if f = g then (g, v) # h else (g, w) # put_field f v h)"

definition put_fields :: "(string \<times> rval) list \<Rightarrow> (string \<times> rval) list \<Rightarrow> (string \<times> rval) list" where
  "put_fields ps h = fold (\<lambda>(f, v). put_field f v) ps h"

fun index_from :: "string \<Rightarrow> nat \<Rightarrow> (string \<times> string) list \<Rightarrow> (nat \<times> string) option" where
  "index_from ch n [] = None"
| "index_from ch n ((c, m) # ps) = (if c = ch then Some (n, m) else index_from ch (Suc n) ps)"

fun redis_call :: "rcmd \<Rightarrow> db \<Rightarrow> reply \<times> db" where
  "redis_call (GET k) d = (case kv d k of None \<Rightarrow> RNil | Some v \<Rightarrow> RVal v, d)"
| "redis_call (SET k v ex nx) d =
     (if nx \<and> key_exists d k then (RNil, d)
      else (ROk, (del_key k d)\<lparr>kv := (kv d)(k \<mapsto> v), ttls := (ttls d)(k := ex)\<rparr>))"
| "redis_call (SETNX k v) d =
     (if key_exists d k then (RInt 0, d) else (RInt 1, d\<lparr>kv := (kv d)(k \<mapsto> v)\<rparr>))"
| "redis_call (SETEX k t v) d =
     (ROk, (del_key k d)\<lparr>kv := (kv d)(k \<mapsto> v), ttls := (ttls d)(k \<mapsto> t)\<rparr>)"
| "redis_call (INCRBY k n) d =
     (case redis_int (kv d k) of None \<Rightarrow> (not_an_integer, d)
      | Some i \<Rightarrow> if in_int64 (i + n)
                   then (RInt (i + n), d\<lparr>kv := (kv d)(k \<mapsto> Str (show_int (i + n)))\<rparr>)
                   else (not_an_integer, d))"
| "redis_call (DEL k) d = (RInt (if key_exists d k then 1 else 0), del_key k d)"
| "redis_call (EXISTS k) d = (RInt (if key_exists d k then 1 else 0), d)"
| "redis_call (EXPIRE k t) d =
     (if \<not> key_exists d k then (RInt 0, d)
      else if t \<le> 0 then (RInt 1, del_key k d)
      else (RInt 1, d\<lparr>ttls := (ttls d)(k \<mapsto> t)\<rparr>))"
| "redis_call (TTL k) d =
     (RInt (if \<not> key_exists d k then -2 else case ttls d k of None \<Rightarrow> -1 | Some t \<Rightarrow> t), d)"
| "redis_call (HSET k vs) d =
     (case (if vs = [] then None else pairs_of vs) of
        None \<Rightarrow> (RErr (RedisError ''ERR wrong number of arguments for 'hset' command''), d)
      | Some ps \<Rightarrow>
          (RInt (int (length (put_fields ps (hs d k))) - int (length (hs d k))),
           d\<lparr>hs := (hs d)(k := put_fields ps (hs d k))\<rparr>))"
| "redis_call (HGET k f) d = (case map_of (hs d k) f of None \<Rightarrow> RNil | Some v \<Rightarrow> RVal v, d)"
| "redis_call (HGETALL k) d = (RPairs (hs d k), d)"
| "redis_call (ZADD k sc m) d =
     (RInt (if zmem m (zs d k) then 0 else 1), d\<lparr>zs := (zs d)(k := zadd_list sc m (zs d k))\<rparr>)"
| "redis_call (ZREM k m) d =
     (RInt (if zmem m (zs d k) then 1 else 0), d\<lparr>zs := (zs d)(k := zrem_list m (zs d k))\<rparr>)"
| "redis_call (ZCARD k) d = (RInt (int (length (zs d k))), d)"
| "redis_call (ZRANK k m) d =
     (if zmem m (zs d k) then RInt (int (zrank_list m (zs d k))) else RNil, d)"
| "redis_call (ZSCORE k m) d =
     (case zscore_list m (zs d k) of None \<Rightarrow> RNil | Some sc \<Rightarrow> RInt sc, d)"
| "redis_call (ZFIRST k) d = (case zs d k of [] \<Rightarrow> RNil | e # _ \<Rightarrow> REntry e, d)"
| "redis_call (ZRANGEBYSCORE k lo hi) d =
     (RMembers (map zmember (filter (\<lambda>e. lo \<le> zscore e \<and> zscore e \<le> hi) (zs d k))), d)"
| "redis_call (BZPOPMIN k) d =
     (case zs d k of [] \<Rightarrow> (RNil, d) | e # z \<Rightarrow> (REntry e, d\<lparr>zs := (zs d)(k := z)\<rparr>))"
| "redis_call (SADD k m) d =
     (if m \<in> set (ss d k) then (RInt 0, d) else (RInt 1, d\<lparr>ss := (ss d)(k := m # ss d k)\<rparr>))"
| "redis_call (SCARD k) d = (RInt (int (length (ss d k))), d)"
| "redis_call (PUBLISH ch m) d = (RInt (int (subs d ch)), d\<lparr>pubs := pubs d @ [(ch, m)]\<rparr>)"
| "redis_call (SUBSCRIBE ch) d =
     (RInt (int (length (pubs d))), d\<lparr>subs := (subs d)(ch := Suc (subs d ch))\<rparr>)"
| "redis_call (UNSUBSCRIBE ch) d = (ROk, d\<lparr>subs := (subs d)(ch := subs d ch - 1)\<rparr>)"
| "redis_call (GETMESSAGE ch n) d =
     (case index_from ch n (drop n (pubs d)) of None \<Rightarrow> RNil | Some (i, m) \<Rightarrow> RMessage i m, d)"
| "redis_call PING d = (ROk, d)"

text \<open>MULTI/EXEC: the commands run one after the other, each with a reply of its own.\<close>

fun redis_multi :: "rcmd list \<Rightarrow> db \<Rightarrow> reply list \<times> db" where
  "redis_multi [] d = ([], d)"
| "redis_multi (c # cs) d =
     (fst (redis_call c d) # fst (redis_multi cs (snd (redis_call c d))),
      snd (redis_multi cs (snd (redis_call c d))))"

subsection \<open>Sorted sets\<close>

lemma zwf_Nil [simp]: "zwf []"
  by (simp add: zwf_def)

lemma distinct_map_insort:
  "distinct (map f (insort x xs)) \<longleftrightarrow> f x \<notin> f ` set xs \<and> distinct (map f xs)"
  by (induction xs) (auto simp: set_insort_key)

lemma zwf_zadd: "zwf z \<Longrightarrow> zwf (zadd_list sc m z)"
proof -
  assume z: "zwf z"
  let ?z = "filter (\<lambda>e. zmember e \<noteq> m) z"
  have s: "sorted ?z" and d: "distinct (map zmember ?z)"
    using z by (auto simp: zwf_def distinct_map_filter intro: sorted_filter [where f = id, simplified])
  then show ?thesis by (auto simp: zwf_def zadd_list_def sorted_insort distinct_map_insort)
qed

lemma zwf_zrem: "zwf z \<Longrightarrow> zwf (zrem_list m z)"
  by (auto simp: zwf_def zrem_list_def distinct_map_filter intro: sorted_filter [where f = id, simplified])

lemma zwf_tl: "zwf (e # z) \<Longrightarrow> zwf z"
  by (simp add: zwf_def)

lemma set_zadd [simp]: "set (zadd_list sc m z) = insert (ZEntry sc m) {e \<in> set z. zmember e \<noteq> m}"
  by (auto simp: zadd_list_def set_insort_key)

lemma set_zrem [simp]: "set (zrem_list m z) = {e \<in> set z. zmember e \<noteq> m}"
  by (auto simp: zrem_list_def)

lemma zmem_zadd [simp]: "zmem m' (zadd_list sc m z) \<longleftrightarrow> m' = m \<or> zmem m' z"
  by (auto simp: zmem_def)

lemma zmem_zrem [simp]: "zmem m' (zrem_list m z) \<longleftrightarrow> m' \<noteq> m \<and> zmem m' z"
  by (auto simp: zmem_def)

lemma zmem_Nil [simp]: "\<not> zmem m []"
  by (simp add: zmem_def)

lemma zmem_Cons [simp]: "zmem m (e # z) \<longleftrightarrow> m = zmember e \<or> zmem m z"
  by (auto simp: zmem_def)

lemma zrem_absent: "\<not> zmem m z \<Longrightarrow> zrem_list m z = z"
  by (auto simp: zrem_list_def zmem_def filter_id_conv)

lemma length_zadd_absent: "\<not> zmem m z \<Longrightarrow> length (zadd_list sc m z) = Suc (length z)"
  using zrem_absent [of m z] by (simp add: zadd_list_def zrem_list_def)

lemma length_zadd_le: "length (zadd_list sc m z) \<le> Suc (length z)"
  by (simp add: zadd_list_def)

lemma length_zrem_le: "length (zrem_list m z) \<le> length z"
  by (simp add: zrem_list_def)

lemma zadd_zrem: "\<not> zmem m z \<Longrightarrow> zwf z \<Longrightarrow> zrem_list m (zadd_list sc m z) = z"
proof -
  assume m: "\<not> zmem m z" and z: "zwf z"
  have "filter (\<lambda>e. zmember e \<noteq> m) (insort (ZEntry sc m) z) = z"
    using m by (induction z) (auto simp: filter_id_conv zmem_def)
  with m zrem_absent [OF m] show ?thesis by (simp add: zadd_list_def zrem_list_def)
qed

text \<open>The head of a well-formed sorted set is its least entry.\<close>

lemma zwf_head_least: "zwf (e # z) \<Longrightarrow> x \<in> set z \<Longrightarrow> e < x"
  by (auto simp: zwf_def order.strict_iff_order)

lemma zscore_list_zadd: "zscore_list m (zadd_list sc m z) = Some sc"
proof -
  have "filter (\<lambda>e. zmember e = m) (insort (ZEntry sc m) ys) = [ZEntry sc m]"
    if "\<forall>e \<in> set ys. zmember e \<noteq> m" for ys
    using that by (induction ys) auto
  moreover have "zscore_list m ys = map_option zscore (List.find (\<lambda>e. zmember e = m) ys)" for ys
    by (induction ys) (auto simp: zscore_list_def)
  moreover have "List.find P ys = (case filter P ys of [] \<Rightarrow> None | e # _ \<Rightarrow> Some e)"
    for P and ys :: "zentry list"
    by (induction ys) auto
  ultimately show ?thesis by (simp add: zadd_list_def)
qed

subsection \<open>The interface of a priority queue\<close>

text \<open>
  What the dispatcher relies on when it pops from \<open>queue:{model}\<close>: entries come out least
  first, whatever was added and removed in between. \<open>drain\<close> pops until nothing is left.
\<close>

locale prio_queue =
  fixes entries :: "'q \<Rightarrow> zentry set"
    and pop :: "'q \<Rightarrow> (zentry \<times> 'q) option"
    and sz :: "'q \<Rightarrow> nat"
    and inv :: "'q \<Rightarrow> bool"
  assumes pop_None: "inv q \<Longrightarrow> pop q = None \<longleftrightarrow> entries q = {}"
    and pop_Some: "inv q \<Longrightarrow> pop q = Some (e, q') \<Longrightarrow>
      e \<in> entries q \<and> entries q' = entries q - {e} \<and> inv q' \<and> sz q = Suc (sz q')"
    and pop_least: "inv q \<Longrightarrow> pop q = Some (e, q') \<Longrightarrow> x \<in> entries q \<Longrightarrow> e \<le> x"
begin

primrec drain :: "nat \<Rightarrow> 'q \<Rightarrow> zentry list" where
  "drain 0 q = []"
| "drain (Suc n) q = (case pop q of None \<Rightarrow> [] | Some (e, q') \<Rightarrow> e # drain n q')"

lemma drain_entries: "inv q \<Longrightarrow> set (drain n q) \<subseteq> entries q"
proof (induction n arbitrary: q)
  case 0
  then show ?case by simp
next
  case (Suc n)
  show ?case
  proof (cases "pop q")
    case None
    then show ?thesis by simp
  next
    case (Some a)
    obtain e q' where a: "pop q = Some (e, q')" using Some by (cases a) auto
    from pop_Some [OF Suc.prems a] Suc.IH [of q'] a show ?thesis by auto
  qed
qed

lemma drain_sorted: "inv q \<Longrightarrow> sorted (drain n q)"
proof (induction n arbitrary: q)
  case 0
  then show ?case by simp
next
  case (Suc n)
  show ?case
  proof (cases "pop q")
    case None
    then show ?thesis by simp
  next
    case (Some a)
    obtain e q' where a: "pop q = Some (e, q')" using Some by (cases a) auto
    from pop_Some [OF Suc.prems a] have q': "inv q'" "entries q' \<subseteq> entries q" by auto
    have "\<forall>x \<in> set (drain n q'). e \<le> x"
      using drain_entries [OF q'(1), of n] q'(2) pop_least [OF Suc.prems a] by auto
    with Suc.IH [OF q'(1)] a show ?thesis by simp
  qed
qed

lemma drain_all: "inv q \<Longrightarrow> sz q \<le> n \<Longrightarrow> set (drain n q) = entries q"
proof (induction n arbitrary: q)
  case 0
  have "pop q = None"
  proof (rule ccontr)
    assume "pop q \<noteq> None"
    then obtain e q' where a: "pop q = Some (e, q')" by auto
    from pop_Some [OF 0(1) a] 0(2) show False by simp
  qed
  with 0 show ?case by (simp add: pop_None)
next
  case (Suc n)
  show ?case
  proof (cases "pop q")
    case None
    from pop_None [OF Suc.prems(1)] None have "entries q = {}" by simp
    with None show ?thesis by simp
  next
    case (Some a)
    obtain e q' where a: "pop q = Some (e, q')" using Some by (cases a) auto
    from pop_Some [OF Suc.prems(1) a] Suc.prems(2)
    have "inv q'" "sz q' \<le> n" "entries q' = entries q - {e}" "e \<in> entries q" by auto
    with Suc.IH [of q'] a show ?thesis by auto
  qed
qed

end

definition zpop_list :: "zentry list \<Rightarrow> (zentry \<times> zentry list) option" where
  "zpop_list z = (case z of [] \<Rightarrow> None | e # z' \<Rightarrow> Some (e, z'))"

interpretation zq: prio_queue set zpop_list length zwf
proof unfold_locales
  fix q e q' x
  assume q: "zwf q" and p: "zpop_list q = Some (e, q')"
  from p have qe: "q = e # q'" by (simp add: zpop_list_def split: list.splits)
  with q show "e \<in> set q \<and> set q' = set q - {e} \<and> zwf q' \<and> length q = Suc (length q')"
    by (auto simp: zwf_def)
  show "x \<in> set q \<Longrightarrow> e \<le> x" using q qe by (auto simp: zwf_def)
qed (auto simp: zpop_list_def split: list.splits)

text \<open>BZPOPMIN is the pop of that interface on the model's database.\<close>

lemma bzpopmin_pop:
  "redis_call (BZPOPMIN k) d =
     (case zpop_list (zs d k) of None \<Rightarrow> (RNil, d)
      | Some (e, z) \<Rightarrow> (REntry e, d\<lparr>zs := (zs d)(k := z)\<rparr>))"
  by (simp add: zpop_list_def split: list.splits)

subsection \<open>Fields of a hash\<close>

lemma map_of_put_field [simp]: "map_of (put_field f v h) g = (if g = f then Some v else map_of h g)"
  by (induction f v h rule: put_field.induct) auto

lemma put_field_nonempty [simp]: "put_field f v h \<noteq> []"
  by (induction f v h rule: put_field.induct) auto

lemma put_fields_Nil [simp]: "put_fields [] h = h"
  by (simp add: put_fields_def)

lemma put_fields_Cons [simp]: "put_fields ((f, v) # ps) h = put_fields ps (put_field f v h)"
  by (simp add: put_fields_def)

lemma put_fields_keep: "h \<noteq> [] \<Longrightarrow> put_fields ps h \<noteq> []"
proof (induction ps arbitrary: h)
  case Nil
  then show ?case by simp
next
  case (Cons p ps)
  obtain f v where p: "p = (f, v)" by (cases p)
  have "put_fields ps (put_field f v h) \<noteq> []" by (rule Cons.IH) simp
  with p show ?case by simp
qed

lemma put_fields_nonempty [simp]: "ps \<noteq> [] \<Longrightarrow> put_fields ps h \<noteq> []"
  by (cases ps) (auto simp: put_fields_keep)

lemma redis_int_show [simp]: "redis_int (Some (Str (show_int n))) = (if in_int64 n then Some n else None)"
  by (simp only: redis_int.simps read_int_show_int option.case simp_thms)

declare redis_int.simps(2) [simp del]

end
