(* ===== verification/World.thy ===== *)
theory World
  imports Redis
begin

text \<open>
  What the Python code can ask of the world outside it: Redis, the backend over HTTP, the
  clock, randomness, the stop flag of its own task, the metrics registry and the event log.
  A coroutine that may raise is a tree whose result is \<open>exn + 'a\<close>. The locales
  \<open>redis_server\<close> (which may fail or be cancelled at any call) and
  \<open>exact_server\<close> (which answers every call) state what is assumed of the server.
\<close>

subsection \<open>Commands of the scheduler\<close>

text \<open>What the code does to the Prometheus registry: the collector, and the labels by their names.\<close>

datatype metric =
    CounterInc string "(string \<times> string) list"
  | Observe string "(string \<times> string) list" int
  | GaugeSet string "(string \<times> string) list" int

datatype ecmd =
    Now \<comment> \<open>time.time(), in microseconds\<close>
  | TimeNs
  | IsoNow \<comment> \<open>the text of datetime.now(utc).isoformat()\<close>
  | Monotonic
  | Urandom \<comment> \<open>os.urandom(10) as a big-endian integer\<close>
  | Sleep int
  | StopIsSet
  | HttpPost string json int
  | HttpGet string int
  | ScriptLoad string \<comment> \<open>SCRIPT LOAD of the script of this name\<close>
  | Metric metric
  | Emit json

datatype cmd =
    Redis rcmd
  | Multi "rcmd list"
  | Eval "(rcmd, reply, reply) tree"
  | Env ecmd

fun redis_exec :: "cmd \<Rightarrow> db \<Rightarrow> reply \<times> db" where
  "redis_exec (Redis c) d = redis_call c d"
| "redis_exec (Multi cs) d = (RList (fst (redis_multi cs d)), snd (redis_multi cs d))"
| "redis_exec (Eval t) d = run redis_call t d"
| "redis_exec (Env e) d = (RNil, d)"

fun is_redis :: "cmd \<Rightarrow> bool" where
  "is_redis (Env _) = False"
| "is_redis _ = True"

text \<open>
  How a call to the server can fail: an error of the client library or of the connection,
  or the cancellation of the task that waits for it. The command may have run or not.
\<close>

inductive fault :: "reply \<Rightarrow> bool" where
  "fault (RErr (RedisError m))"
| "fault (RErr (OSConnectionError m))"
| "fault (RErr CancelledError)"

inductive_simps fault_iff: "fault r"

locale redis_server =
  fixes H :: "cmd \<Rightarrow> 's \<Rightarrow> reply \<times> 's"
    and view :: "'s \<Rightarrow> db"
  assumes served: "is_redis c \<Longrightarrow> H c s = (r, s') \<Longrightarrow>
      (r, view s') = redis_exec c (view s) \<or>
      (fault r \<and> (view s' = view s \<or> view s' = snd (redis_exec c (view s))))"
    and env_frame: "\<not> is_redis c \<Longrightarrow> H c s = (r, s') \<Longrightarrow> view s' = view s"
begin

lemma view_cases: "H c s = (r, s') \<Longrightarrow> view s' = view s \<or> view s' = snd (redis_exec c (view s))"
  using served [of c s r s'] env_frame [of c s r s'] by (cases "is_redis c") (auto dest: arg_cong [where f = snd])

lemma reply_cases: "H c s = (r, s') \<Longrightarrow> is_redis c \<Longrightarrow> r = fst (redis_exec c (view s)) \<or> fault r"
  using served [of c s r s'] by (auto dest: arg_cong [where f = fst])

end

text \<open>
  An invariant of the database lifts to every interleaving over a server that may fail: a
  command is harmless when its documented effect keeps the invariant, and a reply is a fault
  or one the server gives in a state that satisfies the invariant.
\<close>

definition harmless :: "(db \<Rightarrow> bool) \<Rightarrow> cmd \<Rightarrow> bool" where
  "harmless I c \<longleftrightarrow> (\<forall>d. I d \<longrightarrow> I (snd (redis_exec c d)))"

definition replying :: "(db \<Rightarrow> bool) \<Rightarrow> cmd \<Rightarrow> reply \<Rightarrow> bool" where
  "replying I c r \<longleftrightarrow> is_redis c \<longrightarrow> fault r \<or> (\<exists>d. I d \<and> r = fst (redis_exec c d))"

text \<open>A key with a time to live may vanish at any time.\<close>

definition expires :: "db \<Rightarrow> db \<Rightarrow> bool" where
  "expires d d' \<longleftrightarrow> (\<exists>k. ttls d k \<noteq> None \<and> d' = del_key k d)"

locale server_invariant = redis_server H view
  for H :: "cmd \<Rightarrow> 's \<Rightarrow> reply \<times> 's" and view :: "'s \<Rightarrow> db" +
  fixes I :: "db \<Rightarrow> bool"
  assumes expiry_keeps: "I d \<Longrightarrow> expires d d' \<Longrightarrow> I d'"

sublocale server_invariant \<subseteq> rely_guarantee H "\<lambda>s s'. expires (view s) (view s')"
  "\<lambda>s. I (view s)" "harmless I" "replying I"
proof unfold_locales
  fix s c r s'
  assume "I (view s)" and "H c s = (r, s')"
  then show "harmless I c \<Longrightarrow> I (view s')" and "replying I c r"
    using view_cases [of c s r s'] reply_cases [of c s r s']
    by (auto simp: harmless_def replying_def)
qed (rule expiry_keeps)

context server_invariant
begin

text \<open>Every state of the interleaved system satisfies the invariant.\<close>

lemma reachable_invariant:
  assumes "reachable H (\<lambda>s s'. expires (view s) (view s')) progs s0 x"
    and "\<And>p. progs p \<Longrightarrow> wp (harmless I) (replying I) p (\<lambda>_. True)"
    and "I (view s0)"
  shows "I (view (fst x))"
  using reachable_keeps [OF assms] by simp

lemma run_invariant:
  "I (view s) \<Longrightarrow> wp (harmless I) (replying I) m (\<lambda>_. True) \<Longrightarrow> I (view (snd (run H m s)))"
  by (rule run_keeps)

end

text \<open>
  A server that answers every call, in an environment whose replies are of the documented
  form: clock readings are not negative, \<open>isoformat()\<close> is text without NUL, and an HTTP
  request either gives a response or raises.
\<close>

definition env_reply :: "ecmd \<Rightarrow> reply \<Rightarrow> bool" where
  "env_reply e r =
     (case e of
        Now \<Rightarrow> (case r of RInt n \<Rightarrow> 0 \<le> n | _ \<Rightarrow> False)
      | TimeNs \<Rightarrow> (case r of RInt n \<Rightarrow> 0 \<le> n | _ \<Rightarrow> False)
      | Monotonic \<Rightarrow> (case r of RInt n \<Rightarrow> 0 \<le> n | _ \<Rightarrow> False)
      | Urandom \<Rightarrow> (case r of RInt n \<Rightarrow> 0 \<le> n \<and> n < 2 ^ 80 | _ \<Rightarrow> False)
      | IsoNow \<Rightarrow> (case r of RText t \<Rightarrow> clean t | _ \<Rightarrow> False)
      | StopIsSet \<Rightarrow> (case r of RBool _ \<Rightarrow> True | _ \<Rightarrow> False)
      | ScriptLoad _ \<Rightarrow> (case r of RText _ \<Rightarrow> True | _ \<Rightarrow> False)
      | HttpPost _ _ _ \<Rightarrow> (case r of RResponse _ _ _ \<Rightarrow> True | RErr _ \<Rightarrow> True | _ \<Rightarrow> False)
      | HttpGet _ _ \<Rightarrow> (case r of RResponse _ _ _ \<Rightarrow> True | RErr _ \<Rightarrow> True | _ \<Rightarrow> False)
      | Sleep _ \<Rightarrow> (case r of RNil \<Rightarrow> True | _ \<Rightarrow> False)
      | Metric _ \<Rightarrow> (case r of RNil \<Rightarrow> True | _ \<Rightarrow> False)
      | Emit _ \<Rightarrow> (case r of RNil \<Rightarrow> True | _ \<Rightarrow> False))"

locale exact_server = redis_server +
  assumes exact: "is_redis c \<Longrightarrow> H c s = (r, s') \<Longrightarrow> (r, view s') = redis_exec c (view s)"
    and env_replies: "H (Env e) s = (r, s') \<Longrightarrow> env_reply e r"

subsection \<open>Servers to run the model on\<close>

text \<open>
  The documented behaviour itself is an exact server: Redis commands act on the database, and
  the replies of the environment are taken from a list, in order; where the list has none of
  the right form there is a default.
\<close>

fun default_reply :: "ecmd \<Rightarrow> reply" where
  "default_reply IsoNow = RText ''2026-05-26T09:12:03.441000+00:00''"
| "default_reply StopIsSet = RBool False"
| "default_reply (ScriptLoad name) = RText name"
| "default_reply (HttpPost _ _ _) = RErr (ConnectError ''connection refused'')"
| "default_reply (HttpGet _ _) = RErr (ConnectError ''connection refused'')"
| "default_reply (Sleep _) = RNil"
| "default_reply (Metric _) = RNil"
| "default_reply (Emit _) = RNil"
| "default_reply Now = RInt 0"
| "default_reply TimeNs = RInt 0"
| "default_reply Monotonic = RInt 0"
| "default_reply Urandom = RInt 0"

definition scripted :: "cmd \<Rightarrow> db \<times> reply list \<Rightarrow> reply \<times> (db \<times> reply list)" where
  "scripted c s =
     (case c of
        Env e \<Rightarrow>
          (case snd s of
             r # rs \<Rightarrow> if env_reply e r then (r, (fst s, rs)) else (default_reply e, s)
           | [] \<Rightarrow> (default_reply e, s))
      | _ \<Rightarrow> (fst (redis_exec c (fst s)), (snd (redis_exec c (fst s)), snd s)))"

lemma env_reply_default: "env_reply e (default_reply e)"
  by (cases e) (simp_all add: env_reply_def clean_def)

interpretation scripted: exact_server scripted fst
  by unfold_locales
    (auto simp: scripted_def prod_eq_iff env_reply_default split: if_splits cmd.splits list.splits)

text \<open>A server that fails by a schedule: True lets the next call through.\<close>

definition flaky :: "cmd \<Rightarrow> db \<times> bool list \<Rightarrow> reply \<times> (db \<times> bool list)" where
  "flaky c s =
     (if \<not> is_redis c then (RNil, s)
      else case snd s of
        [] \<Rightarrow> (fst (redis_exec c (fst s)), (snd (redis_exec c (fst s)), []))
      | b # bs \<Rightarrow> if b then (fst (redis_exec c (fst s)), (snd (redis_exec c (fst s)), bs))
                  else (RErr (RedisError ''connection lost''), (fst s, bs)))"

interpretation flaky: redis_server flaky fst
  by unfold_locales
    (auto simp: flaky_def fault_iff prod_eq_iff split: if_splits list.splits)

subsection \<open>Coroutines that may raise\<close>

type_synonym 'a io = "(cmd, reply, exn + 'a) tree"

text \<open>\<open>except aioredis.RedisError\<close>: any other exception goes on.\<close>

definition catch_redis :: "'a io \<Rightarrow> 'a io \<Rightarrow> 'a io" where
  "catch_redis m h = catch m (\<lambda>e. if is_redis_error e then h else raise e)"

definition checked :: "reply \<Rightarrow> exn + reply" where
  "checked r = (case r of RErr e \<Rightarrow> Inl e | _ \<Rightarrow> Inr r)"

definition redis :: "rcmd \<Rightarrow> reply io" where
  "redis c = Call (Redis c) (\<lambda>r. Ret (checked r))"

definition evalsha :: "(rcmd, reply, reply) tree \<Rightarrow> reply io" where
  "evalsha t = Call (Eval t) (\<lambda>r. Ret (checked r))"

text \<open>A pipeline is a transaction; the client raises the first error among its replies.\<close>

definition pipeline :: "rcmd list \<Rightarrow> unit io" where
  "pipeline cs = Call (Multi cs) (\<lambda>r. Ret (case r of
      RErr e \<Rightarrow> Inl e
    | RList rs \<Rightarrow> (case List.find is_err rs of Some (RErr e) \<Rightarrow> Inl e | _ \<Rightarrow> Inr ())
    | _ \<Rightarrow> Inr ()))"

fun reply_int :: "reply \<Rightarrow> int" where
  "reply_int (RInt n) = n"
| "reply_int _ = 0"

text \<open>\<open>bytes.decode()\<close> of a stored value that is text.\<close>

fun rval_text :: "rval \<Rightarrow> string" where
  "rval_text (Str s) = s"
| "rval_text _ = []"

fun reply_text :: "reply \<Rightarrow> string option" where
  "reply_text (RVal v) = Some (rval_text v)"
| "reply_text _ = None"

fun reply_pairs :: "reply \<Rightarrow> (string \<times> rval) list" where
  "reply_pairs (RPairs h) = h"
| "reply_pairs _ = []"

text \<open>Readings of the environment that cannot raise.\<close>

definition read_env :: "ecmd \<Rightarrow> int io" where
  "read_env e = Call (Env e) (\<lambda>r. Ret (Inr (reply_int r)))"

definition iso_now :: "string io" where
  "iso_now = Call (Env IsoNow) (\<lambda>r. Ret (Inr (case r of RText s \<Rightarrow> s | _ \<Rightarrow> [])))"

definition stop_is_set :: "bool io" where
  "stop_is_set = Call (Env StopIsSet) (\<lambda>r. Ret (Inr (r = RBool True)))"

text \<open>An await that only sleeps can still be cancelled.\<close>

definition sleep :: "int \<Rightarrow> unit io" where
  "sleep us = Call (Env (Sleep us)) (\<lambda>r. Ret (case r of RErr e \<Rightarrow> Inl e | _ \<Rightarrow> Inr ()))"

definition metric :: "metric \<Rightarrow> unit io" where
  "metric m = Call (Env (Metric m)) (\<lambda>_. Ret (Inr ()))"

definition emit :: "json \<Rightarrow> unit io" where
  "emit ev = Call (Env (Emit ev)) (\<lambda>_. Ret (Inr ()))"

lemmas io_defs = return_def raise_def andThen_def catch_def finally_do_def catch_redis_def
  checked_def redis_def evalsha_def pipeline_def read_env_def iso_now_def stop_is_set_def sleep_def
  metric_def emit_def

subsection \<open>Reasoning about a coroutine that runs alone\<close>

text \<open>
  \<open>alone m d Q\<close>: run on an exact server whose database is \<open>d\<close>, with any
  replies of the environment, \<open>m\<close> ends with a result and a database that satisfy
  \<open>Q\<close>.
\<close>

primrec alone :: "(cmd, reply, 'a) tree \<Rightarrow> db \<Rightarrow> ('a \<Rightarrow> db \<Rightarrow> bool) \<Rightarrow> bool" where
  "alone (Ret a) d Q = Q a d"
| "alone (Call c k) d Q =
     (case c of
        Env e \<Rightarrow> (\<forall>r. env_reply e r \<longrightarrow> alone (k r) d Q)
      | _ \<Rightarrow> alone (k (fst (redis_exec c d))) (snd (redis_exec c d)) Q)"

context exact_server
begin

lemma alone_run:
  "alone m (view s) Q \<Longrightarrow> Q (fst (run H m s)) (view (snd (run H m s)))"
proof (induction m arbitrary: s)
  case (Ret a)
  then show ?case by simp
next
  case (Call c k)
  obtain r s' where h: "H c s = (r, s')" by (cases "H c s") auto
  have "alone (k r) (view s') Q"
  proof (cases "is_redis c")
    case True
    from exact [OF this h] have "r = fst (redis_exec c (view s))" "view s' = snd (redis_exec c (view s))"
      by (simp_all add: prod_eq_iff)
    with Call.prems True show ?thesis by (cases c) simp_all
  next
    case False
    then obtain e where e: "c = Env e" by (cases c) auto
    with h have "env_reply e r" and "view s' = view s"
      using env_replies [of e s r s'] env_frame [of c s r s'] by simp_all
    with Call.prems e show ?thesis by simp
  qed
  then show ?case using Call.IH h by simp
qed

end

lemma alone_mono: "alone m d P \<Longrightarrow> (\<And>a d. P a d \<Longrightarrow> Q a d) \<Longrightarrow> alone m d Q"
proof (induction m arbitrary: d)
  case (Ret a)
  then show ?case by simp
next
  case (Call c k)
  then show ?case by (cases c) auto
qed

lemma alone_bind [simp]: "alone (bind m f) d Q = alone m d (\<lambda>a d. alone (f a) d Q)"
proof (induction m arbitrary: d)
  case (Ret a)
  then show ?case by simp
next
  case (Call c k)
  then show ?case by (cases c) auto
qed

lemma alone_return [simp]: "alone (return a) d Q = Q (Inr a) d"
  by (simp add: return_def)

lemma alone_raise [simp]: "alone (raise e) d Q = Q (Inl e) d"
  by (simp add: raise_def)

lemma alone_andThen [simp]:
  "alone (andThen m f) d Q =
     alone m d (\<lambda>x d. case x of Inl e \<Rightarrow> Q (Inl e) d | Inr a \<Rightarrow> alone (f a) d Q)"
  by (auto simp: andThen_def intro!: arg_cong [where f = "alone m d"] split: sum.splits)

lemma alone_catch [simp]:
  "alone (catch m h) d Q =
     alone m d (\<lambda>x d. case x of Inl e \<Rightarrow> alone (h e) d Q | Inr a \<Rightarrow> Q (Inr a) d)"
  by (auto simp: catch_def intro!: arg_cong [where f = "alone m d"] split: sum.splits)

lemma alone_finally [simp]:
  "alone (finally_do m f) d Q =
     alone m d (\<lambda>x d. alone f d (\<lambda>y d. case y of Inl e \<Rightarrow> Q (Inl e) d | Inr _ \<Rightarrow> Q x d))"
  by (auto simp: finally_do_def intro!: arg_cong [where f = "alone m d"] split: sum.splits)

lemma alone_catch_redis [simp]:
  "alone (catch_redis m h) d Q =
     alone m d (\<lambda>x d. case x of Inl e \<Rightarrow> if is_redis_error e then alone h d Q else Q (Inl e) d
                      | Inr a \<Rightarrow> Q (Inr a) d)"
  by (auto simp: catch_redis_def intro!: arg_cong [where f = "alone m d"] split: sum.splits if_splits)

lemma alone_redis [simp]:
  "alone (redis c) d Q = Q (checked (fst (redis_call c d))) (snd (redis_call c d))"
  by (simp add: redis_def)

lemma alone_evalsha [simp]:
  "alone (evalsha t) d Q = Q (checked (fst (run redis_call t d))) (snd (run redis_call t d))"
  by (simp add: evalsha_def)

lemma alone_pipeline [simp]:
  "alone (pipeline cs) d Q =
     Q (case List.find is_err (fst (redis_multi cs d)) of Some (RErr e) \<Rightarrow> Inl e | _ \<Rightarrow> Inr ())
       (snd (redis_multi cs d))"
  by (simp add: pipeline_def)

lemma env_reply_int [simp]:
  "env_reply Now r \<longleftrightarrow> (\<exists>n. r = RInt n \<and> 0 \<le> n)"
  "env_reply TimeNs r \<longleftrightarrow> (\<exists>n. r = RInt n \<and> 0 \<le> n)"
  "env_reply Monotonic r \<longleftrightarrow> (\<exists>n. r = RInt n \<and> 0 \<le> n)"
  "env_reply Urandom r \<longleftrightarrow> (\<exists>n. r = RInt n \<and> 0 \<le> n \<and> n < 2 ^ 80)"
  "env_reply IsoNow r \<longleftrightarrow> (\<exists>t. r = RText t \<and> clean t)"
  "env_reply StopIsSet r \<longleftrightarrow> (\<exists>b. r = RBool b)"
  "env_reply (ScriptLoad name) r \<longleftrightarrow> (\<exists>t. r = RText t)"
  "env_reply (Sleep t) r \<longleftrightarrow> r = RNil"
  "env_reply (Metric m) r \<longleftrightarrow> r = RNil"
  "env_reply (Emit v) r \<longleftrightarrow> r = RNil"
  "env_reply (HttpPost u j t) r \<longleftrightarrow> (\<exists>e. r = RErr e) \<or> (\<exists>st hd b. r = RResponse st hd b)"
  "env_reply (HttpGet u t) r \<longleftrightarrow> (\<exists>e. r = RErr e) \<or> (\<exists>st hd b. r = RResponse st hd b)"
  by (cases r; simp add: env_reply_def)+

lemma alone_readings [simp]:
  "alone (read_env Now) d Q = (\<forall>n \<ge> 0. Q (Inr n) d)"
  "alone (read_env TimeNs) d Q = (\<forall>n \<ge> 0. Q (Inr n) d)"
  "alone (read_env Monotonic) d Q = (\<forall>n \<ge> 0. Q (Inr n) d)"
  "alone (read_env Urandom) d Q = (\<forall>n \<ge> 0. n < 2 ^ 80 \<longrightarrow> Q (Inr n) d)"
  by (auto simp: read_env_def)

lemma alone_iso_now [simp]: "alone iso_now d Q = (\<forall>t. clean t \<longrightarrow> Q (Inr t) d)"
  by (auto simp: iso_now_def)

lemma alone_stop_is_set [simp]: "alone stop_is_set d Q = (\<forall>b. Q (Inr b) d)"
  by (auto simp: stop_is_set_def)

lemma alone_effects [simp]:
  "alone (sleep us) d R = R (Inr ()) d"
  "alone (metric m) d R = R (Inr ()) d"
  "alone (emit ev) d R = R (Inr ()) d"
  by (auto simp: sleep_def metric_def emit_def)

lemma checked_simps [simp]:
  "checked RNil = Inr RNil" "checked ROk = Inr ROk" "checked (RInt n) = Inr (RInt n)"
  "checked (RVal v) = Inr (RVal v)" "checked (RPairs h) = Inr (RPairs h)"
  "checked (RMembers xs) = Inr (RMembers xs)" "checked (REntry z) = Inr (REntry z)"
  "checked (RMessage i m) = Inr (RMessage i m)" "checked (RErr e) = Inl e"
  "checked (RResponse st hdr b) = Inr (RResponse st hdr b)" "checked (RBool bv) = Inr (RBool bv)"
  "checked (RText t) = Inr (RText t)" "checked (RList rs) = Inr (RList rs)"
  by (simp_all add: checked_def)

lemma checked_lookups [simp]:
  "checked (case v of None \<Rightarrow> RNil | Some x \<Rightarrow> RVal x) = Inr (case v of None \<Rightarrow> RNil | Some x \<Rightarrow> RVal x)"
  "checked (case n of None \<Rightarrow> RNil | Some i \<Rightarrow> RInt i) = Inr (case n of None \<Rightarrow> RNil | Some i \<Rightarrow> RInt i)"
  by (simp_all split: option.splits)

text \<open>The same combinators under interference.\<close>

lemma wp_catch_redis [simp]:
  "wp ok G (catch_redis m h) Q =
     wp ok G m (\<lambda>x. case x of Inl e \<Rightarrow> if is_redis_error e then wp ok G h Q else Q (Inl e)
                     | Inr a \<Rightarrow> Q (Inr a))"
  by (auto simp: catch_redis_def intro!: arg_cong [where f = "wp ok G m"] split: sum.splits if_splits)

lemma wp_redis [simp]:
  "wp ok G (redis c) Q \<longleftrightarrow> ok (Redis c) \<and> (\<forall>r. G (Redis c) r \<longrightarrow> Q (checked r))"
  by (simp add: redis_def)

lemma wp_evalsha [simp]:
  "wp ok G (evalsha t) Q \<longleftrightarrow> ok (Eval t) \<and> (\<forall>r. G (Eval t) r \<longrightarrow> Q (checked r))"
  by (simp add: evalsha_def)

lemma wp_pipelineI: "ok (Multi cs) \<Longrightarrow> (\<And>x. Q x) \<Longrightarrow> wp ok G (pipeline cs) Q"
  by (simp add: pipeline_def)

lemma wp_envI:
  "ok (Env e) \<Longrightarrow> (\<And>n. Q (Inr n)) \<Longrightarrow> wp ok G (read_env e) Q"
  by (simp add: read_env_def)

text \<open>What \<open>alone\<close> proves of a coroutine holds of its run on any exact server.\<close>

lemma alone_sound:
  assumes "exact_server H view" and "alone m (view s) Q"
  shows "case run H m s of (x, s') \<Rightarrow> Q x (view s')"
  using exact_server.alone_run [OF assms] by (simp add: split_def)

end
