(* ===== verification/Keys.thy ===== *)
theory Keys
  imports World
begin

text \<open>
  \<open>app/storage/redis_keys.py\<close>: the names of the Redis keys. Keys of one family are
  injective in their argument and keys of different families differ, so a write to one never
  reaches another.
\<close>

definition slots_in_use_key :: "string \<Rightarrow> string" where
  "slots_in_use_key model = ''slots:'' @ model @ '':in_use''"

definition slots_capacity_key :: "string \<Rightarrow> string" where
  "slots_capacity_key model = ''slots:'' @ model @ '':capacity''"

definition queue_key :: "string \<Rightarrow> string" where
  "queue_key model = ''queue:'' @ model"

definition job_key :: "string \<Rightarrow> string" where
  "job_key job_id = ''job:'' @ job_id"

definition idem_key :: "string \<Rightarrow> string" where
  "idem_key sha256_hash = ''idem:'' @ sha256_hash"

definition lease_key :: "string \<Rightarrow> string" where
  "lease_key job_id = ''lease:'' @ job_id"

definition inflight_key :: "string \<Rightarrow> string" where
  "inflight_key model = ''inflight:'' @ model"

definition dlq_key :: "string \<Rightarrow> string" where
  "dlq_key model = ''dlq:'' @ model"

definition seq_key :: "string \<Rightarrow> string" where
  "seq_key model = ''seq:'' @ model"

definition job_done_channel :: "string \<Rightarrow> string" where
  "job_done_channel job_id = ''job_done:'' @ job_id"

lemmas key_defs = slots_in_use_key_def slots_capacity_key_def queue_key_def job_key_def idem_key_def
  lease_key_def inflight_key_def dlq_key_def seq_key_def job_done_channel_def

lemma key_inj [simp, key_facts]:
  "slots_in_use_key a = slots_in_use_key b \<longleftrightarrow> a = b"
  "slots_capacity_key a = slots_capacity_key b \<longleftrightarrow> a = b"
  "queue_key a = queue_key b \<longleftrightarrow> a = b"
  "job_key a = job_key b \<longleftrightarrow> a = b"
  "idem_key a = idem_key b \<longleftrightarrow> a = b"
  "lease_key a = lease_key b \<longleftrightarrow> a = b"
  "inflight_key a = inflight_key b \<longleftrightarrow> a = b"
  "dlq_key a = dlq_key b \<longleftrightarrow> a = b"
  "seq_key a = seq_key b \<longleftrightarrow> a = b"
  "job_done_channel a = job_done_channel b \<longleftrightarrow> a = b"
  by (simp_all add: key_defs)

lemma in_use_capacity_differ: "slots_in_use_key a \<noteq> slots_capacity_key b"
proof
  assume "slots_in_use_key a = slots_capacity_key b"
  then have "last (slots_in_use_key a) = last (slots_capacity_key b)" by simp
  then show False by (simp add: key_defs)
qed

text \<open>The keys, with the family of each: a tag and its argument.\<close>

lemma key_differ [simp, key_facts]:
  "slots_in_use_key a \<noteq> slots_capacity_key b" "slots_capacity_key a \<noteq> slots_in_use_key b"
  "slots_in_use_key a \<noteq> queue_key b" "queue_key a \<noteq> slots_in_use_key b"
  "slots_in_use_key a \<noteq> job_key b" "job_key a \<noteq> slots_in_use_key b"
  "slots_in_use_key a \<noteq> idem_key b" "idem_key a \<noteq> slots_in_use_key b"
  "slots_in_use_key a \<noteq> lease_key b" "lease_key a \<noteq> slots_in_use_key b"
  "slots_in_use_key a \<noteq> seq_key b" "seq_key a \<noteq> slots_in_use_key b"
  "slots_capacity_key a \<noteq> queue_key b" "queue_key a \<noteq> slots_capacity_key b"
  "slots_capacity_key a \<noteq> job_key b" "job_key a \<noteq> slots_capacity_key b"
  "slots_capacity_key a \<noteq> idem_key b" "idem_key a \<noteq> slots_capacity_key b"
  "slots_capacity_key a \<noteq> lease_key b" "lease_key a \<noteq> slots_capacity_key b"
  "slots_capacity_key a \<noteq> seq_key b" "seq_key a \<noteq> slots_capacity_key b"
  "queue_key a \<noteq> job_key b" "job_key a \<noteq> queue_key b"
  "queue_key a \<noteq> idem_key b" "idem_key a \<noteq> queue_key b"
  "queue_key a \<noteq> lease_key b" "lease_key a \<noteq> queue_key b"
  "queue_key a \<noteq> inflight_key b" "inflight_key a \<noteq> queue_key b"
  "queue_key a \<noteq> dlq_key b" "dlq_key a \<noteq> queue_key b"
  "queue_key a \<noteq> seq_key b" "seq_key a \<noteq> queue_key b"
  "job_key a \<noteq> idem_key b" "idem_key a \<noteq> job_key b"
  "job_key a \<noteq> lease_key b" "lease_key a \<noteq> job_key b"
  "job_key a \<noteq> inflight_key b" "inflight_key a \<noteq> job_key b"
  "job_key a \<noteq> dlq_key b" "dlq_key a \<noteq> job_key b"
  "job_key a \<noteq> seq_key b" "seq_key a \<noteq> job_key b"
  "idem_key a \<noteq> lease_key b" "lease_key a \<noteq> idem_key b"
  "idem_key a \<noteq> seq_key b" "seq_key a \<noteq> idem_key b"
  "idem_key a \<noteq> inflight_key b" "inflight_key a \<noteq> idem_key b"
  "lease_key a \<noteq> inflight_key b" "inflight_key a \<noteq> lease_key b"
  "lease_key a \<noteq> seq_key b" "seq_key a \<noteq> lease_key b"
  "lease_key a \<noteq> dlq_key b" "dlq_key a \<noteq> lease_key b"
  "inflight_key a \<noteq> slots_in_use_key b" "slots_in_use_key a \<noteq> inflight_key b"
  "inflight_key a \<noteq> slots_capacity_key b" "slots_capacity_key a \<noteq> inflight_key b"
  "inflight_key a \<noteq> dlq_key b" "dlq_key a \<noteq> inflight_key b"
  "dlq_key a \<noteq> slots_in_use_key b" "slots_in_use_key a \<noteq> dlq_key b"
  "idem_key a \<noteq> dlq_key b" "dlq_key a \<noteq> idem_key b"
  using in_use_capacity_differ [of a b] in_use_capacity_differ [of b a] by (simp_all add: key_defs)

end
