(* ===== verification/Job_State.thy ===== *)
theory Job_State
  imports Keys
begin

text \<open>
  \<open>app/state.py\<close>: the enumerations of a job's life with their string values, and the
  records the admission controller takes and returns.
\<close>

datatype job_status = QUEUED | DISPATCHED | COMPLETED | FAILED | TIMEOUT | CANCELLED | REJECTED
  | CANCELLING

fun status_value :: "job_status \<Rightarrow> string" where
  "status_value QUEUED = ''queued''"
| "status_value DISPATCHED = ''dispatched''"
| "status_value COMPLETED = ''completed''"
| "status_value FAILED = ''failed''"
| "status_value TIMEOUT = ''timeout''"
| "status_value CANCELLED = ''cancelled''"
| "status_value REJECTED = ''rejected''"
| "status_value CANCELLING = ''cancelling''"

datatype event_type = EV_ADMITTED | EV_QUEUED | EV_DISPATCHED | EV_COMPLETED | EV_FAILED
  | EV_TIMEOUT | EV_CANCELLED | EV_REJECTED | EV_WORKER_CRASH | EV_SLOT_DRIFT_CORRECTED

fun event_value :: "event_type \<Rightarrow> string" where
  "event_value EV_ADMITTED = ''admitted''"
| "event_value EV_QUEUED = ''queued''"
| "event_value EV_DISPATCHED = ''dispatched''"
| "event_value EV_COMPLETED = ''completed''"
| "event_value EV_FAILED = ''failed''"
| "event_value EV_TIMEOUT = ''timeout''"
| "event_value EV_CANCELLED = ''cancelled''"
| "event_value EV_REJECTED = ''rejected''"
| "event_value EV_WORKER_CRASH = ''worker_crash''"
| "event_value EV_SLOT_DRIFT_CORRECTED = ''slot_drift_corrected''"

datatype error_class = QUEUE_TIMEOUT | SYNC_TIMEOUT | BACKEND_5XX | BACKEND_TIMEOUT | BACKEND_429
  | NETWORK_ERROR | WORKER_CRASH | ADMISSION_REJECTED

fun error_value :: "error_class \<Rightarrow> string" where
  "error_value QUEUE_TIMEOUT = ''queue_timeout''"
| "error_value SYNC_TIMEOUT = ''sync_timeout''"
| "error_value BACKEND_5XX = ''backend_5xx''"
| "error_value BACKEND_TIMEOUT = ''backend_timeout''"
| "error_value BACKEND_429 = ''backend_429''"
| "error_value NETWORK_ERROR = ''network_error''"
| "error_value WORKER_CRASH = ''worker_crash''"
| "error_value ADMISSION_REJECTED = ''admission_rejected''"

datatype admission_result = AR_ADMITTED | AR_QUEUED | AR_REJECTED | AR_IDEMPOTENT_HIT

fun admission_value :: "admission_result \<Rightarrow> string" where
  "admission_value AR_ADMITTED = ''admitted''"
| "admission_value AR_QUEUED = ''queued''"
| "admission_value AR_REJECTED = ''rejected''"
| "admission_value AR_IDEMPOTENT_HIT = ''idempotent_hit''"

record job_request =
  jr_job_id :: string
  jr_request_id :: string
  jr_model :: string
  jr_payload :: json
  jr_priority :: json
  jr_caller :: string
  jr_caller_metadata :: json
  jr_idempotency_key :: "string option"
  jr_enqueue_ts :: int

record admission_outcome =
  ao_result :: admission_result
  ao_job_id :: string
  ao_status :: job_status
  ao_position_in_queue :: "int option"
  ao_existing_job_id :: "string option"
  ao_estimated_drain_s :: "int option"

lemma status_value_inj [simp]: "status_value a = status_value b \<longleftrightarrow> a = b"
  by (cases a; cases b) simp_all

definition terminal_statuses :: "job_status list" where
  "terminal_statuses = [COMPLETED, FAILED, CANCELLED, TIMEOUT, REJECTED]"

definition is_terminal :: "string \<Rightarrow> bool" where
  "is_terminal s \<longleftrightarrow> s \<in> set (map status_value terminal_statuses)"

lemma is_terminal_value [simp]: "is_terminal (status_value a) \<longleftrightarrow> a \<in> set terminal_statuses"
  by (auto simp: is_terminal_def terminal_statuses_def simp del: status_value.simps)

end
