(* ===== verification/Config.thy ===== *)
theory Config
  imports Job_State
begin

text \<open>
  \<open>app/config.py\<close>: the configuration, its validators, and the lookup of a model's
  settings. A mapping of YAML is an association list with distinct keys; parsing YAML is
  outside the model, so \<open>load_config\<close> starts from the sections the parser found.
\<close>

record fallback_policy_config =
  fp_enabled :: bool
  fp_trigger_on :: "string list"
  fp_chain :: "json list"

definition default_fallback :: fallback_policy_config where
  "default_fallback = \<lparr>fp_enabled = False, fp_trigger_on = [], fp_chain = []\<rparr>"

record model_config =
  max_concurrency :: int
  max_queue_depth :: int
  max_wait_seconds :: int
  sync_timeout_seconds :: int
  priority :: int
  fallback_policy :: fallback_policy_config

definition priority_in_range :: "int \<Rightarrow> exn + int" where
  "priority_in_range v =
     (if v \<notin> {1, 3, 5, 7, 9} then Inl (ValueError ''priority must be one of 1,3,5,7,9'') else Inr v)"

definition positive_int :: "int \<Rightarrow> exn + int" where
  "positive_int v = (if v < 1 then Inl (ValueError ''must be >= 1'') else Inr v)"

text \<open>Validation reports every field that fails, in the order of the fields.\<close>

fun failed_fields :: "(string \<times> (exn + int)) list \<Rightarrow> string list" where
  "failed_fields [] = []"
| "failed_fields ((f, Inl _) # rest) = f # failed_fields rest"
| "failed_fields ((f, Inr _) # rest) = failed_fields rest"

definition make_model_config ::
  "int \<Rightarrow> int \<Rightarrow> int \<Rightarrow> int \<Rightarrow> int \<Rightarrow> fallback_policy_config \<Rightarrow> exn + model_config" where
  "make_model_config mc md mw st pr fb =
     (let bad = failed_fields
        [(''max_concurrency'', positive_int mc), (''max_queue_depth'', positive_int md),
         (''priority'', priority_in_range pr)]
      in if bad = [] then
           Inr \<lparr>max_concurrency = mc, max_queue_depth = md, max_wait_seconds = mw,
                sync_timeout_seconds = st, priority = pr, fallback_policy = fb\<rparr>
         else Inl (ValidationError bad))"

record defaults_config =
  df_max_concurrency :: int
  df_max_queue_depth :: int
  df_max_wait_seconds :: int
  df_sync_timeout_seconds :: int
  df_priority :: int
  df_fallback_policy :: fallback_policy_config

definition default_defaults :: defaults_config where
  "default_defaults = \<lparr>df_max_concurrency = 3, df_max_queue_depth = 50, df_max_wait_seconds = 120,
     df_sync_timeout_seconds = 120, df_priority = 5, df_fallback_policy = default_fallback\<rparr>"

record scheduler_config =
  redis_url :: string
  backend_litellm_url :: string
  worker_poll_timeout_seconds :: int
  lease_watcher_interval_seconds :: int
  integrity_check_interval_seconds :: int
  log_dir :: string
  log_rotate_utc_midnight :: bool

definition default_scheduler :: scheduler_config where
  "default_scheduler = \<lparr>redis_url = ''redis://localhost:6379/0'',
     backend_litellm_url = ''http://xeon:4000'', worker_poll_timeout_seconds = 5,
     lease_watcher_interval_seconds = 10, integrity_check_interval_seconds = 60,
     log_dir = ''/tmp/admission-scheduler'', log_rotate_utc_midnight = True\<rparr>"

record app_config =
  scheduler :: scheduler_config
  defaults :: defaults_config
  models :: "(string \<times> model_config) list"

definition model_config_for :: "app_config \<Rightarrow> string \<Rightarrow> exn + model_config" where
  "model_config_for cfg model =
     (case map_of (models cfg) model of
        Some mc \<Rightarrow> Inr mc
      | None \<Rightarrow>
          make_model_config (df_max_concurrency (defaults cfg)) (df_max_queue_depth (defaults cfg))
            (df_max_wait_seconds (defaults cfg)) (df_sync_timeout_seconds (defaults cfg))
            (df_priority (defaults cfg)) (df_fallback_policy (defaults cfg)))"

definition all_model_names :: "app_config \<Rightarrow> string list" where
  "all_model_names cfg = map fst (models cfg)"

text \<open>
  The file: None when it does not exist, otherwise the three sections. A field of a model
  that is absent takes the default of the \<open>ModelConfig\<close> class, not of the section
  \<open>defaults\<close>.
\<close>

record raw_model =
  rm_max_concurrency :: "int option"
  rm_max_queue_depth :: "int option"
  rm_max_wait_seconds :: "int option"
  rm_sync_timeout_seconds :: "int option"
  rm_priority :: "int option"
  rm_fallback_policy :: "fallback_policy_config option"

definition or_default :: "'a \<Rightarrow> 'a option \<Rightarrow> 'a" where
  "or_default a v = (case v of None \<Rightarrow> a | Some x \<Rightarrow> x)"

definition validate_model :: "raw_model \<Rightarrow> exn + model_config" where
  "validate_model r = make_model_config (or_default 3 (rm_max_concurrency r))
     (or_default 50 (rm_max_queue_depth r)) (or_default 120 (rm_max_wait_seconds r))
     (or_default 120 (rm_sync_timeout_seconds r)) (or_default 5 (rm_priority r))
     (or_default default_fallback (rm_fallback_policy r))"

fun validate_models :: "(string \<times> raw_model) list \<Rightarrow> exn + (string \<times> model_config) list" where
  "validate_models [] = Inr []"
| "validate_models ((n, r) # rest) =
     (case validate_model r of
        Inl e \<Rightarrow> (case (e, validate_models rest) of
            (ValidationError a, Inl (ValidationError b)) \<Rightarrow> Inl (ValidationError (a @ b))
          | _ \<Rightarrow> Inl e)
      | Inr mc \<Rightarrow> (case validate_models rest of Inl e \<Rightarrow> Inl e | Inr ms \<Rightarrow> Inr ((n, mc) # ms)))"

definition load_config ::
  "(scheduler_config option \<times> defaults_config option \<times> (string \<times> raw_model) list) option \<Rightarrow>
   exn + app_config" where
  "load_config file =
     (case file of
        None \<Rightarrow> Inl (OtherException ''Config file not found'')
      | Some (sc, df, ms) \<Rightarrow>
          (case validate_models ms of Inl e \<Rightarrow> Inl e
           | Inr mcs \<Rightarrow> Inr \<lparr>scheduler = or_default default_scheduler sc,
                             defaults = or_default default_defaults df, models = mcs\<rparr>))"

subsection \<open>What validation guarantees\<close>

definition valid_model_config :: "model_config \<Rightarrow> bool" where
  "valid_model_config mc \<longleftrightarrow> 1 \<le> max_concurrency mc \<and> 1 \<le> max_queue_depth mc \<and>
     priority mc \<in> {1, 3, 5, 7, 9}"

definition valid_config :: "app_config \<Rightarrow> bool" where
  "valid_config cfg \<longleftrightarrow> list_all (\<lambda>(_, mc). valid_model_config mc) (models cfg)"

definition valid_defaults :: "defaults_config \<Rightarrow> bool" where
  "valid_defaults df \<longleftrightarrow> 1 \<le> df_max_concurrency df \<and> 1 \<le> df_max_queue_depth df \<and>
     df_priority df \<in> {1, 3, 5, 7, 9}"

lemma make_model_config_valid: "make_model_config mc md mw st pr fb = Inr c \<Longrightarrow> valid_model_config c"
  by (auto simp: make_model_config_def valid_model_config_def positive_int_def priority_in_range_def
      Let_def split: if_splits)

lemma make_model_config_Inr_iff:
  "(\<exists>c. make_model_config mc md mw st pr fb = Inr c) \<longleftrightarrow> 1 \<le> mc \<and> 1 \<le> md \<and> pr \<in> {1, 3, 5, 7, 9}"
  by (auto simp: make_model_config_def positive_int_def priority_in_range_def Let_def)

lemma validate_models_valid:
  "validate_models ms = Inr mcs \<Longrightarrow>
     list_all (\<lambda>(_, mc). valid_model_config mc) mcs \<and> map fst mcs = map fst ms"
proof (induction ms arbitrary: mcs)
  case Nil
  then show ?case by simp
next
  case (Cons x ms)
  obtain n r where x: "x = (n, r)" by (cases x)
  with Cons.prems obtain mc ms' where "validate_model r = Inr mc" "validate_models ms = Inr ms'"
      "mcs = (n, mc) # ms'"
    by (auto split: sum.splits prod.splits exn.splits)
  with Cons.IH x show ?case by (auto simp: validate_model_def dest: make_model_config_valid)
qed

lemma valid_config_lookup: "valid_config cfg \<Longrightarrow> map_of (models cfg) m = Some mc \<Longrightarrow> valid_model_config mc"
  by (auto simp: valid_config_def list_all_iff dest: map_of_SomeD)

text \<open>
  C35. A configuration that loads has valid settings for every model it lists, under the names
  of the file; a file with an invalid model is refused with the fields that fail.
\<close>

theorem loaded_config_valid:
  assumes "load_config (Some (sc, df, ms)) = Inr cfg"
  shows "valid_config cfg \<and> all_model_names cfg = map fst ms \<and>
    list_all (\<lambda>m. case model_config_for cfg m of Inl _ \<Rightarrow> False | Inr mc \<Rightarrow> valid_model_config mc)
      (all_model_names cfg)"
proof -
  obtain mcs where ms: "validate_models ms = Inr mcs" and cfg: "models cfg = mcs"
    using assms by (auto simp: load_config_def split: sum.splits)
  note v = validate_models_valid [OF ms]
  have "\<exists>mc. map_of mcs m = Some mc \<and> valid_model_config mc" if "m \<in> fst ` set mcs" for m
  proof -
    from that obtain mc where mc: "map_of mcs m = Some mc" by (auto dest!: weak_map_of_SomeI)
    from map_of_SomeD [OF this] v have "valid_model_config mc" by (auto simp: list_all_iff)
    with mc show ?thesis by blast
  qed
  then have "list_all (\<lambda>m. case model_config_for cfg m of Inl _ \<Rightarrow> False | Inr mc \<Rightarrow> valid_model_config mc)
      (all_model_names cfg)"
    unfolding all_model_names_def cfg list_all_iff model_config_for_def by fastforce
  then show ?thesis using v by (simp add: valid_config_def all_model_names_def cfg)
qed

definition raw_default :: raw_model where
  "raw_default = \<lparr>rm_max_concurrency = None, rm_max_queue_depth = None, rm_max_wait_seconds = None,
     rm_sync_timeout_seconds = None, rm_priority = None, rm_fallback_policy = None\<rparr>"

lemma load_demo:
  "load_config (Some (None, Some df, [(''code'', raw_default)])) = Inr \<lparr>scheduler = default_scheduler,
     defaults = df, models = [(''code'', \<lparr>max_concurrency = 3, max_queue_depth = 50, max_wait_seconds = 120,
       sync_timeout_seconds = 120, priority = 5, fallback_policy = default_fallback\<rparr>)]\<rparr>"
  by (simp add: load_config_def validate_model_def raw_default_def or_default_def make_model_config_def
      positive_int_def priority_in_range_def)

theorem loaded_config_valid_witness:
  "valid_config \<lparr>scheduler = default_scheduler, defaults = default_defaults, models = [(''code'',
     \<lparr>max_concurrency = 3, max_queue_depth = 50, max_wait_seconds = 120,
       sync_timeout_seconds = 120, priority = 5, fallback_policy = default_fallback\<rparr>)]\<rparr>"
  using loaded_config_valid [OF load_demo [of default_defaults]] by simp

text \<open>
  The section "defaults" is not validated when the file loads: a model the file does not
  list has settings exactly when the defaults are valid, so a bad default is accepted at start
  and fails each request for such a model.
\<close>

theorem defaults_checked_late:
  assumes "load_config (Some (sc, Some df, ms)) = Inr cfg" and "m \<notin> set (all_model_names cfg)"
  shows "(\<exists>mc. model_config_for cfg m = Inr mc) = valid_defaults df"
proof -
  have "map_of (models cfg) m = None" and "defaults cfg = df"
    using assms by (auto simp: load_config_def all_model_names_def or_default_def map_of_eq_None_iff
        split: sum.splits)
  then show ?thesis
    by (simp add: model_config_for_def make_model_config_Inr_iff valid_defaults_def)
qed

theorem defaults_checked_late_witness:
  "(\<exists>mc. model_config_for \<lparr>scheduler = default_scheduler, defaults = default_defaults\<lparr>df_max_concurrency := 0\<rparr>,
     models = [(''code'', \<lparr>max_concurrency = 3, max_queue_depth = 50, max_wait_seconds = 120,
       sync_timeout_seconds = 120, priority = 5, fallback_policy = default_fallback\<rparr>)]\<rparr> ''other'' = Inr mc) =
   valid_defaults (default_defaults\<lparr>df_max_concurrency := 0\<rparr>)"
  by (rule defaults_checked_late [OF load_demo]) (simp add: all_model_names_def)

end
