(* ===== verification/Lua_Scripts.thy ===== *)
theory Lua_Scripts
  imports Config
begin

text \<open>
  \<open>app/storage/redis_lua.py\<close>: the three Lua scripts, as programs over
  \<open>redis.call\<close> that Redis runs atomically, and the Python class that loads and calls them.
  Numbers travel to a script as decimal text and back; the model passes the number.
\<close>

text \<open>\<open>redis.call\<close> raises the error of a command, which ends the script.\<close>

definition lua_call :: "rcmd \<Rightarrow> (reply \<Rightarrow> (rcmd, reply, reply) tree) \<Rightarrow> (rcmd, reply, reply) tree" where
  "lua_call c k = Call c (\<lambda>r. if is_err r then Ret r else k r)"

text \<open>\<open>tonumber\<close> of the reply to GET; None is \<open>nil\<close>.\<close>

fun tonumber :: "reply \<Rightarrow> int option" where
  "tonumber (RVal (Str s)) = read_int s"
| "tonumber (RInt n) = Some n"
| "tonumber _ = None"

definition claim_slot_script :: "string \<Rightarrow> string \<Rightarrow> string \<Rightarrow> string \<Rightarrow> (rcmd, reply, reply) tree" where
  "claim_slot_script in_use_key capacity_key job_id ts_iso =
     lua_call (GET in_use_key) (\<lambda>r.
     let in_use = (case tonumber r of None \<Rightarrow> 0 | Some n \<Rightarrow> n) in
     lua_call (GET capacity_key) (\<lambda>r.
     case tonumber r of
       None \<Rightarrow> Ret (RInt 0)
     | Some capacity \<Rightarrow>
         if in_use < capacity then
           lua_call (INCR in_use_key) (\<lambda>_.
           lua_call (HSET (''job:'' @ job_id)
               [Str ''status'', Str ''dispatched'', Str ''dispatch_ts'', Str ts_iso]) (\<lambda>_.
           Ret (RInt 1)))
         else Ret (RInt 0)))"

definition cancel_queued_script :: "string \<Rightarrow> string \<Rightarrow> string \<Rightarrow> string \<Rightarrow> (rcmd, reply, reply) tree" where
  "cancel_queued_script queue_k job_k job_id cancel_ts =
     lua_call (ZREM queue_k job_id) (\<lambda>removed.
     if removed = RInt 1 then
       lua_call (HSET job_k [Str ''status'', Str ''cancelled'', Str ''complete_ts'', Str cancel_ts])
         (\<lambda>_. Ret (RInt 1))
     else Ret (RInt 0))"

text \<open>
  The fields travel as one string joined by NUL. \<open>gmatch(s .. NUL, '([^%z]*)%z')\<close> yields the
  pieces between the NULs; the script then drops the empty ones.
\<close>

fun split_nul :: "string \<Rightarrow> string list" where
  "split_nul [] = [[]]"
| "split_nul (c # cs) =
     (if c = CHR 0x00 then [] # split_nul cs
      else case split_nul cs of [] \<Rightarrow> [[c]] | t # ts \<Rightarrow> (c # t) # ts)"

fun join_nul :: "string list \<Rightarrow> string" where
  "join_nul [] = []"
| "join_nul [s] = s"
| "join_nul (s # t # ts) = s @ CHR 0x00 # join_nul (t # ts)"

definition enqueue_job_script ::
  "string \<Rightarrow> string \<Rightarrow> string \<Rightarrow> int \<Rightarrow> int \<Rightarrow> string \<Rightarrow> (rcmd, reply, reply) tree" where
  "enqueue_job_script queue_k job_k job_id score max_depth s =
     lua_call (ZCARD queue_k) (\<lambda>depth.
     if reply_int depth \<ge> max_depth then Ret (RInt 0)
     else
       lua_call (ZADD queue_k score job_id) (\<lambda>_.
       let parts = split_nul s;
           hset_args = filter (\<lambda>p. p \<noteq> []) parts
       in lua_call (HSET job_k (map Str hset_args)) (\<lambda>_. Ret (RInt 1))))"

subsection \<open>The Python side\<close>

record lua_scripts =
  claim_slot_sha :: "string option"
  cancel_queued_sha :: "string option"
  enqueue_job_sha :: "string option"

definition new_lua_scripts :: lua_scripts where
  "new_lua_scripts = \<lparr>claim_slot_sha = None, cancel_queued_sha = None, enqueue_job_sha = None\<rparr>"

definition script_load :: "string \<Rightarrow> string io" where
  "script_load name = Call (Env (ScriptLoad name)) (\<lambda>r. Ret (case r of
      RErr e \<Rightarrow> Inl e | RText sha \<Rightarrow> Inr sha | _ \<Rightarrow> Inr []))"

definition load_all :: "lua_scripts io" where
  "load_all =
     andThen (script_load ''CLAIM_SLOT_SCRIPT'') (\<lambda>a.
     andThen (script_load ''CANCEL_QUEUED_SCRIPT'') (\<lambda>b.
     andThen (script_load ''ENQUEUE_JOB_SCRIPT'') (\<lambda>c.
     return \<lparr>claim_slot_sha = Some a, cancel_queued_sha = Some b, enqueue_job_sha = Some c\<rparr>)))"

text \<open>The property that gives a SHA1 raises when \<open>load_all\<close> has not run.\<close>

definition require_sha :: "string option \<Rightarrow> unit io" where
  "require_sha sha = (case sha of None \<Rightarrow> raise (RuntimeError ''Lua scripts not loaded'') | Some _ \<Rightarrow> return ())"

definition evalsha_claim_slot ::
  "lua_scripts \<Rightarrow> string \<Rightarrow> string \<Rightarrow> string \<Rightarrow> string \<Rightarrow> int io" where
  "evalsha_claim_slot lua in_use_key capacity_key job_id ts_iso =
     andThen (require_sha (claim_slot_sha lua)) (\<lambda>_.
     andThen (evalsha (claim_slot_script in_use_key capacity_key job_id ts_iso)) (\<lambda>r.
     return (reply_int r)))"

definition evalsha_cancel_queued ::
  "lua_scripts \<Rightarrow> string \<Rightarrow> string \<Rightarrow> string \<Rightarrow> string \<Rightarrow> int io" where
  "evalsha_cancel_queued lua queue_k job_k job_id cancel_ts =
     andThen (require_sha (cancel_queued_sha lua)) (\<lambda>_.
     andThen (evalsha (cancel_queued_script queue_k job_k job_id cancel_ts)) (\<lambda>r.
     return (reply_int r)))"

definition evalsha_enqueue_job ::
  "lua_scripts \<Rightarrow> string \<Rightarrow> string \<Rightarrow> string \<Rightarrow> int \<Rightarrow> int \<Rightarrow> string list \<Rightarrow> int io" where
  "evalsha_enqueue_job lua queue_k job_k job_id score max_depth field_values =
     andThen (require_sha (enqueue_job_sha lua)) (\<lambda>_.
     andThen (evalsha (enqueue_job_script queue_k job_k job_id score max_depth (join_nul field_values)))
       (\<lambda>r. return (reply_int r)))"

definition lua_loaded :: "lua_scripts \<Rightarrow> bool" where
  "lua_loaded lua \<longleftrightarrow> claim_slot_sha lua \<noteq> None \<and> cancel_queued_sha lua \<noteq> None \<and> enqueue_job_sha lua \<noteq> None"

subsection \<open>What each script does to the database\<close>

lemma tonumber_GET:
  "redis_int v = Some n \<Longrightarrow> v \<noteq> None \<Longrightarrow> tonumber (case v of None \<Rightarrow> RNil | Some v \<Rightarrow> RVal v) = Some n"
  by (cases v rule: redis_int.cases) (auto simp: redis_int.simps split: option.splits if_splits)

definition counter :: "db \<Rightarrow> string \<Rightarrow> int option" where
  "counter d k = redis_int (kv d k)"

lemma tonumber_in_use:
  "counter d k = Some n \<Longrightarrow>
     (case tonumber (case kv d k of None \<Rightarrow> RNil | Some v \<Rightarrow> RVal v) of None \<Rightarrow> 0 | Some m \<Rightarrow> m) = n"
  using tonumber_GET [of "kv d k" n] by (cases "kv d k") (auto simp: counter_def)

definition claimed :: "string \<Rightarrow> int \<Rightarrow> string \<Rightarrow> string \<Rightarrow> db \<Rightarrow> db" where
  "claimed ik n job_id ts d = d\<lparr>kv := (kv d)(ik \<mapsto> Str (show_int n)),
     hs := (hs d)(job_key job_id := put_field ''dispatch_ts'' (Str ts)
       (put_field ''status'' (Str ''dispatched'') (hs d (job_key job_id))))\<rparr>"

lemma claim_slot_run:
  assumes "counter d ik = Some n" and "kv d ck = Some (Str (show_int cap))"
    and "in_int64 (n + 1)"
  shows "run redis_call (claim_slot_script ik ck job_id ts) d =
    (if n < cap then (RInt 1, claimed ik (n + 1) job_id ts d) else (RInt 0, d))"
  using assms tonumber_in_use [OF assms(1)]
  by (cases "kv d ik")
    (simp_all add: claim_slot_script_def lua_call_def Let_def counter_def claimed_def job_key_def)

lemma cancel_queued_run:
  "run redis_call (cancel_queued_script qk jk job_id ts) d =
    (if zmem job_id (zs d qk) then
       (RInt 1, d\<lparr>zs := (zs d)(qk := zrem_list job_id (zs d qk)),
         hs := (hs d)(jk := put_field ''complete_ts'' (Str ts)
           (put_field ''status'' (Str ''cancelled'') (hs d jk)))\<rparr>)
     else (RInt 0, d))"
  by (simp add: cancel_queued_script_def lua_call_def zrem_absent)

lemma split_nul_nonempty [simp]: "split_nul s \<noteq> []"
  by (cases s) (auto split: list.splits)

lemma split_nul_no: "CHR 0x00 \<notin> set s \<Longrightarrow> split_nul s = [s]"
  by (induction s) auto

lemma split_nul_append: "CHR 0x00 \<notin> set s \<Longrightarrow> split_nul (s @ CHR 0x00 # t) = s # split_nul t"
  by (induction s) auto

lemma split_join_nul:
  "xs \<noteq> [] \<Longrightarrow> \<forall>s \<in> set xs. CHR 0x00 \<notin> set s \<Longrightarrow> split_nul (join_nul xs) = xs"
  by (induction xs rule: join_nul.induct) (auto simp: split_nul_no split_nul_append)

fun flat_fields :: "(string \<times> string) list \<Rightarrow> string list" where
  "flat_fields [] = []"
| "flat_fields ((f, v) # ps) = f # v # flat_fields ps"

lemma pairs_of_flat: "pairs_of (map Str (flat_fields ps)) = Some (map (\<lambda>(f, v). (f, Str v)) ps)"
  by (induction ps rule: flat_fields.induct) auto

lemma flat_fields_Nil [simp]: "flat_fields ps = [] \<longleftrightarrow> ps = []"
  by (cases ps rule: flat_fields.cases) auto

lemma enqueue_job_run:
  assumes "ps \<noteq> []" and "\<forall>s \<in> set (flat_fields ps). clean s"
  shows "run redis_call (enqueue_job_script qk jk job_id score mx (join_nul (flat_fields ps))) d =
    (if int (length (zs d qk)) \<ge> mx then (RInt 0, d)
     else (RInt 1, d\<lparr>zs := (zs d)(qk := zadd_list score job_id (zs d qk)),
       hs := (hs d)(jk := put_fields (map (\<lambda>(f, v). (f, Str v)) ps) (hs d jk))\<rparr>))"
proof -
  have "split_nul (join_nul (flat_fields ps)) = flat_fields ps"
    using assms by (intro split_join_nul) (auto simp: clean_def)
  moreover have "filter (\<lambda>p. p \<noteq> []) (flat_fields ps) = flat_fields ps"
    using assms(2) by (auto simp: filter_id_conv clean_def)
  ultimately show ?thesis
    using assms(1) by (simp add: enqueue_job_script_def lua_call_def pairs_of_flat)
qed

end
