(* ===== verification/Uuid7.thy ===== *)
theory Uuid7
  imports Lua_Scripts "HOL-Library.Word"
begin

unbundle bit_operations_syntax

text \<open>
  \<open>app/core/uuid7.py\<close>: job identifiers. The 128-bit value is built from the clock in
  milliseconds and 80 random bits; its text is the canonical form of \<open>uuid.UUID\<close>. Python's
  integers are unbounded, so the shifts and ors are on \<open>int\<close>.
\<close>

definition uuid7_ms :: "int \<Rightarrow> int" where
  "uuid7_ms now_us = (now_us div 1000) AND 0xFFFFFFFFFFFF"

definition uuid7_value :: "int \<Rightarrow> int \<Rightarrow> int" where
  "uuid7_value ms rand_bytes =
     (let rand_a = drop_bit 62 rand_bytes AND 0xFFF;
          rand_b = rand_bytes AND 0x3FFFFFFFFFFFFFFF
      in push_bit 80 ms OR push_bit 76 0x7 OR push_bit 64 rand_a OR push_bit 62 0b10 OR rand_b)"

definition hex_char :: "int \<Rightarrow> char" where
  "hex_char n = (if n < 10 then char_of (48 + nat n) else char_of (87 + nat n))"

text \<open>\<open>'%0{n}x' % v\<close> for a value of at most n hexadecimal digits.\<close>

fun hex_digits :: "nat \<Rightarrow> int \<Rightarrow> string" where
  "hex_digits 0 v = []"
| "hex_digits (Suc n) v = hex_digits n (v div 16) @ [hex_char (v mod 16)]"

definition dashed :: "string \<Rightarrow> string" where
  "dashed h = take 8 h @ ''-'' @ take 4 (drop 8 h) @ ''-'' @ take 4 (drop 12 h) @ ''-''
     @ take 4 (drop 16 h) @ ''-'' @ drop 20 h"

definition uuid_text :: "int \<Rightarrow> string" where
  "uuid_text v = dashed (hex_digits 32 v)"

definition uuid7 :: "string io" where
  "uuid7 =
     andThen (read_env Now) (\<lambda>now.
     andThen (read_env Urandom) (\<lambda>rand_bytes.
     return (uuid_text (uuid7_value (uuid7_ms now) rand_bytes))))"

subsection \<open>The bits of the value\<close>

lemma uuid7_value_sum:
  assumes "0 \<le> ms"
  shows "uuid7_value ms r = ms * 2 ^ 80 + 7 * 2 ^ 76 + take_bit 12 (drop_bit 62 r) * 2 ^ 64
           + 2 * 2 ^ 62 + take_bit 62 r"
proof -
  let ?a = "take_bit 12 (drop_bit 62 r)" and ?b = "take_bit 62 r"
  have a: "drop_bit 62 r AND 0xFFF = ?a" and b: "r AND 0x3FFFFFFFFFFFFFFF = ?b"
    by (simp_all add: take_bit_eq_mask mask_eq_exp_minus_1)
  have disj: "x OR y = x + y" if "x AND y = 0" for x y :: int
    using that by (simp add: disjunctive_add bit_eq_iff bit_simps)
  have nb: "bit (2 :: int) n \<longleftrightarrow> n = 1" for n
    by (cases n) (simp_all add: bit_Suc bit_1_iff)
  have sb: "bit (7 :: int) n \<longleftrightarrow> n < 3" for n
    using bit_mask_iff [of 3 n, where ?'a = int] by (simp add: mask_eq_exp_minus_1)
  have "uuid7_value ms r =
      push_bit 80 ms OR (push_bit 76 7 OR (push_bit 64 ?a OR (push_bit 62 2 OR ?b)))"
    by (simp add: uuid7_value_def Let_def a b or.assoc)
  also have "\<dots> = push_bit 80 ms + (push_bit 76 7 + (push_bit 64 ?a + (push_bit 62 2 + ?b)))"
  proof -
    have "push_bit 62 2 AND ?b = 0"
      by (rule bit_eqI) (auto simp: bit_simps nb simp del: push_bit_numeral)
    then have 1: "push_bit 62 2 OR ?b = push_bit 62 2 + ?b" by (rule disj)
    have "push_bit 64 ?a AND (push_bit 62 2 OR ?b) = 0"
      by (rule bit_eqI) (auto simp: bit_simps nb simp del: push_bit_numeral)
    then have 2: "push_bit 64 ?a OR (push_bit 62 2 OR ?b) = push_bit 64 ?a + (push_bit 62 2 + ?b)"
      using 1 disj by metis
    have "push_bit 76 7 AND (push_bit 64 ?a OR (push_bit 62 2 OR ?b)) = 0"
      by (rule bit_eqI) (auto simp: bit_simps nb sb simp del: push_bit_numeral)
    then have 3: "push_bit 76 7 OR (push_bit 64 ?a OR (push_bit 62 2 OR ?b))
        = push_bit 76 7 + (push_bit 64 ?a + (push_bit 62 2 + ?b))"
      using 2 disj by metis
    have "push_bit 80 ms AND (push_bit 76 7 OR (push_bit 64 ?a OR (push_bit 62 2 OR ?b))) = 0"
      by (rule bit_eqI) (auto simp: bit_simps nb sb simp del: push_bit_numeral)
    then show ?thesis using 3 disj by metis
  qed
  finally show ?thesis by (simp add: push_bit_eq_mult)
qed

lemma div_shifted: "0 \<le> c \<Longrightarrow> c < k \<Longrightarrow> (m * k + c) div k = (m :: int)"
  by (simp add: div_pos_pos_trivial)

lemma uuid7_value_fields:
  assumes "0 \<le> ms"
  shows "uuid7_value ms r div 2 ^ 80 = ms"
    and "uuid7_value ms r div 2 ^ 76 = ms * 16 + 7"
    and "uuid7_value ms r div 2 ^ 62 = ms * 2 ^ 18 + 7 * 2 ^ 14 + take_bit 12 (drop_bit 62 r) * 4 + 2"
proof -
  define a where "a = take_bit 12 (drop_bit 62 r)"
  define b where "b = take_bit 62 r"
  have a: "0 \<le> a" "a < 2 ^ 12" and b: "0 \<le> b" "b < 2 ^ 62"
    unfolding a_def b_def by (rule take_bit_nonnegative take_bit_int_less_exp)+
  note v = uuid7_value_sum [OF assms, of r, folded a_def b_def]
  have "uuid7_value ms r = ms * 2 ^ 80 + (7 * 2 ^ 76 + a * 2 ^ 64 + 2 * 2 ^ 62 + b)"
    using v by simp
  moreover have "0 \<le> 7 * 2 ^ 76 + a * 2 ^ 64 + 2 * 2 ^ 62 + b" using a b by simp
  moreover have "7 * 2 ^ 76 + a * 2 ^ 64 + 2 * 2 ^ 62 + b < 2 ^ 80" using a b by simp
  ultimately show "uuid7_value ms r div 2 ^ 80 = ms" by (simp only: div_shifted)
  have "uuid7_value ms r = (ms * 16 + 7) * 2 ^ 76 + (a * 2 ^ 64 + 2 * 2 ^ 62 + b)"
    using v by simp
  moreover have "0 \<le> a * 2 ^ 64 + 2 * 2 ^ 62 + b" using a b by simp
  moreover have "a * 2 ^ 64 + 2 * 2 ^ 62 + b < 2 ^ 76" using a b by simp
  ultimately show "uuid7_value ms r div 2 ^ 76 = ms * 16 + 7" by (simp only: div_shifted)
  have "uuid7_value ms r = (ms * 2 ^ 18 + 7 * 2 ^ 14 + a * 4 + 2) * 2 ^ 62 + b"
    using v by simp
  with b show "uuid7_value ms r div 2 ^ 62 = ms * 2 ^ 18 + 7 * 2 ^ 14 + take_bit 12 (drop_bit 62 r) * 4 + 2"
    by (simp only: div_shifted a_def)
qed

lemma uuid7_value_less:
  assumes "0 \<le> ms" and "ms < ms'"
  shows "uuid7_value ms r < uuid7_value ms' r'"
proof (rule ccontr)
  assume "\<not> uuid7_value ms r < uuid7_value ms' r'"
  then have "uuid7_value ms' r' div 2 ^ 80 \<le> uuid7_value ms r div 2 ^ 80"
    by (intro zdiv_mono1) simp_all
  with assms show False using uuid7_value_fields(1) [of ms r] uuid7_value_fields(1) [of ms' r'] by simp
qed

lemma uuid7_value_bounds:
  assumes "0 \<le> ms" and "ms < 2 ^ 48"
  shows "0 \<le> uuid7_value ms r" and "uuid7_value ms r < 2 ^ 128"
proof -
  have "take_bit 12 (drop_bit 62 r) < (2 :: int) ^ 12" "take_bit 62 r < (2 :: int) ^ 62"
    "(0 :: int) \<le> take_bit 12 (drop_bit 62 r)" "(0 :: int) \<le> take_bit 62 r"
    by (rule take_bit_nonnegative take_bit_int_less_exp)+
  with assms uuid7_value_sum [OF assms(1), of r]
  show "0 \<le> uuid7_value ms r" and "uuid7_value ms r < 2 ^ 128" by simp_all
qed

lemma uuid7_ms_bounds: "0 \<le> uuid7_ms now" "uuid7_ms now < 2 ^ 48"
proof -
  have "uuid7_ms now = take_bit 48 (now div 1000)"
    by (simp add: uuid7_ms_def take_bit_eq_mask mask_eq_exp_minus_1)
  then show "0 \<le> uuid7_ms now" "uuid7_ms now < 2 ^ 48"
    using take_bit_int_less_exp [of 48 "now div 1000"] by simp_all
qed

lemma uuid7_ms_exact: "0 \<le> now \<Longrightarrow> now div 1000 < 2 ^ 48 \<Longrightarrow> uuid7_ms now = now div 1000"
proof -
  assume "0 \<le> now" "now div 1000 < 2 ^ 48"
  then have "take_bit 48 (now div 1000) = now div 1000"
    by (intro take_bit_int_eq_self) (simp_all add: pos_imp_zdiv_nonneg_iff)
  then show ?thesis by (simp add: uuid7_ms_def take_bit_eq_mask mask_eq_exp_minus_1)
qed

subsection \<open>The text\<close>

lemma length_hex_digits [simp]: "length (hex_digits n v) = n"
  by (induction n arbitrary: v) auto

lemma length_uuid_text: "length (uuid_text v) = 36"
  by (simp add: uuid_text_def dashed_def)

lemma of_char_hex: "0 \<le> n \<Longrightarrow> n < 16 \<Longrightarrow>
    (of_char (hex_char n) :: nat) = (if n < 10 then 48 + nat n else 87 + nat n)"
  by (auto simp: hex_char_def nat_less_iff)

lemma hex_char_less:
  assumes "0 \<le> a" "a < b" "b < 16"
  shows "hex_char a < hex_char b"
  using assms of_char_hex [of a] of_char_hex [of b]
  by (auto simp: less_char_def split: if_splits)

text \<open>Lexicographic order of equally long strings, piece by piece.\<close>

lemma less_append_same_length:
  fixes xs :: "'a::linorder list"
  assumes "length xs = length xs'"
  shows "xs @ ys < xs' @ ys' \<longleftrightarrow> xs < xs' \<or> (xs = xs' \<and> ys < ys')"
  using assms by (induction xs xs' rule: list_induct2) auto

lemma hex_digits_less:
  "0 \<le> v \<Longrightarrow> v < w \<Longrightarrow> w < 16 ^ n \<Longrightarrow> hex_digits n v < hex_digits n w"
proof (induction n arbitrary: v w)
  case 0
  then show ?case by simp
next
  case (Suc n)
  have w: "w div 16 < 16 ^ n" using Suc.prems(3) by (simp add: div_less_iff_less_mult)
  show ?case
  proof (cases "v div 16 < w div 16")
    case True
    moreover have "0 \<le> v div 16" using Suc.prems(1) by (simp add: pos_imp_zdiv_nonneg_iff)
    ultimately have "hex_digits n (v div 16) < hex_digits n (w div 16)" using Suc.IH w by blast
    then show ?thesis by (simp add: less_append_same_length)
  next
    case False
    then have e: "v div 16 = w div 16" using Suc.prems(2) zdiv_mono1 [of v w 16] by simp
    then have "v mod 16 < w mod 16"
      using Suc.prems(2) div_mult_mod_eq [of v 16] div_mult_mod_eq [of w 16] by linarith
    then have "hex_char (v mod 16) < hex_char (w mod 16)" by (intro hex_char_less) auto
    with e show ?thesis by (simp add: less_append_same_length)
  qed
qed

lemma dashed_less:
  assumes "length h = 32" and "length h' = 32" and "h < h'"
  shows "dashed h < dashed h'"
proof -
  have split: "h = take 8 h @ take 4 (drop 8 h) @ take 4 (drop 12 h) @ take 4 (drop 16 h) @ drop 20 h"
    for h :: string
  proof -
    have a: "take 4 (drop 16 h) @ drop 20 h = drop 16 h"
      using append_take_drop_id [of 4 "drop 16 h"] by simp
    have b: "take 4 (drop 12 h) @ drop 16 h = drop 12 h"
      using append_take_drop_id [of 4 "drop 12 h"] by simp
    have c: "take 4 (drop 8 h) @ drop 12 h = drop 8 h"
      using append_take_drop_id [of 4 "drop 8 h"] by simp
    show ?thesis by (simp only: a b c append_take_drop_id)
  qed
  from assms(3) have "take 8 h @ take 4 (drop 8 h) @ take 4 (drop 12 h) @ take 4 (drop 16 h) @ drop 20 h
     < take 8 h' @ take 4 (drop 8 h') @ take 4 (drop 12 h') @ take 4 (drop 16 h') @ drop 20 h'"
    by (simp only: split [symmetric])
  with assms(1,2) show ?thesis
    unfolding dashed_def by (simp add: less_append_same_length)
qed

lemma uuid_text_less:
  assumes "0 \<le> v" and "v < w" and "w < 2 ^ 128"
  shows "uuid_text v < uuid_text w"
  unfolding uuid_text_def using assms by (intro dashed_less hex_digits_less) simp_all

lemma hex_digits_nth:
  "i < n \<Longrightarrow> hex_digits n v ! i = hex_char (v div 16 ^ (n - 1 - i) mod 16)"
proof (induction n arbitrary: v)
  case 0
  then show ?case by simp
next
  case (Suc n)
  show ?case
  proof (cases "i < n")
    case True
    then have "hex_digits (Suc n) v ! i = hex_char (v div 16 div 16 ^ (n - 1 - i) mod 16)"
      using Suc.IH by (simp add: nth_append)
    also have "v div 16 div 16 ^ (n - 1 - i) = v div (16 * 16 ^ (n - 1 - i))"
      by (simp add: zdiv_zmult2_eq)
    also have "16 * 16 ^ (n - 1 - i) = (16 :: int) ^ (Suc n - 1 - i)"
      using True by (metis Suc_diff_Suc Suc_eq_plus1 add_diff_cancel_right' diff_Suc_eq_diff_pred
          diff_commute power_Suc)
    finally show ?thesis .
  next
    case False
    with Suc.prems have "i = n" by simp
    then show ?thesis by (simp add: nth_append)
  qed
qed

lemma hex_chars:
  "hex_char 7 = CHR ''7''" "hex_char 8 = CHR ''8''" "hex_char 9 = CHR ''9''" "hex_char 10 = CHR ''a''"
  "hex_char 11 = CHR ''b''"
  by code_simp+

lemma nth_dashed:
  assumes "length h = 32"
  shows "dashed h ! 14 = h ! 12" and "dashed h ! 19 = h ! 16"
    and "dashed h ! 8 = CHR ''-''" and "dashed h ! 13 = CHR ''-''" and "dashed h ! 18 = CHR ''-''" and "dashed h ! 23 = CHR ''-''"
  using assms by (simp_all add: dashed_def nth_append)

text \<open>
  An identifier is a version 7 UUID whatever the clock and the random bytes: 36 characters,
  hyphens in their places, the version digit 7 and a variant digit 8, 9, a or b.
\<close>

theorem uuid7_layout:
  assumes "exact_server H view"
  shows "case run H uuid7 s of (res, s') \<Rightarrow>
    (\<exists>u. res = Inr u \<and> length u = 36 \<and> map ((!) u) [8, 13, 18, 23] = ''----'' \<and>
      u ! 14 = CHR ''7'' \<and> u ! 19 \<in> set ''89ab'') \<and> view s' = view s"
proof (rule alone_sound [OF assms])
  have layout: "length (uuid_text (uuid7_value ms r)) = 36 \<and>
      map ((!) (uuid_text (uuid7_value ms r))) [8, 13, 18, 23] = ''----'' \<and>
      uuid_text (uuid7_value ms r) ! 14 = CHR ''7'' \<and> uuid_text (uuid7_value ms r) ! 19 \<in> set ''89ab''"
    if "0 \<le> ms" for ms r
  proof -
    let ?v = "uuid7_value ms r"
    have "?v div 16 ^ 19 = ms * 16 + 7" using uuid7_value_fields(2) [OF that, of r] by simp
    then have seven: "hex_digits 32 ?v ! 12 = CHR ''7''" by (simp add: hex_digits_nth hex_chars)
    define x where "x = ?v div 16 ^ 15"
    have "x div 4 = ?v div 2 ^ 62" by (simp add: x_def zdiv_zmult2_eq [symmetric])
    also have "\<dots> mod 4 = 2"
      unfolding uuid7_value_fields(3) [OF that]
      using mod_mult_self1 [of 2 "ms * 2 ^ 16 + 7 * 2 ^ 12 + take_bit 12 (drop_bit 62 r)" "4 :: int"]
      by (simp add: algebra_simps)
    finally have "x div 4 mod 4 = 2" .
    then have "x mod 16 = 8 + x mod 4"
      using zmod_zmult2_eq [of 4 x 4] by simp
    moreover have "x mod 4 = 0 \<or> x mod 4 = 1 \<or> x mod 4 = 2 \<or> x mod 4 = 3" by arith
    moreover have "hex_digits 32 ?v ! 16 = hex_char (x mod 16)" by (simp add: hex_digits_nth x_def)
    moreover have "x mod 16 = 8 \<or> x mod 16 = 9 \<or> x mod 16 = 10 \<or> x mod 16 = 11"
      using calculation(1,2) by auto
    ultimately have "hex_digits 32 ?v ! 16 \<in> set ''89ab''"
      by (auto simp: hex_chars)
    with seven show ?thesis by (simp add: uuid_text_def nth_dashed length_uuid_text [unfolded uuid_text_def])
  qed
  show "alone uuid7 (view s) (\<lambda>res d'. (\<exists>u. res = Inr u \<and> length u = 36 \<and>
      map ((!) u) [8, 13, 18, 23] = ''----'' \<and> u ! 14 = CHR ''7'' \<and> u ! 19 \<in> set ''89ab'') \<and> d' = view s)"
    using layout uuid7_ms_bounds by (simp add: uuid7_def del: set_simps)
qed

theorem uuid7_layout_witness:
  "case run scripted uuid7 (empty_db, []) of (res, s') \<Rightarrow>
    (\<exists>u. res = Inr u \<and> length u = 36 \<and> map ((!) u) [8, 13, 18, 23] = ''----'' \<and>
      u ! 14 = CHR ''7'' \<and> u ! 19 \<in> set ''89ab'') \<and> fst s' = empty_db"
  using uuid7_layout [OF scripted.exact_server_axioms, of "(empty_db, [])"] by simp

text \<open>
  Identifiers sort by their time: of two drawn in different milliseconds before the year
  10889, the text of the earlier is the smaller, whatever the random bytes.
\<close>

theorem uuid7_sorts_by_time:
  assumes "0 \<le> t" and "t div 1000 < t' div 1000" and "t' div 1000 < 2 ^ 48"
  shows "uuid_text (uuid7_value (uuid7_ms t) r) < uuid_text (uuid7_value (uuid7_ms t') r')"
proof -
  have "uuid7_ms t = t div 1000" "uuid7_ms t' = t' div 1000"
    using assms by (auto intro!: uuid7_ms_exact)
  with assms show ?thesis
    using uuid7_value_bounds [of "uuid7_ms t" r] uuid7_value_bounds [of "uuid7_ms t'" r']
    by (intro uuid_text_less uuid7_value_less) simp_all
qed

theorem uuid7_sorts_by_time_witness:
  "uuid_text (uuid7_value (uuid7_ms 1779786723441000) 5) < uuid_text (uuid7_value (uuid7_ms 1779786723442000) 3)"
  by (rule uuid7_sorts_by_time) simp_all

end
