(* ===== verification/Observability.thy ===== *)
theory Observability
  imports Uuid7
begin

text \<open>
  \<open>app/observability\<close>: the helpers that record metrics, the builders of log events, and the
  JSONL logger with its bounded queue, its writer and its daily files. The registry of
  \<open>prometheus_client\<close> is outside the model; what the code asks of it is a command.
\<close>

subsection \<open>The collectors\<close>

text \<open>
  The declarations of \<open>metrics.py\<close>. The registry is the list of them, in the order of the module.
  Buckets are in milliseconds.
\<close>

datatype collector =
    Counter string string "string list"
  | Gauge string string "string list"
  | Histogram string string "string list" "nat list"

fun collector_name :: "collector \<Rightarrow> string" where
  "collector_name (Counter n _ _) = n"
| "collector_name (Gauge n _ _) = n"
| "collector_name (Histogram n _ _ _) = n"

fun label_names :: "collector \<Rightarrow> string list" where
  "label_names (Counter _ _ ls) = ls"
| "label_names (Gauge _ _ ls) = ls"
| "label_names (Histogram _ _ ls _) = ls"

definition duration_buckets :: "nat list" where
  "duration_buckets = [100, 500, 1000, 2000, 5000, 10000, 30000, 60000, 120000, 300000, 600000]"

definition counters :: "collector list" where
  "counters =
    [Counter ''admission_requests_total'' ''Total admission requests by outcome.'' [''model'', ''result''],
     Counter ''failure_total'' ''Total failed jobs by error class.'' [''model'', ''error_class''],
     Counter ''timeout_total'' ''Total timed-out requests by stage (queue or sync).'' [''model'', ''stage''],
     Counter ''cancel_total'' ''Total cancelled jobs.'' [''model''],
     Counter ''worker_crash_total'' ''Total worker crash events detected by lease watcher.'' [''model''],
     Counter ''log_write_errors_total'' ''Total JSONL log write errors (disk full, permissions, etc.).'' [],
     Counter ''redis_errors_total'' ''Total Redis operation errors.'' [''operation'']]"

definition gauges :: "collector list" where
  "gauges =
    [Gauge ''queue_depth'' ''Current number of jobs waiting in the priority queue.'' [''model''],
     Gauge ''slots_in_use'' ''Current number of concurrency slots occupied.'' [''model''],
     Gauge ''slots_capacity'' ''Configured maximum concurrency slots.'' [''model''],
     Gauge ''dlq_depth'' ''Number of jobs in the dead-letter queue.'' [''model'']]"

definition histograms :: "collector list" where
  "histograms =
    [Histogram ''queue_wait_seconds'' ''Time spent waiting in queue before dispatch (seconds).'' [''model'']
       duration_buckets,
     Histogram ''request_duration_seconds''
       ''Total end-to-end request duration from admission to terminal state (seconds).'' [''model'']
       duration_buckets,
     Histogram ''backend_duration_seconds'' ''Time spent waiting for LiteLLM backend response (seconds).''
       [''model''] duration_buckets]"

definition collectors :: "collector list" where
  "collectors = counters @ gauges @ histograms"

text \<open>
  What \<open>labels(...)\<close> and the method called on its result ask: a collector of that kind is declared
  under the name, and the labels given are those declared, in any order.
\<close>

fun declared :: "metric \<Rightarrow> bool" where
  "declared (CounterInc n ls) =
     list_ex (\<lambda>c. collector_name c = n \<and> sort_key id (label_names c) = sort_key id (map fst ls)) counters"
| "declared (Observe n ls _) =
     list_ex (\<lambda>c. collector_name c = n \<and> sort_key id (label_names c) = sort_key id (map fst ls)) histograms"
| "declared (GaugeSet n ls _) =
     list_ex (\<lambda>c. collector_name c = n \<and> sort_key id (label_names c) = sort_key id (map fst ls)) gauges"

lemma declared_helpers [simp]:
  "declared (CounterInc ''admission_requests_total'' [(''model'', m), (''result'', r)])"
  "declared (CounterInc ''failure_total'' [(''model'', m), (''error_class'', r)])"
  "declared (CounterInc ''timeout_total'' [(''model'', m), (''stage'', r)])"
  "declared (CounterInc ''cancel_total'' [(''model'', m)])"
  "declared (CounterInc ''worker_crash_total'' [(''model'', m)])"
  "declared (CounterInc ''redis_errors_total'' [(''operation'', r)])"
  "declared (Observe ''queue_wait_seconds'' [(''model'', m)] n)"
  "declared (Observe ''request_duration_seconds'' [(''model'', m)] n)"
  "declared (Observe ''backend_duration_seconds'' [(''model'', m)] n)"
  "declared (GaugeSet ''slots_in_use'' [(''model'', m)] n)"
  "declared (GaugeSet ''slots_capacity'' [(''model'', m)] n)"
  "declared (GaugeSet ''queue_depth'' [(''model'', m)] n)"
  "declared (GaugeSet ''dlq_depth'' [(''model'', m)] n)"
  by (simp_all add: counters_def gauges_def histograms_def)

declare declared.simps [simp del]

subsection \<open>Metrics\<close>

definition record_admission :: "string \<Rightarrow> string \<Rightarrow> unit io" where
  "record_admission model result = metric (CounterInc ''admission_requests_total'' [(''model'', model), (''result'', result)])"

definition record_completion :: "string \<Rightarrow> int \<Rightarrow> int \<Rightarrow> int \<Rightarrow> unit io" where
  "record_completion model wait_s runtime_s backend_s =
     andThen (metric (Observe ''queue_wait_seconds'' [(''model'', model)] wait_s)) (\<lambda>_.
     andThen (metric (Observe ''request_duration_seconds'' [(''model'', model)] (wait_s + runtime_s))) (\<lambda>_.
     metric (Observe ''backend_duration_seconds'' [(''model'', model)] backend_s)))"

definition record_failure :: "string \<Rightarrow> string \<Rightarrow> unit io" where
  "record_failure model error_class = metric (CounterInc ''failure_total'' [(''model'', model), (''error_class'', error_class)])"

definition record_timeout :: "string \<Rightarrow> string \<Rightarrow> unit io" where
  "record_timeout model stage = metric (CounterInc ''timeout_total'' [(''model'', model), (''stage'', stage)])"

definition record_cancel :: "string \<Rightarrow> unit io" where
  "record_cancel model = metric (CounterInc ''cancel_total'' [(''model'', model)])"

definition record_worker_crash :: "string \<Rightarrow> unit io" where
  "record_worker_crash model = metric (CounterInc ''worker_crash_total'' [(''model'', model)])"

definition record_redis_error :: "string \<Rightarrow> unit io" where
  "record_redis_error operation = metric (CounterInc ''redis_errors_total'' [(''operation'', operation)])"

definition update_slot_gauges :: "string \<Rightarrow> int \<Rightarrow> int \<Rightarrow> unit io" where
  "update_slot_gauges model in_use capacity =
     andThen (metric (GaugeSet ''slots_in_use'' [(''model'', model)] in_use)) (\<lambda>_.
     metric (GaugeSet ''slots_capacity'' [(''model'', model)] capacity))"

definition update_queue_depth :: "string \<Rightarrow> int \<Rightarrow> unit io" where
  "update_queue_depth model depth = metric (GaugeSet ''queue_depth'' [(''model'', model)] depth)"

definition update_dlq_depth :: "string \<Rightarrow> int \<Rightarrow> unit io" where
  "update_dlq_depth model depth = metric (GaugeSet ''dlq_depth'' [(''model'', model)] depth)"

lemmas metrics_defs = record_admission_def record_completion_def record_failure_def
  record_timeout_def record_cancel_def record_worker_crash_def record_redis_error_def
  update_slot_gauges_def update_queue_depth_def update_dlq_depth_def

lemma alone_metrics [simp]:
  "alone (record_admission m r) d R = R (Inr ()) d"
  "alone (record_completion m a b c) d R = R (Inr ()) d"
  "alone (record_failure m e) d R = R (Inr ()) d"
  "alone (record_timeout m e) d R = R (Inr ()) d"
  "alone (record_cancel m) d R = R (Inr ()) d"
  "alone (record_worker_crash m) d R = R (Inr ()) d"
  "alone (record_redis_error m) d R = R (Inr ()) d"
  "alone (update_slot_gauges m a b) d R = R (Inr ()) d"
  "alone (update_queue_depth m a) d R = R (Inr ()) d"
  "alone (update_dlq_depth m a) d R = R (Inr ()) d"
  by (simp_all add: metrics_defs)

subsection \<open>Events\<close>

definition metadata_or_empty :: "json \<Rightarrow> json" where
  "metadata_or_empty m = (if m = JNull then JObj [] else m)"

definition build_base_event ::
  "string \<Rightarrow> string \<Rightarrow> string \<Rightarrow> string \<Rightarrow> string \<Rightarrow> json \<Rightarrow> json \<Rightarrow> (string \<times> json) list io" where
  "build_base_event event job_id request_id model caller caller_metadata prio =
     andThen iso_now (\<lambda>ts. return
       [(''ts'', JStr ts), (''request_id'', JStr request_id), (''job_id'', JStr job_id),
        (''model'', JStr model), (''event'', JStr event), (''caller'', JStr caller),
        (''caller_metadata'', metadata_or_empty caller_metadata), (''priority'', prio)])"

definition opt_str :: "string option \<Rightarrow> json" where
  "opt_str v = (case v of None \<Rightarrow> JNull | Some s \<Rightarrow> JStr s)"

definition build_dispatched_event ::
  "string \<Rightarrow> string \<Rightarrow> string \<Rightarrow> string \<Rightarrow> json \<Rightarrow> json \<Rightarrow> int \<Rightarrow> string option \<Rightarrow> json \<Rightarrow> json io" where
  "build_dispatched_event job_id request_id model caller caller_metadata prio wait_ms
       backend_target kv_pressure_hint =
     andThen (build_base_event ''dispatched'' job_id request_id model caller caller_metadata prio)
       (\<lambda>base. return (JObj (base @
          [(''wait_ms'', JNum wait_ms), (''backend_target'', opt_str backend_target),
           (''kv_pressure_hint'', kv_pressure_hint)])))"

definition build_completed_event ::
  "string \<Rightarrow> string \<Rightarrow> string \<Rightarrow> string \<Rightarrow> json \<Rightarrow> json \<Rightarrow> int \<Rightarrow> int \<Rightarrow> json \<Rightarrow> json \<Rightarrow>
   string option \<Rightarrow> json io" where
  "build_completed_event job_id request_id model caller caller_metadata prio wait_ms runtime_ms
       tokens_prompt tokens_completion backend_target =
     andThen (build_base_event ''completed'' job_id request_id model caller caller_metadata prio)
       (\<lambda>base. return (JObj (base @
          [(''wait_ms'', JNum wait_ms), (''runtime_ms'', JNum runtime_ms),
           (''tokens_prompt'', tokens_prompt), (''tokens_completion'', tokens_completion),
           (''backend_target'', opt_str backend_target)])))"

subsection \<open>The JSONL logger\<close>

text \<open>
  The state of \<open>JSONLLogger\<close>: the bounded queue (None is the sentinel of \<open>stop\<close>),
  the open handle with its date, the files of the log directory as the events on their lines, and
  the counter of lost events. Dates are their ISO text. What the disk does to one event is
  an argument: whether opening, writing and flushing succeed.
\<close>

record logger =
  lg_queue :: "json option list"
  lg_maxsize :: nat
  lg_date :: "string option"
  lg_fh :: "string option"
  lg_files :: "string \<Rightarrow> json list"
  lg_write_errors :: nat

definition new_logger :: "nat \<Rightarrow> (string \<Rightarrow> json list) \<Rightarrow> logger" where
  "new_logger queue_size files = \<lparr>lg_queue = [], lg_maxsize = queue_size, lg_date = None,
     lg_fh = None, lg_files = files, lg_write_errors = 0\<rparr>"

record disk =
  open_ok :: bool
  write_ok :: bool
  flush_ok :: bool

definition queue_full :: "logger \<Rightarrow> bool" where
  "queue_full l \<longleftrightarrow> 0 < lg_maxsize l \<and> lg_maxsize l \<le> length (lg_queue l)"

definition log_emit :: "json \<Rightarrow> logger \<Rightarrow> logger" where
  "log_emit event_dict l =
     (if queue_full l then l\<lparr>lg_write_errors := lg_write_errors l + 1\<rparr>
      else l\<lparr>lg_queue := lg_queue l @ [Some event_dict]\<rparr>)"

definition log_path :: "string \<Rightarrow> string" where
  "log_path today = ''events-'' @ today @ ''.jsonl''"

text \<open>None when \<open>open\<close> raises \<open>OSError\<close>; the date has been advanced by then.\<close>

definition ensure_file_open :: "string \<Rightarrow> disk \<Rightarrow> logger \<Rightarrow> bool \<times> logger" where
  "ensure_file_open today dk l =
     (if lg_fh l \<noteq> None \<and> lg_date l = Some today then (True, l)
      else let l = l\<lparr>lg_date := Some today\<rparr> in
           if open_ok dk then (True, l\<lparr>lg_fh := Some (log_path today)\<rparr>) else (False, l))"

definition append_line :: "json \<Rightarrow> logger \<Rightarrow> logger" where
  "append_line ev l = (case lg_fh l of None \<Rightarrow> l
     | Some p \<Rightarrow> l\<lparr>lg_files := (lg_files l)(p := lg_files l p @ [ev])\<rparr>)"

definition write_event :: "string \<Rightarrow> disk \<Rightarrow> json \<Rightarrow> logger \<Rightarrow> logger" where
  "write_event today dk event l =
     (let (opened, l) = ensure_file_open today dk l;
          failed = (\<lambda>l. l\<lparr>lg_write_errors := lg_write_errors l + 1, lg_fh := None\<rparr>)
      in if \<not> opened then failed l
         else if \<not> write_ok dk then failed l
         else if \<not> flush_ok dk then failed (append_line event l)
         else append_line event l)"

text \<open>The writer drains the queue until it takes the sentinel.\<close>

fun writer :: "(string \<times> disk) list \<Rightarrow> logger \<Rightarrow> logger" where
  "writer [] l = l"
| "writer ((today, dk) # rest) l =
     (case lg_queue l of
        [] \<Rightarrow> l
      | None # q \<Rightarrow> l\<lparr>lg_queue := q\<rparr>
      | Some event # q \<Rightarrow> writer rest (write_event today dk event (l\<lparr>lg_queue := q\<rparr>)))"

definition log_stop :: "(string \<times> disk) list \<Rightarrow> logger \<Rightarrow> logger" where
  "log_stop sched l =
     (let l = writer sched (l\<lparr>lg_queue := lg_queue l @ [None]\<rparr>) in l\<lparr>lg_fh := None\<rparr>)"

subsection \<open>What the logger guarantees\<close>

definition healthy :: "disk \<Rightarrow> bool" where
  "healthy dk \<longleftrightarrow> open_ok dk \<and> write_ok dk \<and> flush_ok dk"

text \<open>The handle, when open, is the file of the current date.\<close>

definition handle_inv :: "logger \<Rightarrow> bool" where
  "handle_inv l \<longleftrightarrow> (\<forall>p. lg_fh l = Some p \<longrightarrow> (\<exists>t. lg_date l = Some t \<and> p = log_path t))"

lemma log_path_inj [simp]: "log_path a = log_path b \<longleftrightarrow> a = b"
  by (simp add: log_path_def)

lemma log_emit_bounded:
  "0 < lg_maxsize l \<Longrightarrow> length (lg_queue l) \<le> lg_maxsize l \<Longrightarrow>
     length (lg_queue (log_emit ev l)) \<le> lg_maxsize (log_emit ev l)"
  by (auto simp: log_emit_def queue_full_def)

lemma log_emit_accounts:
  "length (lg_queue (log_emit ev l)) + lg_write_errors (log_emit ev l) =
     Suc (length (lg_queue l) + lg_write_errors l)"
  by (simp add: log_emit_def)

lemma write_event_healthy:
  assumes "handle_inv l" and "healthy dk"
  shows "lg_files (write_event t dk ev l) = (lg_files l)(log_path t := lg_files l (log_path t) @ [ev])"
    and "handle_inv (write_event t dk ev l)"
    and "lg_write_errors (write_event t dk ev l) = lg_write_errors l"
    and "lg_queue (write_event t dk ev l) = lg_queue l"
  using assms
  by (auto simp: write_event_def ensure_file_open_def append_line_def healthy_def handle_inv_def Let_def
      split: option.splits)

text \<open>Every event is either on a line of a file or counted as lost.\<close>

lemma write_event_queue [simp]:
  "lg_queue (write_event t dk ev l) = lg_queue l"
  "lg_maxsize (write_event t dk ev l) = lg_maxsize l"
  by (auto simp: write_event_def ensure_file_open_def append_line_def Let_def split: option.splits)

text \<open>
  The logger never blocks and never loses count: after any number of events the queue holds
  at most its size, and every event is in the queue or counted as a write error.
\<close>

theorem log_emit_bounded_and_counted:
  assumes "0 < n"
  shows "length (lg_queue (fold log_emit evs (new_logger n files))) \<le> n \<and>
    length (lg_queue (fold log_emit evs (new_logger n files))) +
    lg_write_errors (fold log_emit evs (new_logger n files)) = length evs"
proof -
  have "lg_maxsize (log_emit e l) = lg_maxsize l" for e l by (simp add: log_emit_def)
  then have "0 < lg_maxsize l \<Longrightarrow> length (lg_queue l) \<le> lg_maxsize l \<Longrightarrow>
      length (lg_queue (fold log_emit evs l)) \<le> lg_maxsize l \<and>
      length (lg_queue (fold log_emit evs l)) + lg_write_errors (fold log_emit evs l) =
        length evs + (length (lg_queue l) + lg_write_errors l)" for l
  proof (induction evs arbitrary: l)
    case Nil
    then show ?case by simp
  next
    case (Cons e evs)
    have "length (lg_queue (log_emit e l)) \<le> lg_maxsize (log_emit e l)"
      by (rule log_emit_bounded) (use Cons.prems in simp_all)
    then show ?case
      using Cons.IH [of "log_emit e l"] Cons.prems log_emit_accounts [of e l] by simp
  qed
  from this [of "new_logger n files"] assms show ?thesis by (simp add: new_logger_def)
qed

theorem log_emit_bounded_and_counted_witness:
  "length (lg_queue (fold log_emit [JNum 1, JNum 2, JNum 3] (new_logger 2 (\<lambda>_. [])))) \<le> 2 \<and>
   length (lg_queue (fold log_emit [JNum 1, JNum 2, JNum 3] (new_logger 2 (\<lambda>_. [])))) +
   lg_write_errors (fold log_emit [JNum 1, JNum 2, JNum 3] (new_logger 2 (\<lambda>_. []))) = length [JNum 1, JNum 2, JNum 3]"
  by (rule log_emit_bounded_and_counted) simp

lemma writer_healthy:
  assumes "handle_inv l" and "\<forall>(t, dk) \<in> set sched. healthy dk"
    and "lg_queue l = map Some evs @ [None]" and "length evs < length sched"
  shows "lg_files (writer sched l) (log_path t) =
      lg_files l (log_path t) @ map snd (filter (\<lambda>(d, _). d = t) (zip (map fst sched) evs)) \<and>
    lg_write_errors (writer sched l) = lg_write_errors l"
  using assms
proof (induction evs arbitrary: sched l)
  case Nil
  then obtain x sched' where "sched = x # sched'" by (cases sched) auto
  with Nil show ?case by (cases x) simp
next
  case (Cons e evs)
  then obtain d dk sched' where s: "sched = (d, dk) # sched'" by (cases sched) auto
  let ?l = "write_event d dk e (l\<lparr>lg_queue := map Some evs @ [None]\<rparr>)"
  have inv: "handle_inv (l\<lparr>lg_queue := map Some evs @ [None]\<rparr>)"
    using Cons.prems(1) by (simp add: handle_inv_def)
  have "healthy dk" using Cons.prems(2) s by simp
  note w = write_event_healthy [OF inv this, of d e]
  have "lg_files (writer sched' ?l) (log_path t) =
      lg_files ?l (log_path t) @ map snd (filter (\<lambda>(d, _). d = t) (zip (map fst sched') evs)) \<and>
    lg_write_errors (writer sched' ?l) = lg_write_errors ?l"
    by (rule Cons.IH) (use Cons.prems s w in auto)
  then show ?case using Cons.prems(3) s w by simp
qed

text \<open>
  C34. On a healthy disk \<open>stop\<close> loses nothing: every event in the queue is appended, in
  order, to the file of the day on which it is written, also across midnight, and none is
  counted as an error.
\<close>

theorem stop_flushes_in_order:
  assumes "\<forall>(t, dk) \<in> set sched. healthy dk" and "length evs < length sched" and "length evs \<le> n" and "0 < n"
  shows "lg_files (log_stop sched (fold log_emit evs (new_logger n files))) (log_path t) =
      files (log_path t) @ map snd (filter (\<lambda>(d, _). d = t) (zip (map fst sched) evs)) \<and>
    lg_write_errors (log_stop sched (fold log_emit evs (new_logger n files))) = 0"
proof -
  have emits: "length (lg_queue l) + length evs \<le> lg_maxsize l \<Longrightarrow>
      fold log_emit evs l = l\<lparr>lg_queue := lg_queue l @ map Some evs\<rparr>" for l
    by (induction evs arbitrary: l) (auto simp: log_emit_def queue_full_def)
  let ?l = "(new_logger n files)\<lparr>lg_queue := map Some evs @ [None]\<rparr>"
  have "fold log_emit evs (new_logger n files) = (new_logger n files)\<lparr>lg_queue := map Some evs\<rparr>"
    using emits [of "new_logger n files"] assms(3) by (simp add: new_logger_def)
  then show ?thesis
    using writer_healthy [of ?l sched evs t] assms(1,2)
    by (simp add: log_stop_def Let_def handle_inv_def new_logger_def)
qed

theorem stop_flushes_in_order_witness:
  "lg_files (log_stop [(''d1'', \<lparr>open_ok = True, write_ok = True, flush_ok = True\<rparr>),
       (''d2'', \<lparr>open_ok = True, write_ok = True, flush_ok = True\<rparr>),
       (''d2'', \<lparr>open_ok = True, write_ok = True, flush_ok = True\<rparr>)]
     (fold log_emit [JNum 1, JNum 2] (new_logger 9 (\<lambda>_. [])))) (log_path ''d2'') = [JNum 2]"
  using stop_flushes_in_order [of "[(''d1'', \<lparr>open_ok = True, write_ok = True, flush_ok = True\<rparr>),
       (''d2'', \<lparr>open_ok = True, write_ok = True, flush_ok = True\<rparr>),
       (''d2'', \<lparr>open_ok = True, write_ok = True, flush_ok = True\<rparr>)]" "[JNum 1, JNum 2]" 9 "\<lambda>_. []" "''d2''"]
  by (simp add: healthy_def)

end
