(* ===== verification/Admission.thy ===== *)
theory Admission
  imports Observability
begin

text \<open>
  \<open>app/core/admission.py\<close>: the admission controller. \<open>admit\<close> is the method
  \<open>AdmissionController.admit\<close>; \<open>ctx\<close> holds what the controller was constructed with and
  the functions of libraries the program calls.
\<close>

record ctx =
  config :: app_config
  lua :: lua_scripts
  sha256 :: "string \<Rightarrow> string"
  loads :: "string \<Rightarrow> json option" \<comment> \<open>json.loads of text that json.dumps did not write\<close>
  status_message :: "int \<Rightarrow> string \<Rightarrow> string" \<comment> \<open>text of httpx for a status and a URL\<close>

definition lift :: "exn + 'a \<Rightarrow> 'a io" where
  "lift x = Ret x"

lemma alone_lift [simp]: "alone (lift x) d Q = Q x d"
  by (simp add: lift_def)

lemma wp_lift [simp]: "wp ok G (lift x) Q = Q x"
  by (simp add: lift_def)

definition PRIORITY_MULTIPLIER :: int where
  "PRIORITY_MULTIPLIER = 1000000000000"

subsection \<open>The score\<close>

text \<open>
  The priority reaches \<open>admit\<close> unvalidated when it comes from the metadata of a chat
  completion, so it is any JSON value. Multiplying it by 10^12 and adding a number raises
  unless it is a number or a Boolean: a text or list repeated 10^12 times exhausts memory, an
  empty one cannot be added to a number, an object cannot be multiplied.
\<close>

fun priority_number :: "json \<Rightarrow> exn + int" where
  "priority_number (JNum n) = Inr n"
| "priority_number (JBool b) = Inr (if b then 1 else 0)"
| "priority_number (JStr s) = Inl (if s = [] then TypeError ''can only concatenate str'' else MemoryError)"
| "priority_number (JList l) = Inl (if l = [] then TypeError ''can only concatenate list'' else MemoryError)"
| "priority_number (JObj _) = Inl (TypeError ''unsupported operand type(s) for *'')"
| "priority_number JNull = Inl (TypeError ''unsupported operand type(s) for *'')"

definition job_score :: "json \<Rightarrow> int \<Rightarrow> int \<Rightarrow> exn + int" where
  "job_score effective_priority enqueue_ns seq =
     (case priority_number effective_priority of
        Inl e \<Rightarrow> Inl e
      | Inr p \<Rightarrow>
          (case float_of_int (p * PRIORITY_MULTIPLIER + enqueue_ns + seq mod 1000) of
             None \<Rightarrow> Inl (OverflowError ''int too large to convert to float'')
           | Some x \<Rightarrow> Inr x))"

text \<open>\<open>str(effective_priority)\<close> for the values that have a score.\<close>

fun priority_text :: "json \<Rightarrow> string" where
  "priority_text (JNum n) = show_int n"
| "priority_text (JBool b) = (if b then ''True'' else ''False'')"
| "priority_text _ = []"

definition estimate_drain :: "int \<Rightarrow> int \<Rightarrow> int" where
  "estimate_drain queue_depth mc =
     (if mc < 1 then 60
      else let avg_job_s = 10 in max 5 ((queue_depth div (max 1 mc)) * avg_job_s))"

subsection \<open>The controller\<close>

definition effective_priority :: "json \<Rightarrow> model_config \<Rightarrow> json" where
  "effective_priority prio mc = (if prio \<noteq> JNull then prio else JNum (priority mc))"

definition key_given :: "string option \<Rightarrow> string option" where
  "key_given k = (case k of Some (c # cs) \<Rightarrow> Some (c # cs) | _ \<Rightarrow> None)"

text \<open>Step 1: the job id recorded under the idempotency key, if any.\<close>

definition idempotency_check :: "ctx \<Rightarrow> string option \<Rightarrow> string option io" where
  "idempotency_check cx idempotency_key =
     (case key_given idempotency_key of
        None \<Rightarrow> return None
      | Some k \<Rightarrow> andThen (redis (GET (idem_key (sha256 cx k)))) (\<lambda>r. return (reply_text r)))"

definition admission_fields :: "string \<Rightarrow> json \<Rightarrow> string \<Rightarrow> string \<Rightarrow> string \<Rightarrow> (string \<times> string) list" where
  "admission_fields model prio enqueue_ts caller request_id =
     [(''model'', model), (''status'', status_value QUEUED), (''priority'', priority_text prio),
      (''enqueue_ts'', enqueue_ts), (''caller'', caller), (''request_id'', request_id)]"

definition reject_job ::
  "ctx \<Rightarrow> model_config \<Rightarrow> string \<Rightarrow> string \<Rightarrow> string \<Rightarrow> string \<Rightarrow> json \<Rightarrow> json \<Rightarrow> admission_outcome io" where
  "reject_job cx mc model job_id request_id caller caller_metadata prio =
     andThen (redis (ZCARD (queue_key model))) (\<lambda>depth.
     let drain = estimate_drain (reply_int depth) (max_concurrency mc) in
     andThen (record_admission model (admission_value AR_REJECTED)) (\<lambda>_.
     andThen (build_base_event ''rejected'' job_id request_id model caller caller_metadata prio) (\<lambda>base.
     andThen (emit (JObj (base @ [(''queue_depth'', JNum (reply_int depth)),
                                  (''capacity'', JNum (max_queue_depth mc))]))) (\<lambda>_.
     return \<lparr>ao_result = AR_REJECTED, ao_job_id = job_id, ao_status = REJECTED,
             ao_position_in_queue = None, ao_existing_job_id = None,
             ao_estimated_drain_s = Some drain\<rparr>))))"

definition record_idempotency :: "ctx \<Rightarrow> string option \<Rightarrow> string \<Rightarrow> unit io" where
  "record_idempotency cx idempotency_key job_id =
     (case key_given idempotency_key of
        None \<Rightarrow> return ()
      | Some k \<Rightarrow>
          andThen (redis (SET (idem_key (sha256 cx k)) (Str job_id) (Some 86400) True)) (\<lambda>_. return ()))"

definition accept_job ::
  "ctx \<Rightarrow> string \<Rightarrow> string \<Rightarrow> string \<Rightarrow> string \<Rightarrow> json \<Rightarrow> json \<Rightarrow> string option \<Rightarrow> admission_outcome io" where
  "accept_job cx model job_id request_id caller caller_metadata prio idempotency_key =
     andThen (record_idempotency cx idempotency_key job_id) (\<lambda>_.
     andThen (redis (ZRANK (queue_key model) job_id)) (\<lambda>queue_pos.
     andThen (record_admission model (admission_value AR_QUEUED)) (\<lambda>_.
     andThen (redis (ZCARD (queue_key model))) (\<lambda>depth.
     andThen (build_base_event ''queued'' job_id request_id model caller caller_metadata prio) (\<lambda>base.
     andThen (emit (JObj (base @ [(''queue_depth_at_admission'', JNum (reply_int depth))]))) (\<lambda>_.
     return \<lparr>ao_result = AR_QUEUED, ao_job_id = job_id, ao_status = QUEUED,
             ao_position_in_queue = Some (if queue_pos = RNil then 0 else reply_int queue_pos),
             ao_existing_job_id = None, ao_estimated_drain_s = None\<rparr>))))))"

text \<open>Step 2: score the job and enqueue it, or reject it when the queue is full.\<close>

definition enqueue_new ::
  "ctx \<Rightarrow> model_config \<Rightarrow> string \<Rightarrow> json \<Rightarrow> json \<Rightarrow> string \<Rightarrow> json \<Rightarrow> string option \<Rightarrow> string \<Rightarrow>
   (admission_outcome \<times> job_request option) io" where
  "enqueue_new cx mc model payload prio caller caller_metadata idempotency_key request_id =
     andThen uuid7 (\<lambda>job_id.
     andThen (read_env Now) (\<lambda>created.
     let job_req = \<lparr>jr_job_id = job_id, jr_request_id = request_id, jr_model = model,
           jr_payload = payload, jr_priority = prio, jr_caller = caller,
           jr_caller_metadata = metadata_or_empty caller_metadata,
           jr_idempotency_key = idempotency_key, jr_enqueue_ts = created\<rparr> in
     andThen (redis (INCR (seq_key model))) (\<lambda>seq.
     andThen (read_env TimeNs) (\<lambda>now_ns.
     let enqueue_ns = now_ns mod PRIORITY_MULTIPLIER in
     andThen (lift (job_score prio enqueue_ns (reply_int seq))) (\<lambda>score.
     andThen iso_now (\<lambda>enqueue_ts.
     andThen (evalsha_enqueue_job (lua cx) (queue_key model) (job_key job_id) job_id score
         (max_queue_depth mc) (flat_fields (admission_fields model prio enqueue_ts caller request_id)))
       (\<lambda>queued.
     if queued = 0 then
       andThen (reject_job cx mc model job_id request_id caller caller_metadata prio) (\<lambda>outcome.
       return (outcome, Some job_req))
     else
       andThen (accept_job cx model job_id request_id caller caller_metadata prio idempotency_key)
         (\<lambda>outcome. return (outcome, Some job_req)))))))))"

definition admit ::
  "ctx \<Rightarrow> string \<Rightarrow> json \<Rightarrow> json \<Rightarrow> string \<Rightarrow> json \<Rightarrow> string option \<Rightarrow>
   (admission_outcome \<times> job_request option) io" where
  "admit cx model payload prio caller caller_metadata idempotency_key =
     andThen (lift (model_config_for (config cx) model)) (\<lambda>mc.
     andThen uuid7 (\<lambda>request_id.
     andThen (idempotency_check cx idempotency_key) (\<lambda>hit.
     case hit of
       Some jid \<Rightarrow>
         andThen (record_admission model (admission_value AR_IDEMPOTENT_HIT)) (\<lambda>_.
         return (\<lparr>ao_result = AR_IDEMPOTENT_HIT, ao_job_id = jid, ao_status = QUEUED,
                  ao_position_in_queue = None, ao_existing_job_id = Some jid,
                  ao_estimated_drain_s = None\<rparr>, None))
     | None \<Rightarrow>
         enqueue_new cx mc model payload (effective_priority prio mc) caller caller_metadata
           idempotency_key request_id)))"

lemmas admit_defs = admit_def enqueue_new_def accept_job_def reject_job_def record_idempotency_def
  idempotency_check_def

subsection \<open>Facts the properties share\<close>

lemma clean_uuid_text [simp]: "clean (uuid_text v)"
proof -
  have hex: "CHR 0x00 \<notin> set (hex_digits n w)" for n w
  proof (induction n arbitrary: w)
    case (Suc n)
    have "0 < (of_char (hex_char (w mod 16)) :: nat)" by (simp add: of_char_hex)
    then have "hex_char (w mod 16) \<noteq> CHR 0x00" by (intro notI) simp
    with Suc show ?case by simp
  qed simp
  then have "CHR 0x00 \<notin> set (uuid_text v)"
    by (auto simp: uuid_text_def dashed_def dest!: in_set_takeD in_set_dropD)
  moreover have "uuid_text v \<noteq> []" using length_uuid_text [of v] by auto
  ultimately show ?thesis by (simp add: clean_def)
qed

lemma alone_uuid7:
  "(\<And>u. clean u \<Longrightarrow> length u = 36 \<Longrightarrow> Q (Inr u) d) \<Longrightarrow> alone uuid7 d Q"
  by (simp add: uuid7_def length_uuid_text)

lemma alone_build_base_event [simp]:
  "alone (build_base_event e j r m c cm p) d Q = (\<forall>t. clean t \<longrightarrow> Q (Inr
     [(''ts'', JStr t), (''request_id'', JStr r), (''job_id'', JStr j), (''model'', JStr m),
      (''event'', JStr e), (''caller'', JStr c), (''caller_metadata'', metadata_or_empty cm),
      (''priority'', p)]) d)"
  by (simp add: build_base_event_def)

definition enqueued :: "string \<Rightarrow> string \<Rightarrow> int \<Rightarrow> (string \<times> string) list \<Rightarrow> db \<Rightarrow> db" where
  "enqueued model job_id score ps d =
     d\<lparr>zs := (zs d)(queue_key model := zadd_list score job_id (zs d (queue_key model))),
       hs := (hs d)(job_key job_id := put_fields (map (\<lambda>(f, v). (f, Str v)) ps) (hs d (job_key job_id)))\<rparr>"

lemma alone_enqueue:
  assumes "lua_loaded l" and "ps \<noteq> []" and "\<forall>s \<in> set (flat_fields ps). clean s"
  shows "alone (evalsha_enqueue_job l (queue_key model) (job_key jid) jid sc mx (flat_fields ps)) d Q =
    (if mx \<le> int (length (zs d (queue_key model))) then Q (Inr 0) d
     else Q (Inr 1) (enqueued model jid sc ps d))"
  using assms
  by (auto simp: evalsha_enqueue_job_def require_sha_def lua_loaded_def enqueue_job_run enqueued_def)

lemma job_score_exact:
  assumes "priority_number prio = Inr p" and "\<bar>p\<bar> \<le> 9000" and "0 \<le> ns" and "ns < PRIORITY_MULTIPLIER"
  shows "job_score prio ns q = Inr (p * PRIORITY_MULTIPLIER + ns + q mod 1000)"
proof -
  define m where "m = q mod 1000"
  have "0 \<le> m" "m < 1000" by (simp_all add: m_def)
  with assms(2-4) have "\<bar>p * PRIORITY_MULTIPLIER + ns + m\<bar> < 9007199254740992"
    unfolding PRIORITY_MULTIPLIER_def by linarith
  then have "\<bar>p * PRIORITY_MULTIPLIER + ns + q mod 1000\<bar> < 2 ^ 53" by (simp add: m_def)
  with assms(1) show ?thesis by (simp add: job_score_def float_of_int_exact)
qed

text \<open>A request the controller can score and enqueue, in a database where its key is unused.\<close>

definition admit_ready ::
  "ctx \<Rightarrow> db \<Rightarrow> string \<Rightarrow> json \<Rightarrow> string \<Rightarrow> string option \<Rightarrow> model_config \<Rightarrow> int \<Rightarrow> int \<Rightarrow> bool" where
  "admit_ready cx d model prio caller key mc p q \<longleftrightarrow>
     lua_loaded (lua cx) \<and> model_config_for (config cx) model = Inr mc \<and> clean model \<and> clean caller \<and>
     priority_number (effective_priority prio mc) = Inr p \<and> \<bar>p\<bar> \<le> 9000 \<and>
     counter d (seq_key model) = Some q \<and> in_int64 (q + 1) \<and>
     (\<forall>k. key_given key = Some k \<longrightarrow> \<not> key_exists d (idem_key (sha256 cx k)))"

definition with_seq :: "string \<Rightarrow> int \<Rightarrow> db \<Rightarrow> db" where
  "with_seq model q d = d\<lparr>kv := (kv d)(seq_key model \<mapsto> Str (show_int q))\<rparr>"

lemma with_seq_simps [simp]:
  "zs (with_seq m q d) = zs d" "hs (with_seq m q d) = hs d" "ss (with_seq m q d) = ss d"
  "ttls (with_seq m q d) = ttls d" "subs (with_seq m q d) = subs d" "pubs (with_seq m q d) = pubs d"
  "kv (with_seq m q d) = (kv d)(seq_key m \<mapsto> Str (show_int q))"
  by (simp_all add: with_seq_def)

lemma clean_priority_text: "priority_number p = Inr n \<Longrightarrow> clean (priority_text p)"
  by (cases p) (auto simp: clean_def split: if_splits, simp add: clean_show_int [unfolded clean_def])

lemma admission_fields_clean:
  "clean model \<Longrightarrow> clean t \<Longrightarrow> clean caller \<Longrightarrow> clean rid \<Longrightarrow> priority_number prio = Inr p \<Longrightarrow>
     \<forall>s \<in> set (flat_fields (admission_fields model prio t caller rid)). clean s"
  by (auto simp: admission_fields_def clean_priority_text) (simp_all add: clean_def)

text \<open>The part both outcomes share: the sequence number is drawn, then the script decides.\<close>

lemma alone_enqueue_new:
  assumes "admit_ready cx d model prio caller key mc p q" and "clean rid"
    and full: "\<And>jid created.
      \<lbrakk>max_queue_depth mc \<le> int (length (zs d (queue_key model))); clean jid; length jid = 36\<rbrakk> \<Longrightarrow>
      alone (reject_job cx mc model jid rid caller meta (effective_priority prio mc))
        (with_seq model (q + 1) d)
        (\<lambda>x d'. case x of Inl e \<Rightarrow> Q (Inl e) d'
          | Inr out \<Rightarrow> alone (return (out, Some (J jid created))) d' Q)"
    and room: "\<And>jid ns t created.
      \<lbrakk>int (length (zs d (queue_key model))) < max_queue_depth mc; clean jid; length jid = 36;
       0 \<le> ns; ns < PRIORITY_MULTIPLIER; clean t\<rbrakk> \<Longrightarrow>
      alone (accept_job cx model jid rid caller meta (effective_priority prio mc) key)
        (enqueued model jid (p * PRIORITY_MULTIPLIER + ns + (q + 1) mod 1000)
          (admission_fields model (effective_priority prio mc) t caller rid) (with_seq model (q + 1) d))
        (\<lambda>x d'. case x of Inl e \<Rightarrow> Q (Inl e) d'
          | Inr out \<Rightarrow> alone (return (out, Some (J jid created))) d' Q)"
    and J: "\<And>jid created. J jid created =
      \<lparr>jr_job_id = jid, jr_request_id = rid, jr_model = model, jr_payload = payload,
       jr_priority = effective_priority prio mc, jr_caller = caller,
       jr_caller_metadata = metadata_or_empty meta, jr_idempotency_key = key,
       jr_enqueue_ts = created\<rparr>"
  shows "alone (enqueue_new cx mc model payload (effective_priority prio mc) caller meta key rid) d Q"
proof -
  have seq: "redis_call (INCR (seq_key model)) d = (RInt (q + 1), with_seq model (q + 1) d)"
    using assms(1) by (simp add: admit_ready_def counter_def with_seq_def)
  have score: "job_score (effective_priority prio mc) (n mod PRIORITY_MULTIPLIER) (q + 1) =
      Inr (p * PRIORITY_MULTIPLIER + n mod PRIORITY_MULTIPLIER + (q + 1) mod 1000)" for n
    using assms(1) by (intro job_score_exact) (simp_all add: admit_ready_def PRIORITY_MULTIPLIER_def)
  have ns: "0 \<le> n mod PRIORITY_MULTIPLIER" "n mod PRIORITY_MULTIPLIER < PRIORITY_MULTIPLIER" for n
    by (simp_all add: PRIORITY_MULTIPLIER_def)
  have fields: "\<forall>s \<in> set (flat_fields (admission_fields model (effective_priority prio mc) t caller rid)). clean s"
    if "clean t" for t
    using assms(1,2) that by (intro admission_fields_clean) (auto simp: admit_ready_def)
  have lua: "lua_loaded (lua cx)" using assms(1) by (simp add: admit_ready_def)
  have ne: "admission_fields a b c e f \<noteq> []" for a b c e f by (simp add: admission_fields_def)
  show ?thesis
    unfolding enqueue_new_def
    by (simp add: Let_def, rule alone_uuid7)
      (auto simp: seq score Let_def alone_enqueue [OF lua ne fields] J [symmetric] simp del: redis_call.simps intro!: full room ns)
qed

subsection \<open>What admission guarantees\<close>

lemma alone_idempotency_miss:
  "(\<And>k. key_given key = Some k \<Longrightarrow> \<not> key_exists d (idem_key (sha256 cx k))) \<Longrightarrow>
     alone (idempotency_check cx key) d Q = Q (Inr None) d"
  by (simp add: idempotency_check_def key_exists_def split: option.splits)

lemma alone_admit_new:
  assumes ready: "admit_ready cx d model prio caller key mc p q"
    and new: "\<And>rid. clean rid \<Longrightarrow>
      alone (enqueue_new cx mc model payload (effective_priority prio mc) caller meta key rid) d Q"
  shows "alone (admit cx model payload prio caller meta key) d Q"
proof -
  have mc: "model_config_for (config cx) model = Inr mc"
    and miss: "\<And>k. key_given key = Some k \<Longrightarrow> \<not> key_exists d (idem_key (sha256 cx k))"
    using ready by (simp_all add: admit_ready_def)
  show ?thesis
    unfolding admit_def
    by (simp add: mc, rule alone_uuid7) (simp add: alone_idempotency_miss [OF miss] new)
qed

lemma enqueued_simps [simp]:
  "kv (enqueued m j sc ps d) = kv d" "ss (enqueued m j sc ps d) = ss d"
  "ttls (enqueued m j sc ps d) = ttls d" "subs (enqueued m j sc ps d) = subs d"
  "pubs (enqueued m j sc ps d) = pubs d"
  "zs (enqueued m j sc ps d) = (zs d)(queue_key m := zadd_list sc j (zs d (queue_key m)))"
  "hs (enqueued m j sc ps d) = (hs d)(job_key j := put_fields (map (\<lambda>(f, v). (f, Str v)) ps) (hs d (job_key j)))"
  by (simp_all add: enqueued_def)

lemma del_key_simps [simp]:
  "kv (del_key k d) = (kv d)(k := None)" "hs (del_key k d) = (hs d)(k := [])"
  "zs (del_key k d) = (zs d)(k := [])" "ss (del_key k d) = (ss d)(k := [])"
  "ttls (del_key k d) = (ttls d)(k := None)" "subs (del_key k d) = subs d" "pubs (del_key k d) = pubs d"
  by (simp_all add: del_key_def)

text \<open>The state after a job was queued.\<close>

definition queued_state ::
  "ctx \<Rightarrow> string \<Rightarrow> string option \<Rightarrow> string \<Rightarrow> int \<Rightarrow> (string \<times> string) list \<Rightarrow> int \<Rightarrow> db \<Rightarrow> db" where
  "queued_state cx model key jid sc ps q d =
     (let e = enqueued model jid sc ps (with_seq model q d) in
      case key_given key of
        None \<Rightarrow> e
      | Some k \<Rightarrow> (del_key (idem_key (sha256 cx k)) e)
          \<lparr>kv := (kv e)(idem_key (sha256 cx k) \<mapsto> Str jid),
           ttls := (ttls e)(idem_key (sha256 cx k) := Some 86400)\<rparr>)"

lemma alone_accept_job:
  assumes "\<And>k. key_given key = Some k \<Longrightarrow> \<not> key_exists d (idem_key (sha256 cx k))"
    and "Q (Inr \<lparr>ao_result = AR_QUEUED, ao_job_id = jid, ao_status = QUEUED,
        ao_position_in_queue = Some (int (zrank_list jid (zadd_list sc jid (zs d (queue_key model))))),
        ao_existing_job_id = None, ao_estimated_drain_s = None\<rparr>)
      (queued_state cx model key jid sc ps q d)"
  shows "alone (accept_job cx model jid rid caller meta prio key)
    (enqueued model jid sc ps (with_seq model q d)) Q"
  using assms
  by (auto simp: accept_job_def record_idempotency_def queued_state_def key_exists_def Let_def
      split: option.splits)

lemma alone_admit_queued:
  assumes ready: "admit_ready cx d model prio caller key mc p q"
    and room: "int (length (zs d (queue_key model))) < max_queue_depth mc"
    and Q: "\<And>jid rid t ns jr.
      \<lbrakk>clean jid; length jid = 36; clean rid; clean t; 0 \<le> ns; ns < PRIORITY_MULTIPLIER;
       jr_job_id jr = jid; jr_payload jr = payload; jr_model jr = model\<rbrakk> \<Longrightarrow>
      (let sc = p * PRIORITY_MULTIPLIER + ns + (q + 1) mod 1000 in
       Q (Inr (\<lparr>ao_result = AR_QUEUED, ao_job_id = jid, ao_status = QUEUED,
          ao_position_in_queue = Some (int (zrank_list jid (zadd_list sc jid (zs d (queue_key model))))),
          ao_existing_job_id = None, ao_estimated_drain_s = None\<rparr>, Some jr))
        (queued_state cx model key jid sc
          (admission_fields model (effective_priority prio mc) t caller rid) (q + 1) d))"
  shows "alone (admit cx model payload prio caller meta key) d Q"
proof (rule alone_admit_new [OF ready], rule alone_enqueue_new [OF ready])
  have miss: "\<And>k. key_given key = Some k \<Longrightarrow> \<not> key_exists d (idem_key (sha256 cx k))"
    using ready by (simp add: admit_ready_def)
  fix rid jid ns t created
  assume *: "clean rid" "clean jid" "length jid = 36" "0 \<le> ns" "ns < PRIORITY_MULTIPLIER" "clean t"
  show "alone (accept_job cx model jid rid caller meta (effective_priority prio mc) key)
     (enqueued model jid (p * PRIORITY_MULTIPLIER + ns + (q + 1) mod 1000)
       (admission_fields model (effective_priority prio mc) t caller rid) (with_seq model (q + 1) d))
     (\<lambda>x d'. case x of Inl e \<Rightarrow> Q (Inl e) d'
       | Inr out \<Rightarrow> alone (return (out, Some
           \<lparr>jr_job_id = jid, jr_request_id = rid, jr_model = model, jr_payload = payload,
            jr_priority = effective_priority prio mc, jr_caller = caller,
            jr_caller_metadata = metadata_or_empty meta, jr_idempotency_key = key,
            jr_enqueue_ts = created\<rparr>)) d' Q)"
    by (rule alone_accept_job [OF miss]) (use * in \<open>auto intro: Q [unfolded Let_def]\<close>)
qed (use room in auto)

text \<open>A configuration and a context to run the model on.\<close>

definition demo_model :: model_config where
  "demo_model = \<lparr>max_concurrency = 2, max_queue_depth = 3, max_wait_seconds = 180,
     sync_timeout_seconds = 300, priority = 3, fallback_policy = default_fallback\<rparr>"

definition demo_ctx :: ctx where
  "demo_ctx = \<lparr>config = \<lparr>scheduler = default_scheduler, defaults = default_defaults,
       models = [(''code'', demo_model)]\<rparr>,
     lua = \<lparr>claim_slot_sha = Some ''a'', cancel_queued_sha = Some ''b'', enqueue_job_sha = Some ''c''\<rparr>,
     sha256 = (\<lambda>s. s), loads = (\<lambda>_. None), status_message = (\<lambda>st url. url)\<rparr>"

lemma demo_simps [simp]:
  "config demo_ctx = \<lparr>scheduler = default_scheduler, defaults = default_defaults,
     models = [(''code'', demo_model)]\<rparr>"
  "lua_loaded (lua demo_ctx)" "sha256 demo_ctx k = k"
  "model_config_for \<lparr>scheduler = default_scheduler, defaults = default_defaults,
     models = [(''code'', demo_model)]\<rparr> ''code'' = Inr demo_model"
  "max_queue_depth demo_model = 3" "max_concurrency demo_model = 2" "priority demo_model = 3"
  "sync_timeout_seconds demo_model = 300"
  by (simp_all add: demo_ctx_def lua_loaded_def model_config_for_def demo_model_def)

lemma demo_ready:
  "admit_ready demo_ctx empty_db ''code'' JNull ''me'' (Some ''k'') demo_model 3 0"
  by (simp add: admit_ready_def clean_def effective_priority_def counter_def empty_db_def in_int64_def
      key_exists_def)

definition full_db :: db where
  "full_db = empty_db\<lparr>zs := (zs empty_db)(queue_key ''code'' :=
     [ZEntry 1 ''a'', ZEntry 2 ''b'', ZEntry 3 ''c''])\<rparr>"

lemma full_ready: "admit_ready demo_ctx full_db ''code'' JNull ''me'' (Some ''k'') demo_model 3 0"
  by (simp add: admit_ready_def clean_def effective_priority_def counter_def empty_db_def full_db_def
      in_int64_def key_exists_def)

definition map_field :: "db \<Rightarrow> string \<Rightarrow> string \<Rightarrow> rval option" where
  "map_field d job_id f = map_of (hs d (job_key job_id)) f"

lemma admission_fields_stored:
  "map_of (put_fields (map (\<lambda>(f, v). (f, Str v)) (admission_fields model prio t caller rid)) h) f =
     (case map_of (admission_fields model prio t caller rid) f of Some v \<Rightarrow> Some (Str v) | None \<Rightarrow> map_of h f)"
  by (simp add: admission_fields_def)

lemma queued_state_simps [simp]:
  "hs (queued_state cx m key jid sc ps q d) (job_key j) =
     (if j = jid then put_fields (map (\<lambda>(f, v). (f, Str v)) ps) (hs d (job_key jid)) else hs d (job_key j))"
  "zs (queued_state cx m key jid sc ps q d) (queue_key m') =
     (if m' = m then zadd_list sc jid (zs d (queue_key m)) else zs d (queue_key m'))"
  by (auto simp: queued_state_def Let_def split: option.splits)

lemma queued_state_idem:
  "key_given key = Some k \<Longrightarrow>
     kv (queued_state cx m key jid sc ps q d) (idem_key (sha256 cx k)) = Some (Str jid) \<and>
     ttls (queued_state cx m key jid sc ps q d) (idem_key (sha256 cx k)) = Some 86400"
  by (simp add: queued_state_def Let_def)

text \<open>
  \<open>queued_as\<close>: from \<open>d\<close> to \<open>d'\<close> the job \<open>jid\<close> was queued with the score \<open>sc\<close>, and
  \<open>res\<close> reports it.
\<close>

definition queued_as ::
  "ctx \<Rightarrow> string \<Rightarrow> json \<Rightarrow> json \<Rightarrow> string \<Rightarrow> string option \<Rightarrow> int \<Rightarrow> db \<Rightarrow>
   string \<Rightarrow> int \<Rightarrow> string \<Rightarrow> string \<Rightarrow> exn + admission_outcome \<times> job_request option \<Rightarrow> db \<Rightarrow> bool" where
  "queued_as cx model payload eff caller key p d jid sc rid t res d' \<longleftrightarrow>
     (\<exists>jr. res = Inr (\<lparr>ao_result = AR_QUEUED, ao_job_id = jid, ao_status = QUEUED,
        ao_position_in_queue = Some (int (zrank_list jid (zs d' (queue_key model)))),
        ao_existing_job_id = None, ao_estimated_drain_s = None\<rparr>, Some jr) \<and>
      jr_job_id jr = jid \<and> jr_payload jr = payload \<and> jr_model jr = model) \<and>
     length jid = 36 \<and>
     zs d' (queue_key model) = zadd_list sc jid (zs d (queue_key model)) \<and>
     p * PRIORITY_MULTIPLIER \<le> sc \<and> sc < (p + 1) * PRIORITY_MULTIPLIER + 999 \<and>
     (\<forall>m'. m' \<noteq> model \<longrightarrow> zs d' (queue_key m') = zs d (queue_key m')) \<and>
     list_all (\<lambda>(f, v). map_field d' jid f = Some (Str v)) (admission_fields model eff t caller rid) \<and>
     (\<forall>k. key_given key = Some k \<longrightarrow> kv d' (idem_key (sha256 cx k)) = Some (Str jid) \<and>
        ttls d' (idem_key (sha256 cx k)) = Some 86400)"



lemma alone_admit_rejected:
  assumes ready: "admit_ready cx d model prio caller key mc p q"
    and full: "max_queue_depth mc \<le> int (length (zs d (queue_key model)))"
    and Q: "\<And>jid jr drain. 5 \<le> drain \<Longrightarrow>
      Q (Inr (\<lparr>ao_result = AR_REJECTED, ao_job_id = jid, ao_status = REJECTED,
         ao_position_in_queue = None, ao_existing_job_id = None, ao_estimated_drain_s = Some drain\<rparr>,
         Some jr)) (with_seq model (q + 1) d)"
  shows "alone (admit cx model payload prio caller meta key) d Q"
proof (rule alone_admit_new [OF ready], rule alone_enqueue_new [OF ready])
  fix rid jid created
  show "alone (reject_job cx mc model jid rid caller meta (effective_priority prio mc))
     (with_seq model (q + 1) d)
     (\<lambda>x d'. case x of Inl e \<Rightarrow> Q (Inl e) d'
       | Inr out \<Rightarrow> alone (return (out, Some
           \<lparr>jr_job_id = jid, jr_request_id = rid, jr_model = model, jr_payload = payload,
            jr_priority = effective_priority prio mc, jr_caller = caller,
            jr_caller_metadata = metadata_or_empty meta, jr_idempotency_key = key,
            jr_enqueue_ts = created\<rparr>)) d' Q)"
    by (auto simp: reject_job_def Let_def estimate_drain_def intro!: Q)
qed (use full in auto)



text \<open>
  A request whose idempotency key is recorded is answered with the recorded job and
  changes nothing in the database, not even when the queue is full.
\<close>

theorem admit_idempotent_hit:
  assumes "exact_server H view"
    and "model_config_for (config cx) model = Inr mc"
    and "key_given key = Some k" and "kv (view s) (idem_key (sha256 cx k)) = Some (Str jid)"
  shows "case run H (admit cx model payload prio caller meta key) s of (res, s') \<Rightarrow>
    res = Inr (\<lparr>ao_result = AR_IDEMPOTENT_HIT, ao_job_id = jid, ao_status = QUEUED,
      ao_position_in_queue = None, ao_existing_job_id = Some jid, ao_estimated_drain_s = None\<rparr>, None) \<and>
    view s' = view s"
proof (rule alone_sound [OF assms(1)])
  show "alone (admit cx model payload prio caller meta key) (view s) (\<lambda>res d'. res = Inr
      (\<lparr>ao_result = AR_IDEMPOTENT_HIT, ao_job_id = jid, ao_status = QUEUED,
        ao_position_in_queue = None, ao_existing_job_id = Some jid, ao_estimated_drain_s = None\<rparr>, None) \<and>
      d' = view s)"
    unfolding admit_def
    by (simp add: assms(2), rule alone_uuid7) (simp add: idempotency_check_def assms(3,4))
qed

theorem admit_idempotent_hit_witness:
  "case run scripted (admit demo_ctx ''code'' JNull JNull ''me'' JNull (Some ''k''))
       (empty_db\<lparr>kv := (kv empty_db)(idem_key ''k'' \<mapsto> Str ''job-1'')\<rparr>, []) of (res, s') \<Rightarrow>
     res = Inr (\<lparr>ao_result = AR_IDEMPOTENT_HIT, ao_job_id = ''job-1'', ao_status = QUEUED,
       ao_position_in_queue = None, ao_existing_job_id = Some ''job-1'', ao_estimated_drain_s = None\<rparr>, None) \<and>
     fst s' = empty_db\<lparr>kv := (kv empty_db)(idem_key ''k'' \<mapsto> Str ''job-1'')\<rparr>"
  using admit_idempotent_hit [OF scripted.exact_server_axioms, of demo_ctx "''code''" demo_model
      "Some ''k''" "''k''" "(empty_db\<lparr>kv := (kv empty_db)(idem_key ''k'' \<mapsto> Str ''job-1'')\<rparr>, [])"]
  by (simp add: key_given_def)

text \<open>
  C25. Two requests with the same idempotency key, one after the other, get the same job: the
  second is told the job the first one queued, and leaves the database as the first left it.
\<close>

theorem admit_twice_same_job:
  assumes "exact_server H view"
    and "admit_ready cx (view s) model prio caller key mc p q"
    and "int (length (zs (view s) (queue_key model))) < max_queue_depth mc"
    and "key_given key = Some k" and "model_config_for (config cx) model2 = Inr mc2"
  shows "case run H (admit cx model payload prio caller meta key) s of (res1, s1) \<Rightarrow>
     case run H (admit cx model2 payload2 prio2 caller2 meta2 key) s1 of (res2, s2) \<Rightarrow>
       \<exists>o1 jr o2. res1 = Inr (o1, Some jr) \<and> res2 = Inr (o2, None) \<and> ao_job_id o2 = ao_job_id o1 \<and>
         ao_result o1 = AR_QUEUED \<and> ao_result o2 = AR_IDEMPOTENT_HIT \<and> view s2 = view s1"
proof -
  let ?m1 = "admit cx model payload prio caller meta key"
  let ?m2 = "admit cx model2 payload2 prio2 caller2 meta2 key"
  let ?Q = "\<lambda>x d'. \<exists>o1 jr. x = Inr (o1, Some jr) \<and> ao_result o1 = AR_QUEUED \<and>
      kv d' (idem_key (sha256 cx k)) = Some (Str (ao_job_id o1))"
  have "alone ?m1 (view s) ?Q"
    by (rule alone_admit_queued [OF assms(2,3)]) (simp add: queued_state_idem [OF assms(4)] Let_def)
  from alone_sound [OF assms(1) this] obtain s1 o1 jr
    where r1: "run H ?m1 s = (Inr (o1, Some jr), s1)" and o1: "ao_result o1 = AR_QUEUED"
      and kv1: "kv (view s1) (idem_key (sha256 cx k)) = Some (Str (ao_job_id o1))"
    by (auto split: prod.splits)
  have "alone ?m2 (view s1) (\<lambda>x d'. \<exists>o2. x = Inr (o2, None) \<and> ao_job_id o2 = ao_job_id o1 \<and>
      ao_result o2 = AR_IDEMPOTENT_HIT \<and> d' = view s1)"
    unfolding admit_def
    by (simp add: assms(5), rule alone_uuid7) (simp add: idempotency_check_def assms(4) kv1)
  from alone_sound [OF assms(1) this] r1 o1 show ?thesis by (auto split: prod.splits)
qed

theorem admit_twice_witness:
  "case run scripted (admit demo_ctx ''code'' (JObj []) JNull ''me'' JNull (Some ''k'')) (empty_db, []) of
     (res1, s1) \<Rightarrow>
     case run scripted (admit demo_ctx ''code'' (JObj []) JNull ''me'' JNull (Some ''k'')) s1 of
       (res2, s2) \<Rightarrow>
       \<exists>o1 jr o2. res1 = Inr (o1, Some jr) \<and> res2 = Inr (o2, None) \<and> ao_job_id o2 = ao_job_id o1 \<and>
         ao_result o1 = AR_QUEUED \<and> ao_result o2 = AR_IDEMPOTENT_HIT \<and> fst s2 = fst s1"
  by (rule admit_twice_same_job [OF scripted.exact_server_axioms, where mc = demo_model and p = 3 and q = 0
        and k = "''k''" and ?mc2.0 = demo_model])
    (simp_all add: demo_ready key_given_def)

subsection \<open>The order of the queue\<close>

text \<open>The score of an admission: priority, the nanoseconds of the clock, the sequence number.\<close>

definition admission_score :: "int \<Rightarrow> int \<Rightarrow> int \<Rightarrow> int" where
  "admission_score p now_ns q =
     (case job_score (JNum p) (now_ns mod PRIORITY_MULTIPLIER) q of Inl _ \<Rightarrow> 0 | Inr sc \<Rightarrow> sc)"

lemma admission_score_eq:
  "\<bar>p\<bar> \<le> 9000 \<Longrightarrow>
     admission_score p t q = p * PRIORITY_MULTIPLIER + t mod PRIORITY_MULTIPLIER + q mod 1000"
proof -
  assume "\<bar>p\<bar> \<le> 9000"
  then have "job_score (JNum p) (t mod PRIORITY_MULTIPLIER) q =
      Inr (p * PRIORITY_MULTIPLIER + t mod PRIORITY_MULTIPLIER + q mod 1000)"
    by (intro job_score_exact) (simp_all add: PRIORITY_MULTIPLIER_def)
  then show ?thesis by (simp add: admission_score_def)
qed

lemma admission_score_bounds:
  assumes "\<bar>p\<bar> \<le> 9000"
  shows "p * PRIORITY_MULTIPLIER \<le> admission_score p t q"
    and "admission_score p t q < (p + 1) * PRIORITY_MULTIPLIER + 1000"
proof -
  have "0 \<le> t mod PRIORITY_MULTIPLIER" "t mod PRIORITY_MULTIPLIER < PRIORITY_MULTIPLIER"
    "0 \<le> q mod 1000" "q mod 1000 < 1000" by (simp_all add: PRIORITY_MULTIPLIER_def)
  then show "p * PRIORITY_MULTIPLIER \<le> admission_score p t q"
    "admission_score p t q < (p + 1) * PRIORITY_MULTIPLIER + 1000"
    unfolding admission_score_eq [OF assms] distrib_right by linarith+
qed

lemma tiers_apart:
  assumes "p + 2 \<le> p'" and "\<bar>p\<bar> \<le> 9000" and "\<bar>p'\<bar> \<le> 9000"
  shows "admission_score p t q < admission_score p' t' q'"
proof -
  from assms(1) have "(p + 1) * PRIORITY_MULTIPLIER + PRIORITY_MULTIPLIER \<le> p' * PRIORITY_MULTIPLIER"
    using mult_right_mono [of "p + 2" p' PRIORITY_MULTIPLIER]
    by (simp add: PRIORITY_MULTIPLIER_def distrib_right)
  moreover have "(1000 :: int) < PRIORITY_MULTIPLIER" by (simp add: PRIORITY_MULTIPLIER_def)
  ultimately show ?thesis
    using admission_score_bounds(2) [OF assms(2), of t q] admission_score_bounds(1) [OF assms(3), of t' q']
    by linarith
qed

definition enqueue_all :: "(string \<times> int \<times> int \<times> int) list \<Rightarrow> zentry list \<Rightarrow> zentry list" where
  "enqueue_all jobs z = fold (\<lambda>(jid, p, t, q). zadd_list (admission_score p t q) jid) jobs z"

definition job_entry :: "string \<times> int \<times> int \<times> int \<Rightarrow> zentry" where
  "job_entry j = (case j of (jid, p, t, q) \<Rightarrow> ZEntry (admission_score p t q) jid)"

lemma zmember_job_entry [simp]: "zmember (job_entry j) = fst j"
  by (cases j) (simp add: job_entry_def)

definition tier_of :: "(string \<times> int \<times> int \<times> int) list \<Rightarrow> zentry \<Rightarrow> int" where
  "tier_of jobs e = (case map_of jobs (zmember e) of Some (p, _, _) \<Rightarrow> p | None \<Rightarrow> 0)"

lemma enqueue_all_Cons:
  "enqueue_all (j # jobs) z = enqueue_all jobs (zadd_list (zscore (job_entry j)) (fst j) z)"
  by (cases j) (simp add: enqueue_all_def job_entry_def)

lemma enqueue_all_Nil [simp]: "enqueue_all [] z = z"
  by (simp add: enqueue_all_def)

lemma zwf_enqueue_all: "zwf z \<Longrightarrow> zwf (enqueue_all jobs z)"
  by (induction jobs arbitrary: z) (auto simp: zwf_zadd enqueue_all_Cons)

lemma set_enqueue_all:
  "distinct (map fst jobs) \<Longrightarrow> set (enqueue_all jobs z) =
     job_entry ` set jobs \<union> {e \<in> set z. zmember e \<notin> fst ` set jobs}"
proof (induction jobs arbitrary: z)
  case Nil
  then show ?case by simp
next
  case (Cons j jobs)
  have "ZEntry (zscore (job_entry j)) (fst j) = job_entry j"
    by (cases j) (simp add: job_entry_def)
  moreover have "\<And>a b c. (fst j, a, b, c) \<notin> set jobs"
    using Cons.prems by (auto simp: rev_image_eqI)
  ultimately show ?case using Cons by (auto simp: enqueue_all_Cons)
qed

lemma sorted_map_mono:
  "sorted xs \<Longrightarrow> (\<And>x y. x \<in> set xs \<Longrightarrow> y \<in> set xs \<Longrightarrow> x \<le> y \<Longrightarrow> f x \<le> f y) \<Longrightarrow> sorted (map f xs)"
  by (induction xs) auto

text \<open>
  C20. Whatever the order of admission, the dispatcher takes the jobs of a queue in the order of
  their tiers: the scores of different tiers never overlap, and popping until the queue is empty
  yields every job once.
\<close>

theorem queue_drains_by_tier:
  assumes "distinct (map fst jobs)"
    and "\<forall>(jid, p, t, q) \<in> set jobs. p \<in> {1, 3, 5, 7, 9}"
  defines "drained \<equiv> zq.drain (length (enqueue_all jobs [])) (enqueue_all jobs [])"
  shows "sorted (map (tier_of jobs) drained) \<and> zmember ` set drained = fst ` set jobs"
proof
  let ?z = "enqueue_all jobs []"
  have wf: "zwf ?z" by (rule zwf_enqueue_all) simp
  have set: "set drained = job_entry ` set jobs"
    unfolding drained_def using zq.drain_all [OF wf order_refl] set_enqueue_all [OF assms(1), of "[]"] by simp
  then show "zmember ` set drained = fst ` set jobs" by force
  have tier: "tier_of jobs (ZEntry sc jid) = p" if "(jid, p, t, q) \<in> set jobs" for jid p t q sc
    using that assms(1) by (simp add: tier_of_def)
  have mono: "tier_of jobs x \<le> tier_of jobs y"
    if x: "x \<in> set drained" and y: "y \<in> set drained" and "x \<le> y" for x y
  proof -
    from x y set obtain jid p t q jid' p' t' q'
      where j: "(jid, p, t, q) \<in> set jobs" "x = ZEntry (admission_score p t q) jid"
        and j': "(jid', p', t', q') \<in> set jobs" "y = ZEntry (admission_score p' t' q') jid'"
      by (auto simp: job_entry_def)
    from \<open>x \<le> y\<close> j j' have "admission_score p t q \<le> admission_score p' t' q'"
      by (auto simp: less_eq_zentry_def)
    moreover have "p \<in> {1, 3, 5, 7, 9}" "p' \<in> {1, 3, 5, 7, 9}" using assms(2) j(1) j'(1) by fast+
    ultimately have "\<not> p' + 2 \<le> p" using tiers_apart [of p' p t' q' t q] by auto
    moreover note \<open>p \<in> {1, 3, 5, 7, 9}\<close> \<open>p' \<in> {1, 3, 5, 7, 9}\<close>
    ultimately have "p \<le> p'" by auto
    with j j' show ?thesis by (simp add: tier)
  qed
  have "sorted drained" unfolding drained_def by (rule zq.drain_sorted [OF wf])
  then show "sorted (map (tier_of jobs) drained)" using mono by (rule sorted_map_mono)
qed

theorem queue_drains_by_tier_witness:
  "let jobs = [(''a'', 9, 5, 1), (''b'', 1, 7, 2), (''c'', 3, 6, 3)];
       drained = zq.drain (length (enqueue_all jobs [])) (enqueue_all jobs []) in
   sorted (map (tier_of jobs) drained) \<and> zmember ` set drained = fst ` set jobs"
  using queue_drains_by_tier [of "[(''a'', 9, 5, 1), (''b'', 1, 7, 2), (''c'', 3, 6, 3)]"]
  by (simp add: Let_def)

text \<open>
  Within a tier, and inside one window of 10^12 nanoseconds of the clock, the queue is
  first-in first-out for jobs admitted at least a microsecond apart.
\<close>

theorem fifo_inside_window:
  assumes "\<bar>p\<bar> \<le> 9000" and "a \<noteq> b" and "t + 1000 \<le> t'" and "t' div PRIORITY_MULTIPLIER = t div PRIORITY_MULTIPLIER"
  shows "zq.drain 2 (enqueue_all [(b, p, t', q'), (a, p, t, q)] []) =
    [ZEntry (admission_score p t q) a, ZEntry (admission_score p t' q') b]"
proof -
  let ?M = PRIORITY_MULTIPLIER
  have "t' mod ?M = t' - t div ?M * ?M" "t mod ?M = t - t div ?M * ?M"
    using minus_div_mult_eq_mod [of t' ?M] minus_div_mult_eq_mod [of t ?M] assms(4) by simp_all
  then have "t mod ?M + 1000 \<le> t' mod ?M" using assms(3) by simp
  moreover have "0 \<le> q' mod 1000" "q mod 1000 < 1000" by simp_all
  ultimately have "admission_score p t q < admission_score p t' q'"
    unfolding admission_score_eq [OF assms(1)] by linarith
  then show ?thesis
    using assms(2) by (simp add: enqueue_all_Cons job_entry_def zadd_list_def numeral_2_eq_2 zpop_list_def
        less_eq_zentry_def)
qed

theorem fifo_inside_window_witness:
  "zq.drain 2 (enqueue_all [(''b'', 5, 3000, 2), (''a'', 5, 1000, 999)] []) =
    [ZEntry (admission_score 5 1000 999) ''a'', ZEntry (admission_score 5 3000 2) ''b'']"
  by (rule fifo_inside_window) (simp_all add: PRIORITY_MULTIPLIER_def)

text \<open>
  Within a tier the queue is first-in first-out only inside one window of 10^12 nanoseconds:
  the score keeps the clock modulo that window, so of two jobs admitted across its end, at most
  one window apart, the later one is taken first.
\<close>

theorem fifo_breaks_at_window:
  assumes "\<bar>p\<bar> \<le> 9000" and "a \<noteq> b" and "t < t'" and "t' div PRIORITY_MULTIPLIER = t div PRIORITY_MULTIPLIER + 1"
    and "t' + 1000 \<le> t + PRIORITY_MULTIPLIER"
  shows "zq.drain 2 (enqueue_all [(a, p, t, q), (b, p, t', q')] []) =
    [ZEntry (admission_score p t' q') b, ZEntry (admission_score p t q) a]"
proof -
  let ?M = PRIORITY_MULTIPLIER
  have "t' mod ?M = t' - (t div ?M + 1) * ?M" "t mod ?M = t - t div ?M * ?M"
    using minus_div_mult_eq_mod [of t' ?M] minus_div_mult_eq_mod [of t ?M] assms(4) by simp_all
  then have "t' mod ?M + 1000 \<le> t mod ?M" using assms(5) by (simp add: distrib_right)
  moreover have "0 \<le> q mod 1000" "q' mod 1000 < 1000" by simp_all
  ultimately have "admission_score p t' q' < admission_score p t q"
    unfolding admission_score_eq [OF assms(1)] by linarith
  then show ?thesis
    using assms(2) by (simp add: enqueue_all_Cons job_entry_def zadd_list_def numeral_2_eq_2 zpop_list_def less_eq_zentry_def)
qed

theorem fifo_breaks_at_window_witness:
  "zq.drain 2 (enqueue_all [(''a'', 5, 999999999999, 1), (''b'', 5, 1000000000000, 2)] []) =
    [ZEntry (admission_score 5 1000000000000 2) ''b'', ZEntry (admission_score 5 999999999999 1) ''a'']"
  by (rule fifo_breaks_at_window) (simp_all add: PRIORITY_MULTIPLIER_def)

text \<open>A field that is empty is dropped by the script, which leaves an odd number of arguments.\<close>

lemma pairs_of_odd: "odd (length vs) \<Longrightarrow> pairs_of (map Str vs) = None"
proof (induction vs rule: induct_list012)
  case (3 x y zs)
  then show ?case by simp
qed auto

lemma enqueue_job_run_odd:
  assumes "ps \<noteq> []" and "\<forall>s \<in> set (flat_fields ps). CHR 0x00 \<notin> set s"
    and "odd (length (filter (\<lambda>p. p \<noteq> []) (flat_fields ps)))"
    and "int (length (zs d qk)) < mx"
  shows "run redis_call (enqueue_job_script qk jk job_id score mx (join_nul (flat_fields ps))) d =
    (RErr (RedisError ''ERR wrong number of arguments for 'hset' command''),
     d\<lparr>zs := (zs d)(qk := zadd_list score job_id (zs d qk))\<rparr>)"
proof -
  have "split_nul (join_nul (flat_fields ps)) = flat_fields ps"
    using assms by (intro split_join_nul) auto
  with assms(3,4) show ?thesis
    by (simp add: enqueue_job_script_def lua_call_def pairs_of_odd)
qed

definition empty_model_ready :: "ctx \<Rightarrow> db \<Rightarrow> json \<Rightarrow> string \<Rightarrow> model_config \<Rightarrow> int \<Rightarrow> int \<Rightarrow> bool" where
  "empty_model_ready cx d prio caller mc p q \<longleftrightarrow>
     lua_loaded (lua cx) \<and> model_config_for (config cx) [] = Inr mc \<and> clean caller \<and>
     priority_number (effective_priority prio mc) = Inr p \<and> \<bar>p\<bar> \<le> 9000 \<and>
     counter d (seq_key []) = Some q \<and> in_int64 (q + 1) \<and>
     int (length (zs d (queue_key []))) < max_queue_depth mc"

text \<open>
  A request for the model with the empty name leaves an entry in the queue that has no job:
  the script adds the entry, then fails because the empty value was dropped from the fields, and
  Redis does not undo the part of a script that ran. The caller sees an error.
\<close>

theorem empty_model_leaves_ghost:
  assumes "exact_server H view"
    and "empty_model_ready cx (view s) prio caller mc p q"
  shows "case run H (admit cx [] payload prio caller meta None) s of (res, s') \<Rightarrow>
    res = Inl (RedisError ''ERR wrong number of arguments for 'hset' command'') \<and>
    (\<exists>jid sc. zs (view s') (queue_key []) = zadd_list sc jid (zs (view s) (queue_key [])) \<and>
      hs (view s') (job_key jid) = hs (view s) (job_key jid))"
proof (rule alone_sound [OF assms(1)])
  let ?eff = "effective_priority prio mc" and ?d = "view s"
  note r = assms(2) [unfolded empty_model_ready_def]
  have seq: "redis_call (INCR (seq_key [])) ?d = (RInt (q + 1), with_seq [] (q + 1) ?d)"
    using r by (simp add: counter_def with_seq_def)
  have score: "job_score ?eff (n mod PRIORITY_MULTIPLIER) (q + 1) =
      Inr (p * PRIORITY_MULTIPLIER + n mod PRIORITY_MULTIPLIER + (q + 1) mod 1000)" for n
    using r by (intro job_score_exact) (simp_all add: PRIORITY_MULTIPLIER_def)
  have nul: "\<forall>v \<in> set (flat_fields (admission_fields [] ?eff t caller rid)). CHR 0x00 \<notin> set v"
    if "clean t" "clean rid" for t rid
    using that r clean_priority_text [of ?eff p] by (auto simp: admission_fields_def clean_def)
  have odd: "odd (length (filter (\<lambda>v. v \<noteq> []) (flat_fields (admission_fields [] ?eff t caller rid))))"
    if "clean t" "clean rid" for t rid
    using that r clean_priority_text [of ?eff p] by (auto simp: admission_fields_def clean_def)
  have script: "alone (evalsha_enqueue_job (lua cx) (queue_key []) (job_key jid) jid sc
      (max_queue_depth mc) (flat_fields (admission_fields [] ?eff t caller rid))) (with_seq [] n ?d) Q =
      Q (Inl (RedisError ''ERR wrong number of arguments for 'hset' command''))
        ((with_seq [] n ?d)\<lparr>zs := (zs ?d)(queue_key [] := zadd_list sc jid (zs ?d (queue_key [])))\<rparr>)"
    if "clean t" "clean rid" for t rid jid sc n Q
  proof -
    have ne: "admission_fields [] ?eff t caller rid \<noteq> []" by (simp add: admission_fields_def)
    have room: "int (length (zs (with_seq [] n ?d) (queue_key []))) < max_queue_depth mc" using r by simp
    show ?thesis
      using r by (auto simp: evalsha_enqueue_job_def require_sha_def lua_loaded_def
          enqueue_job_run_odd [OF ne nul [OF that] odd [OF that] room])
  qed
  show "alone (admit cx [] payload prio caller meta None) ?d (\<lambda>res d'.
      res = Inl (RedisError ''ERR wrong number of arguments for 'hset' command'') \<and>
      (\<exists>jid sc. zs d' (queue_key []) = zadd_list sc jid (zs ?d (queue_key [])) \<and>
        hs d' (job_key jid) = hs ?d (job_key jid)))"
    using r unfolding admit_def
    by (simp, intro alone_uuid7, simp add: idempotency_check_def key_given_def enqueue_new_def Let_def,
        intro alone_uuid7)
      (auto simp: seq score script Let_def simp del: redis_call.simps)
qed

lemma demo_empty_ready: "empty_model_ready demo_ctx empty_db JNull ''me'' \<lparr>max_concurrency = 3,
    max_queue_depth = 50, max_wait_seconds = 120, sync_timeout_seconds = 120, priority = 5,
    fallback_policy = default_fallback\<rparr> 5 0"
  by (simp add: empty_model_ready_def model_config_for_def default_defaults_def make_model_config_def
      positive_int_def priority_in_range_def clean_def effective_priority_def counter_def in_int64_def)

theorem empty_model_leaves_ghost_witness:
  "case run scripted (admit demo_ctx [] JNull JNull ''me'' JNull None) (empty_db, []) of (res, s') \<Rightarrow>
     res = Inl (RedisError ''ERR wrong number of arguments for 'hset' command'') \<and>
     (\<exists>jid sc. zs (fst s') (queue_key []) = zadd_list sc jid (zs (fst (empty_db, [])) (queue_key [])) \<and>
       hs (fst s') (job_key jid) = hs (fst (empty_db, [])) (job_key jid))"
  using empty_model_leaves_ghost [OF scripted.exact_server_axioms, of demo_ctx "(empty_db, [])"]
    demo_empty_ready
  by (simp only: fst_conv)

end
