(* ===== verification/Forwarder.thy ===== *)
theory Forwarder
  imports Admission
begin

text \<open>
  \<open>app/backend/litellm_forwarder.py\<close>: the client that posts a job to the LiteLLM proxy. The
  proxy and \<open>httpx\<close> are the reply of \<open>HttpPost\<close> and \<open>HttpGet\<close>: an exception, or a
  status with headers (lower-case names) and the body as JSON, None when it is none.
\<close>

record forwarder =
  backend_url :: string
  started :: bool

definition new_forwarder :: "string \<Rightarrow> forwarder" where
  "new_forwarder url = \<lparr>backend_url = rstrip_slash url, started = False\<rparr>"

definition start_forwarder :: "forwarder \<Rightarrow> forwarder" where
  "start_forwarder f = f\<lparr>started := True\<rparr>"

definition header_value :: "(string \<times> string) list \<Rightarrow> string \<Rightarrow> string" where
  "header_value headers name = strip (case map_of headers name of None \<Rightarrow> [] | Some v \<Rightarrow> v)"

definition body_model :: "json option \<Rightarrow> string option" where
  "body_model body =
     (case body of
        None \<Rightarrow> None
      | Some b \<Rightarrow>
          (case json_get b ''model'' JNull of
             Inl _ \<Rightarrow> None
           | Inr v \<Rightarrow>
               if truthy v
               then (case v of JStr s \<Rightarrow> if strip s = [] then None else Some (strip s) | _ \<Rightarrow> None)
               else None))"

definition extract_backend_target :: "(string \<times> string) list \<Rightarrow> json option \<Rightarrow> string option" where
  "extract_backend_target headers body =
     (let value = header_value headers ''x-litellm-deployment'' in
      if value \<noteq> [] then Some value
      else let value = header_value headers ''x-litellm-model'' in
      if value \<noteq> [] then Some value
      else body_model body)"

definition http_post :: "string \<Rightarrow> json \<Rightarrow> int \<Rightarrow> reply io" where
  "http_post url payload timeout_s = Call (Env (HttpPost url payload timeout_s)) (\<lambda>r. Ret (checked r))"

definition http_get :: "string \<Rightarrow> int \<Rightarrow> reply io" where
  "http_get url timeout_s = Call (Env (HttpGet url timeout_s)) (\<lambda>r. Ret (checked r))"

text \<open>\<open>raise_for_status\<close> raises for every status outside 2xx.\<close>

definition raise_for_status :: "ctx \<Rightarrow> string \<Rightarrow> int \<Rightarrow> unit io" where
  "raise_for_status cx url st =
     (if 200 \<le> st \<and> st \<le> 299 then return () else raise (HTTPStatusError st (status_message cx st url)))"

definition response_json :: "json option \<Rightarrow> json io" where
  "response_json body = (case body of None \<Rightarrow> raise (ValueError ''Expecting value'') | Some j \<Rightarrow> return j)"

definition forward :: "ctx \<Rightarrow> forwarder \<Rightarrow> json \<Rightarrow> int \<Rightarrow> (json \<times> string option) io" where
  "forward cx f payload timeout_s =
     (if \<not> started f then raise (RuntimeError ''LiteLLMForwarder not started'')
      else
        andThen (lift (dict_of payload)) (\<lambda>kvs.
        let safe_payload = JObj (dict_put ''stream'' (JBool False) kvs);
            url = backend_url f @ ''/v1/chat/completions'' in
        andThen (http_post url safe_payload timeout_s) (\<lambda>r.
        case r of
          RResponse st headers body \<Rightarrow>
            andThen (raise_for_status cx url st) (\<lambda>_.
            let backend_target = extract_backend_target headers body in
            andThen (response_json body) (\<lambda>j. return (j, backend_target)))
        | _ \<Rightarrow> raise (OtherException ''no response''))))"

definition health_url :: "forwarder \<Rightarrow> string" where
  "health_url f = backend_url f @ ''/health''"

definition check_health :: "forwarder \<Rightarrow> string io" where
  "check_health f =
     (if \<not> started f then return ''down''
      else
        catch
          (andThen (http_get (health_url f) 5) (\<lambda>r.
           return (case r of RResponse st _ _ \<Rightarrow> if st = 200 then ''ok'' else ''degraded''
                   | _ \<Rightarrow> ''degraded'')))
          (\<lambda>e. case e of
             HTTPStatusError _ _ \<Rightarrow> return ''degraded''
           | _ \<Rightarrow> if is_exception e
                  then andThen (record_redis_error ''litellm_health_check'') (\<lambda>_. return ''down'')
                  else raise e))"

subsection \<open>Running a call of the backend\<close>

lemma http_replies:
  "(\<forall>r. ((\<exists>e. r = RErr e) \<longrightarrow> P r) \<and> ((\<exists>st hd b. r = RResponse st hd b) \<longrightarrow> P r)) \<longleftrightarrow>
     (\<forall>e. P (RErr e)) \<and> (\<forall>st hd b. P (RResponse st hd b))"
  by auto

lemma alone_http [simp]:
  "alone (http_post u j t) d Q \<longleftrightarrow>
     (\<forall>e. Q (Inl e) d) \<and> (\<forall>st hd b. Q (Inr (RResponse st hd b)) d)"
  "alone (http_get u t) d Q \<longleftrightarrow>
     (\<forall>e. Q (Inl e) d) \<and> (\<forall>st hd b. Q (Inr (RResponse st hd b)) d)"
  by (simp_all add: http_post_def http_get_def http_replies)

lemma alone_raise_for_status [simp]:
  "alone (raise_for_status cx u st) d Q =
     (if 200 \<le> st \<and> st \<le> 299 then Q (Inr ()) d
      else Q (Inl (HTTPStatusError st (status_message cx st u))) d)"
  by (simp add: raise_for_status_def)

lemma alone_response_json [simp]:
  "alone (response_json b) d Q =
     (case b of None \<Rightarrow> Q (Inl (ValueError ''Expecting value'')) d | Some j \<Rightarrow> Q (Inr j) d)"
  by (simp add: response_json_def split: option.splits)

text \<open>Whatever the backend does, the call ends and leaves the database alone.\<close>

lemma alone_forward: "(\<And>x. Q x d) \<Longrightarrow> alone (forward cx f payload t) d Q"
  by (auto simp: forward_def Let_def split: sum.splits option.splits)

end
