(* ===== verification/Dispatcher.thy ===== *)
theory Dispatcher
  imports Forwarder
begin

text \<open>
  \<open>app/core/dispatcher.py\<close>: the worker of one model. It pops a job, claims a slot,
  takes a lease, forwards the payload and writes the terminal state. Loops carry fuel: a
  result None is a loop still running.
\<close>

record worker =
  wk_model :: string
  wk_cfg :: model_config
  wk_id :: string
  wk_forwarder :: forwarder

definition new_worker :: "ctx \<Rightarrow> string \<Rightarrow> string \<Rightarrow> forwarder \<Rightarrow> exn + worker" where
  "new_worker cx model hex8 f =
     (case model_config_for (config cx) model of
        Inl e \<Rightarrow> Inl e
      | Inr mc \<Rightarrow> Inr \<lparr>wk_model = model, wk_cfg = mc, wk_id = model @ ''-'' @ hex8, wk_forwarder = f\<rparr>)"

definition lease_ttl :: "model_config \<Rightarrow> int" where
  "lease_ttl mc = max (sync_timeout_seconds mc) 60 + 30"

subsection \<open>Writing terminal states\<close>

definition publish :: "string \<Rightarrow> string \<Rightarrow> unit io" where
  "publish job_id status =
     catch_redis
       (andThen (redis (PUBLISH (job_done_channel job_id) status)) (\<lambda>_. return ()))
       (record_redis_error ''publish'')"

definition release_slot :: "worker \<Rightarrow> string \<Rightarrow> unit io" where
  "release_slot w job_id =
     catch_redis
       (pipeline [DECR (slots_in_use_key (wk_model w)), ZREM (inflight_key (wk_model w)) job_id,
                  DEL (lease_key job_id)])
       (record_redis_error ''release_slot'')"

definition cleanup_slot_minimal :: "worker \<Rightarrow> string \<Rightarrow> unit io" where
  "cleanup_slot_minimal w job_id = release_slot w job_id"

definition cleanup_slot :: "worker \<Rightarrow> string \<Rightarrow> job_status \<Rightarrow> error_class \<Rightarrow> unit io" where
  "cleanup_slot w job_id status ec =
     andThen
       (catch_redis
          (andThen iso_now (\<lambda>ts.
           andThen (redis (HSET (job_key job_id)
               [Str ''status'', Str (status_value status), Str ''error_class'', Str (error_value ec),
                Str ''complete_ts'', Str ts])) (\<lambda>_. return ())))
          (return ()))
       (\<lambda>_. andThen (release_slot w job_id) (\<lambda>_. publish job_id (status_value status)))"

text \<open>The terminal fields and the hour they live, in one transaction.\<close>

definition write_terminal :: "string \<Rightarrow> rval list \<Rightarrow> string \<Rightarrow> unit io" where
  "write_terminal job_id mapping operation =
     catch_redis (pipeline [HSET (job_key job_id) mapping, EXPIRE (job_key job_id) 3600])
       (record_redis_error operation)"

definition mark_completed ::
  "string \<Rightarrow> string \<Rightarrow> string \<Rightarrow> string \<Rightarrow> int \<Rightarrow> json \<Rightarrow> int \<Rightarrow> int \<Rightarrow> string option \<Rightarrow> unit io" where
  "mark_completed job_id request_id model caller prio response wait_us backend_us backend_target =
     andThen iso_now (\<lambda>complete_ts.
     andThen (lift (json_get response ''usage'' JNull)) (\<lambda>u.
     let usage = (if truthy u then u else JObj []) in
     andThen (lift (json_get usage ''prompt_tokens'' (JNum 0))) (\<lambda>tokens_prompt.
     andThen (lift (json_get usage ''completion_tokens'' (JNum 0))) (\<lambda>tokens_completion.
     andThen (write_terminal job_id
         [Str ''status'', Str (status_value COMPLETED), Str ''complete_ts'', Str complete_ts,
          Str ''response_blob'', GzipJson response] ''mark_completed'') (\<lambda>_.
     andThen (publish job_id (status_value COMPLETED)) (\<lambda>_.
     andThen (record_completion model wait_us backend_us backend_us) (\<lambda>_.
     andThen (build_completed_event job_id request_id model caller (JObj []) (JNum prio)
         (int_ms wait_us) (int_ms backend_us) tokens_prompt tokens_completion backend_target) (\<lambda>ev.
     emit ev))))))))"

definition mark_failed ::
  "string \<Rightarrow> string \<Rightarrow> string \<Rightarrow> string \<Rightarrow> int \<Rightarrow> error_class \<Rightarrow> string \<Rightarrow> int option \<Rightarrow> unit io" where
  "mark_failed job_id request_id model caller prio ec error_message http_status =
     andThen iso_now (\<lambda>complete_ts.
     andThen (write_terminal job_id
         ([Str ''status'', Str (status_value FAILED), Str ''complete_ts'', Str complete_ts,
           Str ''error_class'', Str (error_value ec), Str ''error_message'', Str (take 500 error_message)]
          @ (case http_status of None \<Rightarrow> [] | Some st \<Rightarrow> [Str ''http_status'', Str (show_int st)]))
         ''mark_failed'') (\<lambda>_.
     andThen (publish job_id (status_value FAILED)) (\<lambda>_.
     andThen (record_failure model (error_value ec)) (\<lambda>_.
     andThen (build_base_event (event_value EV_FAILED) job_id request_id model caller (JObj []) (JNum prio))
       (\<lambda>base.
     emit (JObj (base @ [(''error_class'', JStr (error_value ec)),
       (''error_message'', JStr (take 500 error_message)),
       (''http_status'', case http_status of None \<Rightarrow> JNull | Some st \<Rightarrow> JNum st)])))))))"

definition mark_cancelled_dispatched ::
  "string \<Rightarrow> string \<Rightarrow> string \<Rightarrow> string \<Rightarrow> int \<Rightarrow> unit io" where
  "mark_cancelled_dispatched job_id request_id model caller prio =
     andThen iso_now (\<lambda>complete_ts.
     andThen (write_terminal job_id
         [Str ''status'', Str (status_value CANCELLED), Str ''complete_ts'', Str complete_ts]
         ''mark_cancelled'') (\<lambda>_.
     andThen (publish job_id (status_value CANCELLED)) (\<lambda>_.
     andThen (record_cancel model) (\<lambda>_.
     andThen (build_base_event (event_value EV_CANCELLED) job_id request_id model caller (JObj []) (JNum prio))
       (\<lambda>base. emit (JObj (base @ [(''was_dispatched'', JBool True)])))))))"

subsection \<open>Claiming a slot\<close>

text \<open>Some True: claimed; Some False: the worker is stopping; None: still waiting.\<close>

primrec claim_loop :: "ctx \<Rightarrow> worker \<Rightarrow> string \<Rightarrow> nat \<Rightarrow> bool option io" where
  "claim_loop cx w job_id 0 = return None"
| "claim_loop cx w job_id (Suc n) =
     andThen stop_is_set (\<lambda>stop.
     if stop then return (Some False)
     else
       andThen iso_now (\<lambda>ts_iso.
       andThen
         (catch_redis
            (andThen (evalsha_claim_slot (lua cx) (slots_in_use_key (wk_model w))
                (slots_capacity_key (wk_model w)) job_id ts_iso) (\<lambda>ok. return (Some ok)))
            (andThen (record_redis_error ''evalsha_claim_slot'') (\<lambda>_.
             andThen (sleep 100000) (\<lambda>_. return None))))
         (\<lambda>r. case r of
            None \<Rightarrow> claim_loop cx w job_id n
          | Some ok \<Rightarrow>
              if ok = 1 then return (Some True)
              else andThen (sleep 50000) (\<lambda>_. claim_loop cx w job_id n))))"

subsection \<open>Forwarding a claimed job\<close>

definition set_lease :: "worker \<Rightarrow> string \<Rightarrow> int \<Rightarrow> unit io" where
  "set_lease w job_id ttl =
     catch_redis
       (andThen (read_env Now) (\<lambda>t.
        pipeline [SETEX (lease_key job_id) ttl (Str (wk_id w)), ZADD (inflight_key (wk_model w)) t job_id]))
       (record_redis_error ''lease_set'')"

definition job_field :: "(string \<times> rval) list \<Rightarrow> string \<Rightarrow> string" where
  "job_field h key = (case map_of h key of None \<Rightarrow> [] | Some v \<Rightarrow> rval_text v)"

text \<open>
  The payload: the JSON text of \<open>payload_json\<close>, an empty object when the field is missing,
  empty or no JSON.
\<close>

definition job_payload :: "ctx \<Rightarrow> (string \<times> rval) list \<Rightarrow> json" where
  "job_payload cx h =
     (case map_of h ''payload_json'' of
        None \<Rightarrow> JObj []
      | Some (JsonText j) \<Rightarrow> j
      | Some (Str s) \<Rightarrow>
          (if s = [] then JObj [] else case loads cx s of None \<Rightarrow> JObj [] | Some j \<Rightarrow> j)
      | Some (GzipJson _) \<Rightarrow> JObj [])"

definition job_priority :: "string \<Rightarrow> exn + int" where
  "job_priority s =
     (if s = [] then Inr 5
      else case py_int s of None \<Rightarrow> Inl (ValueError ''invalid literal for int() with base 10'')
           | Some n \<Rightarrow> Inr n)"

definition enqueued_at :: "string \<Rightarrow> int io" where
  "enqueued_at enqueue_ts_str =
     (case from_iso enqueue_ts_str of Some t \<Rightarrow> return t | None \<Rightarrow> read_env Now)"

definition forward_error :: "exn \<Rightarrow> error_class \<times> int option" where
  "forward_error e =
     (case e of
        HTTPStatusError st _ \<Rightarrow> (if st = 429 then BACKEND_429 else BACKEND_5XX, Some st)
      | TimeoutException _ \<Rightarrow> (BACKEND_TIMEOUT, None)
      | ConnectError _ \<Rightarrow> (NETWORK_ERROR, None)
      | _ \<Rightarrow> (BACKEND_5XX, None))"

definition forward_and_mark ::
  "ctx \<Rightarrow> worker \<Rightarrow> string \<Rightarrow> string \<Rightarrow> string \<Rightarrow> string \<Rightarrow> int \<Rightarrow> int \<Rightarrow> json \<Rightarrow> unit io" where
  "forward_and_mark cx w job_id request_id model caller prio wait_us payload =
     andThen (read_env Now) (\<lambda>backend_start.
     finally_do
       (catch
          (andThen (forward cx (wk_forwarder w) payload (sync_timeout_seconds (wk_cfg w)))
            (\<lambda>(response, backend_target).
           andThen (read_env Now) (\<lambda>t.
           mark_completed job_id request_id model caller prio response wait_us (t - backend_start)
             backend_target)))
          (\<lambda>e. if e = CancelledError
               then andThen (mark_cancelled_dispatched job_id request_id model caller prio)
                      (\<lambda>_. raise CancelledError)
               else mark_failed job_id request_id model caller prio (fst (forward_error e)) (exn_str e)
                      (snd (forward_error e))))
       (release_slot w job_id))"

definition fetch_job :: "worker \<Rightarrow> string \<Rightarrow> (string \<times> rval) list option io" where
  "fetch_job w job_id =
     catch_redis
       (andThen (redis (HGETALL (job_key job_id))) (\<lambda>r. return (Some (reply_pairs r))))
       (andThen (record_redis_error ''job_hgetall'') (\<lambda>_.
        andThen (cleanup_slot w job_id FAILED WORKER_CRASH) (\<lambda>_. return None)))"

definition process_job :: "ctx \<Rightarrow> worker \<Rightarrow> string \<Rightarrow> (string \<times> rval) list \<Rightarrow> unit io" where
  "process_job cx w job_id h =
     (let f = job_field h;
          model = (if f ''model'' = [] then wk_model w else f ''model'');
          caller = f ''caller''; request_id = f ''request_id'' in
      andThen (lift (job_priority (f ''priority''))) (\<lambda>prio.
      andThen (enqueued_at (f ''enqueue_ts'')) (\<lambda>enqueue_ts.
      andThen (read_env Now) (\<lambda>now.
      let wait_us = max 0 (now - enqueue_ts) in
      andThen (build_dispatched_event job_id request_id model caller (JObj []) (JNum prio)
          (int_ms wait_us) None JNull) (\<lambda>ev.
      andThen (emit ev) (\<lambda>_.
      andThen (metric (Observe ''queue_wait_seconds'' [(''model'', model)] wait_us)) (\<lambda>_.
      forward_and_mark cx w job_id request_id model caller prio wait_us (job_payload cx h))))))))"

definition dispatch_claimed :: "ctx \<Rightarrow> worker \<Rightarrow> string \<Rightarrow> int \<Rightarrow> unit io" where
  "dispatch_claimed cx w job_id ttl =
     andThen (set_lease w job_id ttl) (\<lambda>_.
     andThen (fetch_job w job_id) (\<lambda>h.
     case h of
       None \<Rightarrow> return ()
     | Some [] \<Rightarrow> cleanup_slot_minimal w job_id
     | Some (p # ps) \<Rightarrow> process_job cx w job_id (p # ps)))"

definition wait_for_slot_and_claim :: "ctx \<Rightarrow> worker \<Rightarrow> string \<Rightarrow> int \<Rightarrow> nat \<Rightarrow> unit option io" where
  "wait_for_slot_and_claim cx w job_id ttl fuel =
     andThen (claim_loop cx w job_id fuel) (\<lambda>c.
     case c of
       None \<Rightarrow> return None
     | Some False \<Rightarrow> return (Some ())
     | Some True \<Rightarrow> andThen (dispatch_claimed cx w job_id ttl) (\<lambda>_. return (Some ())))"

subsection \<open>The worker loop\<close>

fun is_connection_error :: "exn \<Rightarrow> bool" where
  "is_connection_error (OSConnectionError _) = True"
| "is_connection_error _ = False"

definition pop_job :: "worker \<Rightarrow> string option io" where
  "pop_job w =
     catch
       (andThen (redis (BZPOPMIN (queue_key (wk_model w)))) (\<lambda>r.
        return (case r of REntry e \<Rightarrow> Some (zmember e) | _ \<Rightarrow> None)))
       (\<lambda>e. if is_redis_error e \<or> is_connection_error e
            then andThen (record_redis_error ''bzpopmin'') (\<lambda>_.
                 andThen (sleep 1000000) (\<lambda>_. return None))
            else raise e)"

primrec run_worker :: "ctx \<Rightarrow> worker \<Rightarrow> nat \<Rightarrow> nat \<Rightarrow> unit option io" where
  "run_worker cx w fuel 0 = return None"
| "run_worker cx w fuel (Suc n) =
     andThen stop_is_set (\<lambda>stop.
     if stop then return (Some ())
     else
       andThen (pop_job w) (\<lambda>item.
       case item of
         None \<Rightarrow> run_worker cx w fuel n
       | Some job_id \<Rightarrow>
           andThen (wait_for_slot_and_claim cx w job_id (lease_ttl (wk_cfg w)) fuel) (\<lambda>r.
           case r of None \<Rightarrow> return None | Some _ \<Rightarrow> run_worker cx w fuel n)))"

subsection \<open>What each step does to the database\<close>

definition terminal_write :: "string \<Rightarrow> (string \<times> rval) list \<Rightarrow> string \<Rightarrow> db \<Rightarrow> db" where
  "terminal_write job_id ps status d =
     d\<lparr>hs := (hs d)(job_key job_id := put_fields ps (hs d (job_key job_id))),
       ttls := (ttls d)(job_key job_id := Some 3600),
       pubs := pubs d @ [(job_done_channel job_id, status)]\<rparr>"

definition released :: "string \<Rightarrow> string \<Rightarrow> int \<Rightarrow> db \<Rightarrow> db" where
  "released model job_id n d = del_key (lease_key job_id)
     (d\<lparr>kv := (kv d)(slots_in_use_key model \<mapsto> Str (show_int n)),
        zs := (zs d)(inflight_key model := zrem_list job_id (zs d (inflight_key model)))\<rparr>)"

definition leased :: "worker \<Rightarrow> string \<Rightarrow> int \<Rightarrow> int \<Rightarrow> db \<Rightarrow> db" where
  "leased w job_id ttl t d = (del_key (lease_key job_id) d)
     \<lparr>kv := (kv d)(lease_key job_id \<mapsto> Str (wk_id w)),
      ttls := (ttls d)(lease_key job_id \<mapsto> ttl),
      zs := ((zs d)(lease_key job_id := []))
        (inflight_key (wk_model w) := zadd_list t job_id (zs d (inflight_key (wk_model w))))\<rparr>"

lemma terminal_write_simps [simp]:
  "kv (terminal_write j ps st d) = kv d" "zs (terminal_write j ps st d) = zs d"
  "ss (terminal_write j ps st d) = ss d" "subs (terminal_write j ps st d) = subs d"
  "pubs (terminal_write j ps st d) = pubs d @ [(job_done_channel j, st)]"
  "ttls (terminal_write j ps st d) = (ttls d)(job_key j := Some 3600)"
  "hs (terminal_write j ps st d) = (hs d)(job_key j := put_fields ps (hs d (job_key j)))"
  by (simp_all add: terminal_write_def)

lemma released_simps [simp]:
  "kv (released m j n d) = (kv d)(slots_in_use_key m \<mapsto> Str (show_int n), lease_key j := None)"
  "hs (released m j n d) = (hs d)(lease_key j := [])" "ss (released m j n d) = (ss d)(lease_key j := [])"
  "zs (released m j n d) = (zs d)(inflight_key m := zrem_list j (zs d (inflight_key m)), lease_key j := [])"
  "ttls (released m j n d) = (ttls d)(lease_key j := None)"
  "subs (released m j n d) = subs d" "pubs (released m j n d) = pubs d"
  by (simp_all add: released_def)

lemma leased_simps [simp]:
  "kv (leased w j ttl t d) = (kv d)(lease_key j \<mapsto> Str (wk_id w))"
  "hs (leased w j ttl t d) = (hs d)(lease_key j := [])" "ss (leased w j ttl t d) = (ss d)(lease_key j := [])"
  "zs (leased w j ttl t d) = (zs d)(lease_key j := [],
     inflight_key (wk_model w) := zadd_list t j (zs d (inflight_key (wk_model w))))"
  "ttls (leased w j ttl t d) = (ttls d)(lease_key j \<mapsto> ttl)"
  "subs (leased w j ttl t d) = subs d" "pubs (leased w j ttl t d) = pubs d"
  by (simp_all add: leased_def fun_eq_iff)

lemma alone_publish [simp]:
  "alone (publish j st) d Q = Q (Inr ()) (d\<lparr>pubs := pubs d @ [(job_done_channel j, st)]\<rparr>)"
  by (simp add: publish_def)

lemma alone_set_lease [simp]:
  "alone (set_lease w j ttl) d Q = (\<forall>t \<ge> 0. Q (Inr ()) (leased w j ttl t d))"
  by (simp add: set_lease_def leased_def)

lemma alone_release_slot:
  assumes "counter d (slots_in_use_key (wk_model w)) = Some n" and "in_int64 (n - 1)"
  shows "alone (release_slot w j) d Q = Q (Inr ()) (released (wk_model w) j (n - 1) d)"
  using assms by (simp add: release_slot_def counter_def released_def)

lemma alone_write_terminal:
  assumes "pairs_of vs = Some ps" and "ps \<noteq> []"
  shows "alone (write_terminal j vs opn) d Q = Q (Inr ())
    (d\<lparr>hs := (hs d)(job_key j := put_fields ps (hs d (job_key j))),
       ttls := (ttls d)(job_key j := Some 3600)\<rparr>)"
proof -
  have "vs \<noteq> []" using assms by auto
  with assms show ?thesis by (simp add: write_terminal_def key_exists_def)
qed

lemma alone_fetch_job [simp]: "alone (fetch_job w j) d Q = Q (Inr (Some (hs d (job_key j)))) d"
  by (simp add: fetch_job_def)

lemma json_get_Inl: "json_get j k v = Inl e \<Longrightarrow> e = AttributeError ''object has no attribute get''"
  by (cases j) auto

text \<open>The three ends of a job: each writes its status once, sets the hour, publishes.\<close>

definition completed_fields :: "string \<Rightarrow> json \<Rightarrow> (string \<times> rval) list" where
  "completed_fields ts response = [(''status'', Str (status_value COMPLETED)), (''complete_ts'', Str ts),
     (''response_blob'', GzipJson response)]"

definition failed_fields_of :: "string \<Rightarrow> error_class \<Rightarrow> string \<Rightarrow> int option \<Rightarrow> (string \<times> rval) list" where
  "failed_fields_of ts ec msg http_status =
     [(''status'', Str (status_value FAILED)), (''complete_ts'', Str ts),
      (''error_class'', Str (error_value ec)), (''error_message'', Str (take 500 msg))]
     @ (case http_status of None \<Rightarrow> [] | Some st \<Rightarrow> [(''http_status'', Str (show_int st))])"

definition cancelled_fields :: "string \<Rightarrow> (string \<times> rval) list" where
  "cancelled_fields ts = [(''status'', Str (status_value CANCELLED)), (''complete_ts'', Str ts)]"

lemma alone_mark_completed:
  assumes "\<And>m. Q (Inl (AttributeError m)) d"
    and "\<And>ts. clean ts \<Longrightarrow> Q (Inr ()) (terminal_write j (completed_fields ts response) (status_value COMPLETED) d)"
  shows "alone (mark_completed j rid model caller prio response wait_us backend_us target) d Q"
  using assms
  by (auto simp: mark_completed_def Let_def alone_write_terminal terminal_write_def completed_fields_def
      build_completed_event_def split: sum.splits dest: json_get_Inl)

lemma alone_mark_failed:
  assumes "\<And>ts. clean ts \<Longrightarrow> Q (Inr ()) (terminal_write j (failed_fields_of ts ec msg st) (status_value FAILED) d)"
  shows "alone (mark_failed j rid model caller prio ec msg st) d Q"
  using assms
  by (auto simp: mark_failed_def alone_write_terminal terminal_write_def failed_fields_of_def
      split: option.splits)

lemma alone_mark_cancelled:
  assumes "\<And>ts. clean ts \<Longrightarrow> Q (Inr ()) (terminal_write j (cancelled_fields ts) (status_value CANCELLED) d)"
  shows "alone (mark_cancelled_dispatched j rid model caller prio) d Q"
  using assms
  by (auto simp: mark_cancelled_dispatched_def alone_write_terminal terminal_write_def cancelled_fields_def)

lemma counter_frame [simp]:
  "counter (terminal_write j ps st d) k = counter d k"
  "counter (leased w j ttl t d) (slots_in_use_key m) = counter d (slots_in_use_key m)"
  by (simp_all add: counter_def)

text \<open>
  \<open>finished\<close>: the job has the terminal status \<open>st\<close> for an hour, its subscribers were
  told once, its slot, lease and inflight entry are gone, and no queue changed.
\<close>

definition finished :: "string \<Rightarrow> string \<Rightarrow> int \<Rightarrow> job_status \<Rightarrow> db \<Rightarrow> db \<Rightarrow> bool" where
  "finished model j n st d d' \<longleftrightarrow>
     map_field d' j ''status'' = Some (Str (status_value st)) \<and>
     ttls d' (job_key j) = Some 3600 \<and>
     pubs d' = pubs d @ [(job_done_channel j, status_value st)] \<and>
     counter d' (slots_in_use_key model) = Some (n - 1) \<and>
     kv d' (lease_key j) = None \<and> \<not> zmem j (zs d' (inflight_key model)) \<and>
     (\<forall>m. zs d' (queue_key m) = zs d (queue_key m))"

text \<open>What the outcome of the call to the backend makes of the job.\<close>

definition ended :: "worker \<Rightarrow> string \<Rightarrow> int \<Rightarrow> exn + unit \<Rightarrow> db \<Rightarrow> db \<Rightarrow> bool" where
  "ended w j n res d d' \<longleftrightarrow>
     (res = Inr () \<and> finished (wk_model w) j n COMPLETED d d' \<and>
        (\<exists>response. map_field d' j ''response_blob'' = Some (GzipJson response))) \<or>
     (res = Inr () \<and> finished (wk_model w) j n FAILED d d' \<and>
        (\<exists>e. e \<noteq> CancelledError \<and>
           map_field d' j ''error_class'' = Some (Str (error_value (fst (forward_error e)))) \<and>
           map_field d' j ''error_message'' = Some (Str (take 500 (exn_str e))))) \<or>
     (res = Inl CancelledError \<and> finished (wk_model w) j n CANCELLED d d')"

lemma finished_released:
  assumes "ps = completed_fields ts r \<and> st = COMPLETED \<or> ps = failed_fields_of ts ec msg hst \<and> st = FAILED \<or>
      ps = cancelled_fields ts \<and> st = CANCELLED"
    and "in_int64 (n - 1)"
  shows "finished m j n st d (released m j (n - 1) (terminal_write j ps (status_value st) d))"
  using assms
  by (auto simp: finished_def map_field_def counter_def completed_fields_def failed_fields_of_def
      cancelled_fields_def split: option.splits)

lemma ended_released:
  assumes "in_int64 (n - 1)"
  shows "ended w j n (Inr ()) d (released (wk_model w) j (n - 1)
      (terminal_write j (completed_fields ts r) (status_value COMPLETED) d))"
    and "e \<noteq> CancelledError \<Longrightarrow> ended w j n (Inr ()) d (released (wk_model w) j (n - 1)
      (terminal_write j (failed_fields_of ts (fst (forward_error e)) (exn_str e) hst) (status_value FAILED) d))"
    and "ended w j n (Inl CancelledError) d (released (wk_model w) j (n - 1)
      (terminal_write j (cancelled_fields ts) (status_value CANCELLED) d))"
proof -
  note fin = finished_released [OF _ assms]
  show "ended w j n (Inr ()) d (released (wk_model w) j (n - 1)
      (terminal_write j (completed_fields ts r) (status_value COMPLETED) d))"
    unfolding ended_def
    by (rule disjI1, intro conjI exI [of _ r]) (simp_all add: fin del: status_value.simps, simp add: map_field_def completed_fields_def)
  show "e \<noteq> CancelledError \<Longrightarrow> ended w j n (Inr ()) d (released (wk_model w) j (n - 1)
      (terminal_write j (failed_fields_of ts (fst (forward_error e)) (exn_str e) hst) (status_value FAILED) d))"
    unfolding ended_def
    by (rule disjI2, rule disjI1, intro conjI exI [of _ e]) (simp_all add: fin del: status_value.simps,
      simp_all add: map_field_def failed_fields_of_def split: option.splits)
  show "ended w j n (Inl CancelledError) d (released (wk_model w) j (n - 1)
      (terminal_write j (cancelled_fields ts) (status_value CANCELLED) d))"
    unfolding ended_def by (simp add: fin del: status_value.simps)
qed

lemma alone_forward_and_mark:
  assumes "counter d (slots_in_use_key (wk_model w)) = Some n" and "in_int64 (n - 1)"
    and Q: "\<And>res d'. ended w j n res d d' \<Longrightarrow> Q res d'"
  shows "alone (forward_and_mark cx w j rid model caller prio wait_us payload) d Q"
proof -
  have rel: "alone (release_slot w j) (terminal_write j ps st d) P =
      P (Inr ()) (released (wk_model w) j (n - 1) (terminal_write j ps st d))" for ps st P
    by (rule alone_release_slot) (use assms(1,2) in simp_all)
  have failed: "alone (mark_failed j rid model caller prio (fst (forward_error e)) (exn_str e) hst) d
      (\<lambda>x d. alone (release_slot w j) d (\<lambda>y d. case y of Inl e \<Rightarrow> Q (Inl e) d | Inr _ \<Rightarrow> Q x d))"
    if "e \<noteq> CancelledError" for e hst
    by (rule alone_mark_failed) (simp add: rel del: status_value.simps, rule Q, rule ended_released(2) [OF assms(2) that])
  show ?thesis
    unfolding forward_and_mark_def
    apply (simp, intro allI impI, rule alone_forward)
    subgoal for t x
      by (cases x)
        (auto split: prod.splits simp: rel simp del: status_value.simps exn_str.simps
          intro!: failed alone_mark_completed alone_mark_cancelled Q ended_released assms(2))
    done
qed

lemma alone_dispatch_claimed:
  assumes "counter d (slots_in_use_key (wk_model w)) = Some n" and "in_int64 (n - 1)"
    and "hs d (job_key j) \<noteq> []"
    and "job_priority (job_field (hs d (job_key j)) ''priority'') = Inr pr"
  shows "alone (dispatch_claimed cx w j ttl) d (\<lambda>res d'. ended w j n res d d')"
proof -
  obtain p ps where h: "hs d (job_key j) = p # ps"
    using assms(3) by (cases "hs d (job_key j)") auto
  have frame: "ended w j n res (leased w j ttl t d) d' \<Longrightarrow> ended w j n res d d'" for res t d'
    by (auto simp: ended_def finished_def)
  have "alone (process_job cx w j (p # ps)) (leased w j ttl t d) (\<lambda>res d'. ended w j n res d d')" for t
    unfolding process_job_def
    by (auto simp: Let_def assms(4) [unfolded h] enqueued_at_def build_dispatched_event_def
        intro!: alone_forward_and_mark [OF _ assms(2)] frame assms(1) split: option.splits)
  then show ?thesis by (simp add: dispatch_claimed_def h)
qed


text \<open>A worker and a database in which its job holds a slot.\<close>

definition demo_worker :: worker where
  "demo_worker = \<lparr>wk_model = ''code'', wk_cfg = demo_model, wk_id = ''code-1'',
     wk_forwarder = \<lparr>backend_url = ''http://backend'', started = True\<rparr>\<rparr>"

lemma demo_worker_simps [simp]:
  "wk_model demo_worker = ''code''" "wk_cfg demo_worker = demo_model" "wk_id demo_worker = ''code-1''"
  "wk_forwarder demo_worker = \<lparr>backend_url = ''http://backend'', started = True\<rparr>"
  by (simp_all add: demo_worker_def)

definition demo_job :: "string \<Rightarrow> (string \<times> rval) list" where
  "demo_job prio = [(''model'', Str ''code''), (''status'', Str ''dispatched''), (''priority'', Str prio)]"

definition demo_claimed :: "string \<Rightarrow> db" where
  "demo_claimed prio = empty_db
     \<lparr>kv := (kv empty_db)(slots_in_use_key ''code'' \<mapsto> Str (show_int 1), slots_capacity_key ''code'' \<mapsto> Str (show_int 2)),
      hs := (hs empty_db)(job_key ''j'' := demo_job prio),
      zs := (zs empty_db)(queue_key ''code'' := [ZEntry 5 ''j2''])\<rparr>"

lemma demo_claimed_simps [simp]:
  "counter (demo_claimed prio) (slots_in_use_key ''code'') = Some 1"
  "kv (demo_claimed prio) (slots_capacity_key ''code'') = Some (Str (show_int 2))"
  "hs (demo_claimed prio) (job_key ''j'') = demo_job prio"
  "zs (demo_claimed prio) (queue_key ''code'') = [ZEntry 5 ''j2'']"
  by (simp_all add: demo_claimed_def counter_def in_int64_def)

lemma demo_job_simps [simp]: "demo_job prio \<noteq> []" "job_field (demo_job prio) ''priority'' = prio"
  by (simp_all add: demo_job_def job_field_def)

lemma job_priority_show [simp]: "job_priority (show_int n) = Inr n"
  by (simp add: job_priority_def)


subsection \<open>Claiming\<close>

lemma alone_claim_slot:
  assumes "lua_loaded l" and "counter d (slots_in_use_key m) = Some n"
    and "kv d (slots_capacity_key m) = Some (Str (show_int cap))" and "in_int64 (n + 1)"
  shows "alone (evalsha_claim_slot l (slots_in_use_key m) (slots_capacity_key m) j ts) d Q =
    (if n < cap then Q (Inr 1) (claimed (slots_in_use_key m) (n + 1) j ts d) else Q (Inr 0) d)"
  using assms
  by (auto simp: evalsha_claim_slot_def require_sha_def lua_loaded_def claim_slot_run [OF assms(2-4)])

lemma alone_claim_loop:
  assumes "lua_loaded (lua cx)" and "counter d (slots_in_use_key (wk_model w)) = Some n"
    and "kv d (slots_capacity_key (wk_model w)) = Some (Str (show_int cap))" and "in_int64 (n + 1)"
    and stop: "Q (Inr (Some False)) d" and fuel: "k = 0 \<or> cap \<le> n \<Longrightarrow> Q (Inr None) d"
    and got: "\<And>ts. n < cap \<Longrightarrow> Q (Inr (Some True)) (claimed (slots_in_use_key (wk_model w)) (n + 1) j ts d)"
  shows "alone (claim_loop cx w j k) d Q"
  using fuel
proof (induction k)
  case 0
  then show ?case by simp
next
  case (Suc k)
  have "cap \<le> n \<Longrightarrow> alone (claim_loop cx w j k) d Q" using Suc by simp
  then show ?case
    using stop got
    by (auto simp: alone_claim_slot [OF assms(1-4)] simp del: alone_evalsha)
qed

text \<open>
  A worker claims a slot exactly when one is free: while the counter has reached the
  capacity it goes on waiting and changes nothing, however long it waits; otherwise it claims at
  the first attempt, which raises the counter by one and marks the job dispatched, unless it is
  told to stop first.
\<close>

theorem claim_iff_free:
  assumes "exact_server H view" and "lua_loaded (lua cx)"
    and "counter (view s) (slots_in_use_key (wk_model w)) = Some n"
    and "kv (view s) (slots_capacity_key (wk_model w)) = Some (Str (show_int cap))"
    and "in_int64 (n + 1)" and "0 < k"
  shows "case run H (claim_loop cx w j k) s of (res, s') \<Rightarrow>
    if n < cap then
      (res = Inr (Some True) \<and> counter (view s') (slots_in_use_key (wk_model w)) = Some (n + 1) \<and>
         map_field (view s') j ''status'' = Some (Str ''dispatched'') \<and> zs (view s') = zs (view s)) \<or>
      (res = Inr (Some False) \<and> view s' = view s)
    else (res = Inr None \<or> res = Inr (Some False)) \<and> view s' = view s"
  by (rule alone_sound [OF assms(1)], rule alone_claim_loop [OF assms(2-5)])
    (use assms(5,6) in \<open>auto simp: claimed_def counter_def map_field_def\<close>)

theorem claim_iff_free_witness:
  "case run scripted (claim_loop demo_ctx demo_worker ''j'' 7) (demo_claimed ''3'', []) of (res, s') \<Rightarrow>
    (res = Inr (Some True) \<and> counter (fst s') (slots_in_use_key ''code'') = Some 2 \<and>
       map_field (fst s') ''j'' ''status'' = Some (Str ''dispatched'') \<and> zs (fst s') = zs (demo_claimed ''3'')) \<or>
    (res = Inr (Some False) \<and> fst s' = demo_claimed ''3'')"
  using claim_iff_free [OF scripted.exact_server_axioms, of demo_ctx "(demo_claimed ''3'', [])"
      demo_worker 1 2 7 "''j''"]
  by (simp add: in_int64_def)

text \<open>
  Claim and dispatch are balanced: a job that is taken while a slot is free leaves the
  counter where it was, with a terminal status; so does a job whose hash is gone, for the claim
  writes its fields and so revives it. Only a worker told to stop leaves the database as it was.
\<close>

theorem claim_and_dispatch_balanced:
  assumes "exact_server H view" and "lua_loaded (lua cx)"
    and "counter (view s) (slots_in_use_key (wk_model w)) = Some n"
    and "kv (view s) (slots_capacity_key (wk_model w)) = Some (Str (show_int cap))"
    and "n < cap" and "in_int64 n" and "in_int64 (n + 1)" and "0 < k"
    and "job_priority (job_field (hs (view s) (job_key j)) ''priority'') = Inr pr"
  shows "case run H (wait_for_slot_and_claim cx w j ttl k) s of (res, s') \<Rightarrow>
    (res = Inr (Some ()) \<and> view s' = view s) \<or>
    (\<exists>st \<in> {COMPLETED, FAILED, CANCELLED}. map_field (view s') j ''status'' = Some (Str (status_value st)) \<and>
       counter (view s') (slots_in_use_key (wk_model w)) = Some n \<and>
       ttls (view s') (job_key j) = Some 3600 \<and>
       pubs (view s') = pubs (view s) @ [(job_done_channel j, status_value st)])"
proof -
  let ?P = "\<lambda>d'. \<exists>st \<in> {COMPLETED, FAILED, CANCELLED}. map_field d' j ''status'' = Some (Str (status_value st)) \<and>
       counter d' (slots_in_use_key (wk_model w)) = Some n \<and> ttls d' (job_key j) = Some 3600 \<and>
       pubs d' = pubs (view s) @ [(job_done_channel j, status_value st)]"
  have disp: "alone (dispatch_claimed cx w j ttl) (claimed (slots_in_use_key (wk_model w)) (n + 1) j ts (view s))
      (\<lambda>res d'. ?P d')" for ts
  proof -
    let ?d = "claimed (slots_in_use_key (wk_model w)) (n + 1) j ts (view s)"
    have ends: "alone (dispatch_claimed cx w j ttl) ?d (\<lambda>res d'. ended w j (n + 1) res ?d d')"
      by (rule alone_dispatch_claimed) (use assms(6,7,9) in \<open>auto simp: claimed_def counter_def job_field_def\<close>)
    have "ended w j (n + 1) res ?d d' \<Longrightarrow> ?P d'" for res d'
      by (auto simp: ended_def finished_def claimed_def)
    with ends show ?thesis by (rule alone_mono)
  qed
  show ?thesis
    unfolding wait_for_slot_and_claim_def
    by (rule alone_sound [OF assms(1)], simp, rule alone_claim_loop [OF assms(2-4,7)])
      (use assms(5,8) in \<open>auto intro!: alone_mono [OF disp] split: sum.splits\<close>)
qed

theorem claim_and_dispatch_balanced_witness:
  "case run scripted (wait_for_slot_and_claim demo_ctx demo_worker ''j'' 7 1) (demo_claimed (show_int 3), []) of (res, s') \<Rightarrow>
    (res = Inr (Some ()) \<and> fst s' = demo_claimed (show_int 3)) \<or>
    (\<exists>st \<in> {COMPLETED, FAILED, CANCELLED}. map_field (fst s') ''j'' ''status'' = Some (Str (status_value st)) \<and>
       counter (fst s') (slots_in_use_key ''code'') = Some 1 \<and> ttls (fst s') (job_key ''j'') = Some 3600 \<and>
       pubs (fst s') = pubs (demo_claimed (show_int 3)) @ [(job_done_channel ''j'', status_value st)])"
  using claim_and_dispatch_balanced [OF scripted.exact_server_axioms, of demo_ctx "(demo_claimed (show_int 3), [])"
      demo_worker 1 2 1 "''j''" 3 7]
  by (simp add: in_int64_def)

text \<open>
  A worker that is told to stop while it waits for a slot drops the job it has popped: the
  job is in no queue any more, and its hash still says "queued". (The comment in the code speaks
  of re-queueing it.)
\<close>

theorem stopping_worker_drops_job:
  assumes "zs d (queue_key (wk_model w)) = e # z"
  shows "run scripted (run_worker cx w (Suc k) (Suc (Suc m))) (d, [RBool False, RBool True, RBool True]) =
    (Inr (Some ()), (d\<lparr>zs := (zs d)(queue_key (wk_model w) := z)\<rparr>, []))"
  using assms
  by (simp add: run_andThen run_catch wait_for_slot_and_claim_def pop_job_def stop_is_set_def redis_def
      scripted_def env_reply_def del: env_reply_int)

theorem stopping_worker_drops_job_witness:
  "run scripted (run_worker demo_ctx demo_worker 1 2) (demo_claimed ''3'', [RBool False, RBool True, RBool True]) =
    (Inr (Some ()), ((demo_claimed ''3'')\<lparr>zs := (zs (demo_claimed ''3''))(queue_key ''code'' := [])\<rparr>, []))"
  using stopping_worker_drops_job [of "demo_claimed ''3''" demo_worker "ZEntry 5 ''j2''" "[]" demo_ctx 0 0]
  by (simp add: eval_nat_numeral)

text \<open>
  A job admitted with the JSON value true or false as its priority kills the worker of
  its model: the stored text is no integer, so the dispatch raises after the slot was claimed.
  The slot, the lease and the inflight entry stay, and the job stays "dispatched".
\<close>

theorem boolean_priority_leaks_slot:
  assumes "exact_server H view"
    and "job_field (hs (view s) (job_key j)) ''priority'' = priority_text (JBool b)"
    and "counter (view s) (slots_in_use_key (wk_model w)) = Some n"
  shows "case run H (dispatch_claimed cx w j ttl) s of (res, s') \<Rightarrow>
    res = Inl (ValueError ''invalid literal for int() with base 10'') \<and>
    counter (view s') (slots_in_use_key (wk_model w)) = Some n \<and>
    kv (view s') (lease_key j) = Some (Str (wk_id w)) \<and> zmem j (zs (view s') (inflight_key (wk_model w))) \<and>
    hs (view s') (job_key j) = hs (view s) (job_key j)"
proof (rule alone_sound [OF assms(1)])
  have bad: "job_priority (priority_text (JBool b)) = Inl (ValueError ''invalid literal for int() with base 10'')"
    by (cases b) (simp_all add: job_priority_def py_int_def strip_def lstrip_def py_space_def Let_def
        read_nat_def char_digit_def)
  obtain p ps where h: "hs (view s) (job_key j) = p # ps"
    using assms(2) by (cases "hs (view s) (job_key j)") (auto simp: job_field_def split: if_splits)
  show "alone (dispatch_claimed cx w j ttl) (view s) (\<lambda>res d'.
    res = Inl (ValueError ''invalid literal for int() with base 10'') \<and>
    counter d' (slots_in_use_key (wk_model w)) = Some n \<and>
    kv d' (lease_key j) = Some (Str (wk_id w)) \<and> zmem j (zs d' (inflight_key (wk_model w))) \<and>
    hs d' (job_key j) = hs (view s) (job_key j))"
    using assms(2,3) bad
    by (simp add: dispatch_claimed_def h process_job_def Let_def del: priority_text.simps)
qed

theorem boolean_priority_leaks_slot_witness:
  "case run scripted (dispatch_claimed demo_ctx demo_worker ''j'' 330) (demo_claimed (priority_text (JBool True)), []) of
     (res, s') \<Rightarrow> res = Inl (ValueError ''invalid literal for int() with base 10'') \<and>
       counter (fst s') (slots_in_use_key ''code'') = Some 1 \<and>
       kv (fst s') (lease_key ''j'') = Some (Str ''code-1'') \<and> zmem ''j'' (zs (fst s') (inflight_key ''code'')) \<and>
       hs (fst s') (job_key ''j'') = demo_job (priority_text (JBool True))"
  using boolean_priority_leaks_slot [OF scripted.exact_server_axioms, of
      "(demo_claimed (priority_text (JBool True)), [])" "''j''" True demo_worker 1 demo_ctx 330]
  by (simp del: priority_text.simps)

end
