(* ===== verification/Lease_Watcher.thy ===== *)
theory Lease_Watcher
  imports Dispatcher
begin

text \<open>
  \<open>app/core/lease_watcher.py\<close>: the scan that reclaims jobs whose worker died. A candidate
  is in the inflight set longer than the time of a lease; it is reclaimed when its lease key
  is gone.
\<close>

definition reclaim_write :: "string \<Rightarrow> string \<Rightarrow> unit io" where
  "reclaim_write model job_id =
     andThen iso_now (\<lambda>complete_ts.
     pipeline
       [HSET (job_key job_id)
          [Str ''status'', Str (status_value FAILED), Str ''error_class'', Str (error_value WORKER_CRASH),
           Str ''complete_ts'', Str complete_ts],
        EXPIRE (job_key job_id) 3600,
        DECR (slots_in_use_key model),
        ZREM (inflight_key model) job_id,
        SADD (dlq_key model) job_id])"

definition dispatch_epoch :: "string \<Rightarrow> string \<Rightarrow> int \<Rightarrow> int io" where
  "dispatch_epoch model job_id now =
     andThen (catch_redis (redis (ZSCORE (inflight_key model) job_id)) (return RNil)) (\<lambda>score_raw.
     return (case score_raw of RInt sc \<Rightarrow> sc | _ \<Rightarrow> now - 60000000))"

definition text_or_empty :: "reply \<Rightarrow> string" where
  "text_or_empty r = (case reply_text r of None \<Rightarrow> [] | Some s \<Rightarrow> s)"

text \<open>Caller, request id and priority for the log; any failure gives the defaults.\<close>

definition crash_info :: "string \<Rightarrow> (string \<times> string \<times> int) io" where
  "crash_info job_id =
     catch
       (andThen (redis (HGET (job_key job_id) ''caller'')) (\<lambda>caller_raw.
        andThen (redis (HGET (job_key job_id) ''request_id'')) (\<lambda>req_id_raw.
        andThen (redis (HGET (job_key job_id) ''priority'')) (\<lambda>prio_raw.
        andThen (lift (job_priority (text_or_empty prio_raw))) (\<lambda>prio.
        return (text_or_empty caller_raw, text_or_empty req_id_raw, prio))))))
       (\<lambda>e. if is_exception e then return ([], [], 5) else raise e)"

definition update_dlq_gauge :: "string \<Rightarrow> unit io" where
  "update_dlq_gauge model =
     catch_redis
       (andThen (redis (SCARD (dlq_key model))) (\<lambda>n. update_dlq_depth model (reply_int n)))
       (return ())"

definition after_reclaim :: "string \<Rightarrow> string \<Rightarrow> int \<Rightarrow> unit io" where
  "after_reclaim model job_id lease_age_ms =
     andThen
       (catch_redis
          (andThen (redis (PUBLISH (job_done_channel job_id) (status_value FAILED))) (\<lambda>_. return ()))
          (record_redis_error ''lease_reclaim_publish''))
       (\<lambda>_. andThen (record_worker_crash model) (\<lambda>_.
     andThen (record_failure model (error_value WORKER_CRASH)) (\<lambda>_.
     andThen (crash_info job_id) (\<lambda>(caller, request_id, prio).
     andThen (build_base_event (event_value EV_WORKER_CRASH) job_id request_id model caller (JObj [])
         (JNum prio)) (\<lambda>base.
     andThen (emit (JObj (base @ [(''lease_age_ms'', JNum lease_age_ms)]))) (\<lambda>_.
     update_dlq_gauge model))))))"

definition reclaim_if_orphaned :: "string \<Rightarrow> string \<Rightarrow> int \<Rightarrow> unit io" where
  "reclaim_if_orphaned model job_id now =
     andThen
       (catch_redis
          (andThen (redis (EXISTS (lease_key job_id))) (\<lambda>r. return (Some (reply_int r \<noteq> 0))))
          (andThen (record_redis_error ''lease_exists_check'') (\<lambda>_. return None)))
       (\<lambda>lease_exists.
          if lease_exists \<noteq> Some False then return ()
          else
            andThen (dispatch_epoch model job_id now) (\<lambda>epoch.
            let lease_age_ms = int_ms (now - epoch) in
            andThen
              (catch_redis
                 (andThen (reclaim_write model job_id) (\<lambda>_. return True))
                 (andThen (record_redis_error ''lease_reclaim_write'') (\<lambda>_. return False)))
              (\<lambda>written. if written then after_reclaim model job_id lease_age_ms else return ())))"

primrec reclaim_all :: "string \<Rightarrow> string list \<Rightarrow> int \<Rightarrow> unit io" where
  "reclaim_all model [] now = return ()"
| "reclaim_all model (j # js) now =
     andThen (reclaim_if_orphaned model j now) (\<lambda>_. reclaim_all model js now)"

definition scan_model :: "ctx \<Rightarrow> string \<Rightarrow> unit io" where
  "scan_model cx model =
     andThen (lift (model_config_for (config cx) model)) (\<lambda>mc.
     andThen (read_env Now) (\<lambda>now.
     let cutoff = now - lease_ttl mc * 1000000 in
     andThen
       (catch_redis
          (andThen (redis (ZRANGEBYSCORE (inflight_key model) 0 cutoff)) (\<lambda>r.
           return (case r of RMembers ms \<Rightarrow> ms | _ \<Rightarrow> [])))
          (andThen (record_redis_error ''zrangebyscore_inflight'') (\<lambda>_. return [])))
       (\<lambda>candidates. reclaim_all model candidates now)))"

primrec for_models :: "(string \<Rightarrow> unit io) \<Rightarrow> string list \<Rightarrow> unit io" where
  "for_models f [] = return ()"
| "for_models f (m # ms) = andThen (f m) (\<lambda>_. for_models f ms)"

definition scan_all_models :: "ctx \<Rightarrow> unit io" where
  "scan_all_models cx = for_models (scan_model cx) (all_model_names (config cx))"

text \<open>A periodic task: its body, then the sleep, until the flag is set.\<close>

primrec periodic :: "unit io \<Rightarrow> string \<Rightarrow> int \<Rightarrow> nat \<Rightarrow> unit option io" where
  "periodic body operation interval 0 = return None"
| "periodic body operation interval (Suc n) =
     andThen stop_is_set (\<lambda>stop.
     if stop then return (Some ())
     else
       andThen (catch body (\<lambda>e. if is_exception e then record_redis_error operation else raise e)) (\<lambda>_.
       andThen (sleep (interval * 1000000)) (\<lambda>_. periodic body operation interval n)))"

definition run_watcher :: "ctx \<Rightarrow> nat \<Rightarrow> unit option io" where
  "run_watcher cx n =
     periodic (scan_all_models cx) ''lease_watcher_scan''
       (lease_watcher_interval_seconds (scheduler (config cx))) n"

subsection \<open>What a reclaim does\<close>

definition crash_fields :: "string \<Rightarrow> (string \<times> rval) list" where
  "crash_fields ts = [(''status'', Str (status_value FAILED)),
     (''error_class'', Str (error_value WORKER_CRASH)), (''complete_ts'', Str ts)]"

definition reclaimed :: "string \<Rightarrow> string \<Rightarrow> int \<Rightarrow> string \<Rightarrow> db \<Rightarrow> db" where
  "reclaimed model job_id n ts d =
     d\<lparr>hs := (hs d)(job_key job_id := put_fields (crash_fields ts) (hs d (job_key job_id))),
       ttls := (ttls d)(job_key job_id \<mapsto> 3600),
       kv := (kv d)(slots_in_use_key model \<mapsto> Str (show_int n)),
       zs := (zs d)(inflight_key model := zrem_list job_id (zs d (inflight_key model))),
       ss := (ss d)(dlq_key model := (if job_id \<in> set (ss d (dlq_key model)) then ss d (dlq_key model)
                                     else job_id # ss d (dlq_key model))),
       pubs := pubs d @ [(job_done_channel job_id, status_value FAILED)]\<rparr>"

lemma reclaimed_simps [simp]:
  "kv (reclaimed m j n ts d) = (kv d)(slots_in_use_key m \<mapsto> Str (show_int n))"
  "hs (reclaimed m j n ts d) = (hs d)(job_key j := put_fields (crash_fields ts) (hs d (job_key j)))"
  "zs (reclaimed m j n ts d) = (zs d)(inflight_key m := zrem_list j (zs d (inflight_key m)))"
  "ttls (reclaimed m j n ts d) = (ttls d)(job_key j \<mapsto> 3600)"
  "pubs (reclaimed m j n ts d) = pubs d @ [(job_done_channel j, status_value FAILED)]"
  "ss (reclaimed m j n ts d) = (ss d)(dlq_key m := (if j \<in> set (ss d (dlq_key m)) then ss d (dlq_key m)
                                     else j # ss d (dlq_key m)))"
  "subs (reclaimed m j n ts d) = subs d"
  by (simp_all add: reclaimed_def)

lemma alone_crash_info: "(\<And>x. Q (Inr x) d) \<Longrightarrow> alone (crash_info j) d Q"
proof -
  assume Q: "\<And>x. Q (Inr x) d"
  have e: "job_priority s = Inl e \<Longrightarrow> is_exception e" for s e
    by (auto simp: job_priority_def is_exception_def split: if_splits option.splits)
  have c: "alone (if is_exception e then return ([], [], 5) else raise e) d Q" if "is_exception e" for e
    using that Q by simp
  show ?thesis
    unfolding crash_info_def using Q
    by (auto split: option.splits sum.splits dest!: e simp: c)
qed

lemma alone_after_reclaim:
  assumes "Q (Inr ()) (d\<lparr>pubs := pubs d @ [(job_done_channel j, status_value FAILED)]\<rparr>)"
  shows "alone (after_reclaim m j age) d Q"
  using assms
  by (auto simp: after_reclaim_def update_dlq_gauge_def intro!: alone_crash_info simp del: status_value.simps)

lemma alone_reclaim:
  assumes "\<not> key_exists d (lease_key j)"
    and "counter d (slots_in_use_key m) = Some n" and "in_int64 (n - 1)"
    and "\<And>ts. clean ts \<Longrightarrow> Q (Inr ()) (reclaimed m j (n - 1) ts d)"
  shows "alone (reclaim_if_orphaned m j now) d Q"
proof -
  have ep: "alone (dispatch_epoch m j now) d R = R (Inr (case zscore_list j (zs d (inflight_key m)) of
      Some sc \<Rightarrow> sc | None \<Rightarrow> now - 60000000)) d" for R
    by (simp add: dispatch_epoch_def split: option.splits)
  have w: "alone (reclaim_write m j) d R = (\<forall>ts. clean ts \<longrightarrow> R (Inr ())
      ((reclaimed m j (n - 1) ts d)\<lparr>pubs := pubs d\<rparr>))" for R
    using assms(2,3)
    by (simp add: reclaim_write_def reclaimed_def counter_def key_exists_def crash_fields_def)
  have eq: "(reclaimed m j (n - 1) ts d)\<lparr>pubs := pubs d @ [(job_done_channel j, status_value FAILED)]\<rparr> =
      reclaimed m j (n - 1) ts d" for ts
    by (simp add: reclaimed_def)
  then show ?thesis
    using assms(1,4)
    by (auto simp: reclaim_if_orphaned_def ep w eq Let_def simp del: status_value.simps
        intro!: alone_after_reclaim)
qed

lemma alone_reclaim_live:
  assumes "key_exists d (lease_key j)"
  shows "alone (reclaim_if_orphaned m j now) d Q = Q (Inr ()) d"
  using assms by (simp add: reclaim_if_orphaned_def)

text \<open>
  An orphan is reclaimed: the job fails with the class "worker_crash", keeps that status an
  hour, its slot and inflight entry are given back, it joins the dead-letter set, and its
  subscribers are told. Nothing else in the database changes.
\<close>

theorem orphan_is_reclaimed:
  assumes "exact_server H view"
    and "\<not> key_exists (view s) (lease_key j)"
    and "counter (view s) (slots_in_use_key m) = Some n" and "in_int64 (n - 1)"
  shows "case run H (reclaim_if_orphaned m j now) s of (res, s') \<Rightarrow>
    res = Inr () \<and> (\<exists>ts. view s' = reclaimed m j (n - 1) ts (view s))"
  by (rule alone_sound [OF assms(1)], rule alone_reclaim [OF assms(2-4)]) auto

theorem orphan_is_reclaimed_witness:
  "case run scripted (reclaim_if_orphaned ''code'' ''j'' 100) (demo_claimed ''3'', []) of (res, s') \<Rightarrow>
    res = Inr () \<and> (\<exists>ts. fst s' = reclaimed ''code'' ''j'' 0 ts (demo_claimed ''3''))"
  using orphan_is_reclaimed [OF scripted.exact_server_axioms, of "(demo_claimed ''3'', [])" "''j''" "''code''" 1 100]
  by (simp add: demo_claimed_def key_exists_def in_int64_def counter_def)

definition orphans :: "db \<Rightarrow> string list \<Rightarrow> string list" where
  "orphans d js = filter (\<lambda>j. \<not> key_exists d (lease_key j)) js"

lemma key_exists_reclaimed [simp]:
  "key_exists (reclaimed m j n ts d) (lease_key i) = key_exists d (lease_key i)"
  by (simp add: key_exists_def)

lemma orphans_simps [simp]:
  "orphans d [] = []" "orphans d (j # js) = (if key_exists d (lease_key j) then orphans d js else j # orphans d js)"
  "orphans (reclaimed m j n ts d) js = orphans d js"
  by (simp_all add: orphans_def)

lemma set_orphans: "set (orphans d js) \<subseteq> set js"
  by (auto simp: orphans_def)

lemma length_orphans: "length (orphans d js) \<le> length js"
  by (simp add: orphans_def)

definition all_reclaimed :: "string \<Rightarrow> string list \<Rightarrow> int \<Rightarrow> db \<Rightarrow> db \<Rightarrow> bool" where
  "all_reclaimed m js n d d' \<longleftrightarrow>
     zs d' (inflight_key m) = filter (\<lambda>e. zmember e \<notin> set (orphans d js)) (zs d (inflight_key m)) \<and>
     counter d' (slots_in_use_key m) = Some (n - int (length (orphans d js))) \<and>
     (\<forall>j. key_exists d' (lease_key j) = key_exists d (lease_key j)) \<and>
     (\<forall>j \<in> set (orphans d js). map_field d' j ''status'' = Some (Str (status_value FAILED)) \<and>
        j \<in> set (ss d' (dlq_key m)))"

lemma all_reclaimed_step:
  assumes "\<not> key_exists d (lease_key j)" and "j \<notin> set js"
    and "all_reclaimed m js (n - 1) (reclaimed m j (n - 1) ts d) d'"
    and "map_field d' j ''status'' = Some (Str (status_value FAILED))" and "j \<in> set (ss d' (dlq_key m))"
  shows "all_reclaimed m (j # js) n d d'"
  using assms by (auto simp: all_reclaimed_def zrem_list_def intro: filter_cong)

text \<open>Of sorted sets and strings a scan of a model changes its inflight set and its slot counter.\<close>

definition scan_frame :: "string \<Rightarrow> db \<Rightarrow> db \<Rightarrow> bool" where
  "scan_frame m d d' \<longleftrightarrow>
     (\<forall>k. k \<noteq> inflight_key m \<longrightarrow> zs d' k = zs d k) \<and> (\<forall>k. k \<noteq> slots_in_use_key m \<longrightarrow> kv d' k = kv d k)"

lemma alone_reclaim_all:
  assumes "distinct js" and "counter d (slots_in_use_key m) = Some n"
    and "\<And>i. 0 \<le> i \<Longrightarrow> i \<le> int (length js) \<Longrightarrow> in_int64 (n - i)"
  shows "alone (reclaim_all m js now) d (\<lambda>res d'. res = Inr () \<and> all_reclaimed m js n d d' \<and>
    (\<forall>j. j \<notin> set js \<longrightarrow> hs d' (job_key j) = hs d (job_key j)) \<and> set (ss d (dlq_key m)) \<subseteq> set (ss d' (dlq_key m)) \<and>
    scan_frame m d d')"
  using assms
proof (induction js arbitrary: d n)
  case Nil
  then show ?case by (simp add: all_reclaimed_def scan_frame_def)
next
  case (Cons j js)
  show ?case
  proof (cases "key_exists d (lease_key j)")
    case True
    have "alone (reclaim_all m js now) d (\<lambda>res d'. res = Inr () \<and> all_reclaimed m js n d d' \<and>
      (\<forall>j. j \<notin> set js \<longrightarrow> hs d' (job_key j) = hs d (job_key j)) \<and> set (ss d (dlq_key m)) \<subseteq> set (ss d' (dlq_key m)) \<and>
    scan_frame m d d')"
      by (rule Cons.IH) (use Cons.prems in auto)
    then show ?thesis
      using True by (auto simp: alone_reclaim_live all_reclaimed_def elim!: alone_mono)
  next
    case False
    have b: "in_int64 (n - 1)" using Cons.prems(3) [of 1] by simp
    have c: "counter (reclaimed m j (n - 1) ts d) (slots_in_use_key m) = Some (n - 1)" for ts
      using b by (simp add: counter_def)
    have in64: "\<And>i. 0 \<le> i \<Longrightarrow> i \<le> int (length js) \<Longrightarrow> in_int64 (n - 1 - i)"
      using Cons.prems(3) [of "1 + i" for i] by (simp add: algebra_simps)
    have "alone (reclaim_all m js now) (reclaimed m j (n - 1) ts d) (\<lambda>res d'. res = Inr () \<and>
        all_reclaimed m (j # js) n d d' \<and>
        (\<forall>i. i \<notin> set (j # js) \<longrightarrow> hs d' (job_key i) = hs d (job_key i)) \<and>
        set (ss d (dlq_key m)) \<subseteq> set (ss d' (dlq_key m)) \<and>
    scan_frame m d d')" for ts
      by (rule alone_mono [OF Cons.IH [OF _ c in64]])
        (use Cons.prems(1) False in \<open>auto intro!: all_reclaimed_step simp: map_field_def crash_fields_def scan_frame_def split: if_splits\<close>)
    then show ?thesis by (simp, intro alone_reclaim [OF False Cons.prems(2) b]) simp
  qed
qed


definition demo_crashed :: db where
  "demo_crashed = (demo_claimed ''3'')
     \<lparr>zs := (zs (demo_claimed ''3''))(inflight_key ''code'' := [ZEntry 7 ''j''])\<rparr>"


text \<open>
  The slot of a job can be given back twice: when the lease of a slow job runs out, the
  watcher gives its slot back, and when the worker then finishes it gives it back again, so the
  counter ends two below where the one claim had put it, below zero when it was alone.
\<close>

theorem slot_released_twice:
  assumes "exact_server H view"
    and "\<not> key_exists (view s) (lease_key j)"
    and "counter (view s) (slots_in_use_key (wk_model w)) = Some n" and "in_int64 (n - 1)" and "in_int64 (n - 2)"
  shows "case run H (reclaim_if_orphaned (wk_model w) j now) s of (res, s1) \<Rightarrow>
     case run H (release_slot w j) s1 of (res, s2) \<Rightarrow>
       counter (view s2) (slots_in_use_key (wk_model w)) = Some (n - 2)"
proof -
  let ?k = "slots_in_use_key (wk_model w)"
  have "alone (reclaim_if_orphaned (wk_model w) j now) (view s) (\<lambda>_ d. counter d ?k = Some (n - 1))"
    by (rule alone_reclaim [OF assms(2-4)]) (use assms(4) in \<open>simp add: counter_def\<close>)
  from alone_sound [OF assms(1) this] obtain s1 res
    where r: "run H (reclaim_if_orphaned (wk_model w) j now) s = (res, s1)" and c: "counter (view s1) ?k = Some (n - 1)"
    by (auto split: prod.splits)
  have "alone (release_slot w j) (view s1) (\<lambda>_ d. counter d ?k = Some (n - 2))"
    using assms(5) by (subst alone_release_slot [OF c]) (simp_all add: counter_def)
  from alone_sound [OF assms(1) this] r show ?thesis by (auto split: prod.splits)
qed

theorem slot_released_twice_witness:
  "case run scripted (reclaim_if_orphaned ''code'' ''j'' 100) (demo_claimed ''3'', []) of (res, s1) \<Rightarrow>
     case run scripted (release_slot demo_worker ''j'') s1 of (res, s2) \<Rightarrow>
       counter (fst s2) (slots_in_use_key ''code'') = Some (-1)"
  using slot_released_twice [OF scripted.exact_server_axioms, of "(demo_claimed ''3'', [])" "''j''" demo_worker 1 100]
  by (simp add: demo_claimed_def key_exists_def in_int64_def counter_def)

end
