(* ===== verification/Integrity.thy ===== *)
theory Integrity
  imports Lease_Watcher
begin

text \<open>
  \<open>app/core/integrity.py\<close>: the task that compares the slot counter of each model with its
  inflight set and lowers a counter that has drifted up.
\<close>

definition bytes_int :: "reply \<Rightarrow> exn + int" where
  "bytes_int r =
     (case reply_text r of
        None \<Rightarrow> Inr 0
      | Some s \<Rightarrow>
          (if s = [] then Inr 0
           else case py_int s of None \<Rightarrow> Inl (ValueError ''invalid literal for int() with base 10'')
                | Some n \<Rightarrow> Inr n))"

definition read_counts :: "string \<Rightarrow> (reply \<times> reply) option io" where
  "read_counts model =
     catch_redis
       (andThen (redis (ZCARD (inflight_key model))) (\<lambda>actual_raw.
        andThen (redis (GET (slots_in_use_key model))) (\<lambda>recorded_raw.
        return (Some (actual_raw, recorded_raw)))))
       (andThen (record_redis_error ''integrity_read'') (\<lambda>_. return None))"

definition correct_drift :: "string \<Rightarrow> int \<Rightarrow> int \<Rightarrow> bool io" where
  "correct_drift model recorded actual =
     (if recorded > actual + 2 then
        andThen
          (catch_redis
             (andThen (redis (SET (slots_in_use_key model) (Str (show_int actual)) None False))
               (\<lambda>_. return True))
             (andThen (record_redis_error ''integrity_write'') (\<lambda>_. return False)))
          (\<lambda>written.
             if \<not> written then return False
             else
               andThen (record_redis_error ''drift_correction'') (\<lambda>_.
               andThen (emit (JObj [(''event'', JStr ''slot_drift_corrected''), (''model'', JStr model),
                   (''recorded'', JNum recorded), (''actual'', JNum actual)])) (\<lambda>_.
               return True)))
      else return True)"

definition update_gauges :: "ctx \<Rightarrow> string \<Rightarrow> int \<Rightarrow> unit io" where
  "update_gauges cx model actual =
     andThen (lift (model_config_for (config cx) model)) (\<lambda>mc.
     andThen (update_slot_gauges model actual (max_concurrency mc)) (\<lambda>_.
     catch_redis
       (andThen (redis (ZCARD (queue_key model))) (\<lambda>depth. update_queue_depth model (reply_int depth)))
       (return ())))"

definition check_model :: "ctx \<Rightarrow> string \<Rightarrow> unit io" where
  "check_model cx model =
     andThen (read_counts model) (\<lambda>counts.
     case counts of
       None \<Rightarrow> return ()
     | Some (actual_raw, recorded_raw) \<Rightarrow>
         andThen (lift (bytes_int recorded_raw)) (\<lambda>recorded.
         let actual = reply_int actual_raw in
         andThen (correct_drift model recorded actual) (\<lambda>go_on.
         if go_on then update_gauges cx model actual else return ())))"

definition check_all_models :: "ctx \<Rightarrow> unit io" where
  "check_all_models cx = for_models (check_model cx) (all_model_names (config cx))"

definition run_integrity :: "ctx \<Rightarrow> nat \<Rightarrow> unit option io" where
  "run_integrity cx n =
     periodic (check_all_models cx) ''integrity_check''
       (integrity_check_interval_seconds (scheduler (config cx))) n"

lemma bytes_int_show [simp]: "bytes_int (RVal (Str (show_int n))) = Inr n"
  by (simp add: bytes_int_def)

lemma bytes_int_counter:
  "counter d k = Some n \<Longrightarrow> bytes_int (case kv d k of None \<Rightarrow> RNil | Some v \<Rightarrow> RVal v) = Inr n"
proof (cases "kv d k")
  case None
  then show "counter d k = Some n \<Longrightarrow> ?thesis" by (simp add: counter_def bytes_int_def)
next
  case (Some v)
  assume "counter d k = Some n"
  with Some have "v = Str (show_int n)"
    by (cases v) (auto simp: counter_def redis_int.simps(2) split: option.splits if_splits)
  with Some show ?thesis by simp
qed

lemma alone_check_model:
  assumes "model_config_for (config cx) m = Inr mc" and "counter d (slots_in_use_key m) = Some n"
  shows "alone (check_model cx m) d Q =
    Q (Inr ()) (let actual = int (length (zs d (inflight_key m))) in
      if n > actual + 2
      then (del_key (slots_in_use_key m) d)\<lparr>kv := (kv d)(slots_in_use_key m \<mapsto> Str (show_int actual)),
             ttls := (ttls d)(slots_in_use_key m := None)\<rparr>
      else d)"
  using assms bytes_int_counter [OF assms(2)]
  by (simp add: check_model_def read_counts_def correct_drift_def update_gauges_def Let_def)

text \<open>
  C30. Reconciliation of a model: the counter is set to the size of the inflight set when it is
  more than two above it, and nothing else changes; otherwise nothing changes at all. So a
  counter is never raised, and one that has fallen below the truth, or below zero, stays.
\<close>

theorem check_model_lowers_drift:
  assumes "exact_server H view" and "model_config_for (config cx) m = Inr mc"
    and "counter (view s) (slots_in_use_key m) = Some n"
    and "in_int64 (int (length (zs (view s) (inflight_key m))))"
  shows "case run H (check_model cx m) s of (res, s') \<Rightarrow>
    let actual = int (length (zs (view s) (inflight_key m))) in
    res = Inr () \<and>
    counter (view s') (slots_in_use_key m) = Some (if n > actual + 2 then actual else n) \<and>
    (n \<le> actual + 2 \<longrightarrow> view s' = view s) \<and>
    (\<forall>k. k \<noteq> slots_in_use_key m \<longrightarrow> kv (view s') k = kv (view s) k \<and> zs (view s') k = zs (view s) k \<and>
       hs (view s') k = hs (view s) k)"
  by (rule alone_sound [OF assms(1)], subst alone_check_model [OF assms(2,3)])
    (use assms(3,4) in \<open>simp add: Let_def counter_def\<close>)

definition demo_drift :: db where
  "demo_drift = empty_db\<lparr>kv := (kv empty_db)(slots_in_use_key ''code'' \<mapsto> Str (show_int 5)),
     zs := (zs empty_db)(inflight_key ''code'' := [ZEntry 1 ''j''])\<rparr>"

theorem check_model_lowers_drift_witness:
  "case run scripted (check_model demo_ctx ''code'') (demo_drift, []) of (res, s') \<Rightarrow>
    res = Inr () \<and> counter (fst s') (slots_in_use_key ''code'') = Some 1 \<and>
    (\<forall>k. k \<noteq> slots_in_use_key ''code'' \<longrightarrow> kv (fst s') k = kv demo_drift k \<and> zs (fst s') k = zs demo_drift k \<and>
       hs (fst s') k = hs demo_drift k)"
proof -
  have "counter demo_drift (slots_in_use_key ''code'') = Some 5"
    "length (zs demo_drift (inflight_key ''code'')) = 1"
    by (simp_all add: demo_drift_def counter_def in_int64_def)
  then show ?thesis
    using check_model_lowers_drift [OF scripted.exact_server_axioms, of demo_ctx "''code''" demo_model
        "(demo_drift, [])" 5]
    by (simp add: in_int64_def Let_def case_prod_beta)
qed

end
