(* ===== verification/Job_Store.thy ===== *)
theory Job_Store
  imports Integrity
begin

text \<open>
  \<open>app/storage/job_store.py\<close>: the wrapper for job hashes. \<open>decode()\<close> of compressed bytes
  raises, because a gzip stream never is UTF-8: its second byte is 0x8b.
\<close>

definition JOB_TERMINAL_TTL :: int where
  "JOB_TERMINAL_TTL = 3600"

text \<open>Text a client reads back: the text of JSON is a field of its own kind.\<close>

datatype decoded = Text string | DumpedJson json

fun decode :: "rval \<Rightarrow> exn + decoded" where
  "decode (Str s) = Inr (Text s)"
| "decode (JsonText j) = Inr (DumpedJson j)"
| "decode (GzipJson _) = Inl (ValueError ''utf-8 codec can not decode byte 0x8b in position 1'')"

fun decode_all :: "(string \<times> rval) list \<Rightarrow> exn + (string \<times> decoded) list" where
  "decode_all [] = Inr []"
| "decode_all ((k, v) # h) =
     (case decode v of Inl e \<Rightarrow> Inl e
      | Inr t \<Rightarrow> (case decode_all h of Inl e \<Rightarrow> Inl e | Inr ts \<Rightarrow> Inr ((k, t) # ts)))"

definition get_all :: "string \<Rightarrow> (string \<times> decoded) list option io" where
  "get_all job_id =
     andThen (redis (HGETALL (job_key job_id))) (\<lambda>data.
     if reply_pairs data = [] then return None
     else andThen (lift (decode_all (reply_pairs data))) (\<lambda>h. return (Some h)))"

definition get_field :: "string \<Rightarrow> string \<Rightarrow> decoded option io" where
  "get_field job_id field =
     andThen (redis (HGET (job_key job_id) field)) (\<lambda>r.
     case r of RVal v \<Rightarrow> andThen (lift (decode v)) (\<lambda>t. return (Some t)) | _ \<Rightarrow> return None)"

fun flat :: "(string \<times> rval) list \<Rightarrow> rval list" where
  "flat [] = []"
| "flat ((f, v) # ps) = Str f # v # flat ps"

definition set_fields :: "string \<Rightarrow> (string \<times> string) list \<Rightarrow> unit io" where
  "set_fields job_id fvs =
     (if fvs = [] then return ()
      else andThen (redis (HSET (job_key job_id) (flat (map (\<lambda>(k, v). (k, Str v)) fvs)))) (\<lambda>_.
           return ()))"

definition mark_terminal ::
  "string \<Rightarrow> job_status \<Rightarrow> string option \<Rightarrow> (string \<times> string) list \<Rightarrow> unit io" where
  "mark_terminal job_id status complete_ts extra_fields =
     andThen (case key_given complete_ts of Some ts \<Rightarrow> return ts | None \<Rightarrow> iso_now) (\<lambda>ts.
     let mapping = fold (\<lambda>(k, v). dict_put k (Str v)) extra_fields
           [(''status'', Str (status_value status)), (''complete_ts'', Str ts)] in
     pipeline [HSET (job_key job_id) (flat mapping), EXPIRE (job_key job_id) JOB_TERMINAL_TTL])"

definition store_response_blob :: "string \<Rightarrow> json \<Rightarrow> unit io" where
  "store_response_blob job_id response =
     andThen (redis (HSET (job_key job_id) [Str ''response_blob'', GzipJson response])) (\<lambda>_. return ())"

text \<open>\<open>json.loads(gzip.decompress(raw))\<close>, None when either raises.\<close>

fun gunzip_json :: "reply \<Rightarrow> json option" where
  "gunzip_json (RVal (GzipJson j)) = Some j"
| "gunzip_json _ = None"

definition load_response_blob :: "string \<Rightarrow> json option io" where
  "load_response_blob job_id =
     andThen (redis (HGET (job_key job_id) ''response_blob'')) (\<lambda>raw. return (gunzip_json raw))"

definition exists_job :: "string \<Rightarrow> bool io" where
  "exists_job job_id =
     andThen (redis (EXISTS (job_key job_id))) (\<lambda>r. return (reply_int r \<noteq> 0))"

lemma pairs_of_flat_rval: "pairs_of (flat ps) = Some ps"
  by (induction ps rule: flat.induct) auto

lemma flat_Nil [simp]: "flat ps = [] \<longleftrightarrow> ps = []"
  by (cases ps rule: flat.cases) auto

lemma map_of_put_fields: "map_of (put_fields ps h) f = (case map_of (rev ps) f of Some v \<Rightarrow> Some v | None \<Rightarrow> map_of h f)"
proof (induction ps arbitrary: h)
  case Nil
  then show ?case by simp
next
  case (Cons p ps)
  obtain g v where "p = (g, v)" by (cases p)
  with Cons show ?case by (auto simp: map_add_def split: option.splits)
qed

text \<open>
  A response stored for a job is read back as it was, whatever other fields are written to
  the job in between by \<open>set_fields\<close> (under another name) or \<open>mark_terminal\<close>.
\<close>

theorem response_roundtrip:
  assumes "exact_server H view" and "\<forall>(f, v) \<in> set fvs. f \<noteq> ''response_blob''"
  shows "case run H (andThen (store_response_blob j response) (\<lambda>_.
      andThen (set_fields j fvs) (\<lambda>_. load_response_blob j))) s of (res, s') \<Rightarrow> res = Inr (Some response)"
proof (rule alone_sound [OF assms(1)])
  have "map_of (rev (map (\<lambda>(k, v). (k, Str v)) fvs)) ''response_blob'' = None"
    using assms(2) by (auto simp: map_of_eq_None_iff)
  then show "alone (andThen (store_response_blob j response) (\<lambda>_.
      andThen (set_fields j fvs) (\<lambda>_. load_response_blob j))) (view s) (\<lambda>res _. res = Inr (Some response))"
    by (simp add: store_response_blob_def set_fields_def load_response_blob_def pairs_of_flat_rval
        map_of_put_fields)
qed

theorem response_roundtrip_witness:
  "case run scripted (andThen (store_response_blob ''j'' (JNum 7)) (\<lambda>_.
      andThen (set_fields ''j'' [(''status'', ''completed'')]) (\<lambda>_. load_response_blob ''j''))) (empty_db, [])
   of (res, s') \<Rightarrow> res = Inr (Some (JNum 7))"
  by (rule response_roundtrip [OF scripted.exact_server_axioms]) simp

lemma decode_all_gzip: "(f, GzipJson r) \<in> set h \<Longrightarrow> \<exists>m. decode_all h = Inl (ValueError m)"
proof (induction h)
  case Nil
  then show ?case by simp
next
  case (Cons p h)
  obtain k v where p: "p = (k, v)" by (cases p)
  show ?case
  proof (cases v)
    case (GzipJson x)
    with p show ?thesis by simp
  next
    case (Str x)
    with Cons p show ?thesis by auto
  next
    case (JsonText x)
    with Cons p show ?thesis by auto
  qed
qed

text \<open>
  \<open>get_all\<close> fails on every job with a stored response: it decodes each field as
  UTF-8, and the compressed response is not.
\<close>

theorem get_all_fails_on_completed:
  assumes "exact_server H view" and "map_field (view s) j ''response_blob'' = Some (GzipJson r)"
  shows "case run H (get_all j) s of (res, s') \<Rightarrow> (\<exists>m. res = Inl (ValueError m)) \<and> view s' = view s"
proof (rule alone_sound [OF assms(1)])
  have "(''response_blob'', GzipJson r) \<in> set (hs (view s) (job_key j))"
    using assms(2) by (auto simp: map_field_def dest: map_of_SomeD)
  then have "hs (view s) (job_key j) \<noteq> []" "\<exists>m. decode_all (hs (view s) (job_key j)) = Inl (ValueError m)"
    using decode_all_gzip by auto
  then show "alone (get_all j) (view s) (\<lambda>res d'. (\<exists>m. res = Inl (ValueError m)) \<and> d' = view s)"
    by (auto simp: get_all_def)
qed

theorem get_all_fails_on_completed_witness:
  "case run scripted (get_all ''j'') (empty_db\<lparr>hs := (hs empty_db)(job_key ''j'' :=
      completed_fields ''t'' (JNum 7))\<rparr>, []) of (res, s') \<Rightarrow> (\<exists>m. res = Inl (ValueError m)) \<and>
    fst s' = empty_db\<lparr>hs := (hs empty_db)(job_key ''j'' := completed_fields ''t'' (JNum 7))\<rparr>"
  using get_all_fails_on_completed [OF scripted.exact_server_axioms, of "(empty_db\<lparr>hs := (hs empty_db)(job_key ''j'' :=
      completed_fields ''t'' (JNum 7))\<rparr>, [])" "''j''" "JNum 7"]
  by (simp add: map_field_def completed_fields_def)

end
