(* ===== verification/Routes.thy ===== *)
theory Routes
  imports Job_Store
begin

text \<open>
  \<open>app/api/routes.py\<close> and the response models of \<open>app/api/schemas.py\<close>: the HTTP
  endpoints. Parsing and validating a request body is done by FastAPI and pydantic; a
  handler starts from the parsed body and from \<open>body.model_dump(exclude_none=True)\<close>, which
  comes with it.
\<close>

record http_reply =
  hr_status :: int
  hr_headers :: "(string \<times> string) list"
  hr_content :: json

record chat_request =
  cq_model :: string
  cq_metadata :: json
  cq_dump :: json
  cq_submit_async :: "string option"
  cq_caller :: "string option"
  cq_idempotency_key :: "string option"
  cq_async :: bool

record submit_request =
  sq_model :: string
  sq_priority :: "int option"
  sq_metadata :: json
  sq_dump :: json
  sq_caller :: "string option"
  sq_idempotency_key :: "string option"

record submit_response =
  sr_job_id :: string
  sr_status :: string
  sr_position :: "int option"

record job_status_response =
  js_job_id :: string
  js_status :: string
  js_model :: "string option"
  js_priority :: int
  js_enqueue_ts :: "string option"
  js_dispatch_ts :: "string option"
  js_complete_ts :: "string option"
  js_wait_ms :: "int option"
  js_runtime_ms :: "int option"
  js_error_class :: "string option"
  js_error_message :: "string option"
  js_http_status :: "int option"
  js_result :: "json option"

record cancel_response =
  cr_job_id :: string
  cr_status :: string

record queue_snapshot =
  qs_depth :: int
  qs_in_use :: int
  qs_capacity :: int
  qs_oldest_ms :: "int option"

record health_response =
  he_status :: string
  he_redis :: string
  he_litellm :: string
  he_workers :: "(string \<times> bool) list"

subsection \<open>Helpers\<close>

definition nonempty_or :: "string \<Rightarrow> string option \<Rightarrow> string" where
  "nonempty_or dflt v = (case v of None \<Rightarrow> dflt | Some s \<Rightarrow> if s = [] then dflt else s)"

definition opt_int :: "int option \<Rightarrow> json" where
  "opt_int v = (case v of None \<Rightarrow> JNull | Some n \<Rightarrow> JNum n)"

definition status_to_http :: "string \<Rightarrow> int" where
  "status_to_http status =
     (case map_of [(status_value FAILED, 502), (status_value TIMEOUT, 504),
                   (status_value CANCELLED, 409), (status_value REJECTED, 429)] status of
        None \<Rightarrow> 500 | Some code \<Rightarrow> code)"

definition store_payload :: "string \<Rightarrow> json \<Rightarrow> unit io" where
  "store_payload job_id payload =
     catch_redis
       (andThen (redis (HSET (job_key job_id) [Str ''payload_json'', JsonText payload])) (\<lambda>_. return ()))
       (record_redis_error ''store_payload'')"

definition load_blob :: "string \<Rightarrow> json option io" where
  "load_blob job_id =
     andThen (redis (HGET (job_key job_id) ''response_blob'')) (\<lambda>raw. return (gunzip_json raw))"

text \<open>
  The loop of \<open>_wait_for_completion\<close>: Some (Some status), Some None on timeout, None while it
  still waits. \<open>pos\<close> is how far this subscriber has read its channel.
\<close>

primrec wait_loop :: "string \<Rightarrow> int \<Rightarrow> nat \<Rightarrow> nat \<Rightarrow> string option option io" where
  "wait_loop job_id deadline pos 0 = return None"
| "wait_loop job_id deadline pos (Suc n) =
     andThen (read_env Monotonic) (\<lambda>t.
     if deadline - t \<le> 0 then return (Some None)
     else
       andThen (redis (GETMESSAGE (job_done_channel job_id) pos)) (\<lambda>message.
       case message of
         RMessage i data \<Rightarrow> return (Some (Some data))
       | _ \<Rightarrow>
           andThen (redis (HGET (job_key job_id) ''status'')) (\<lambda>status_raw.
           let status_str = text_or_empty status_raw in
           if status_str \<noteq> [] \<and> is_terminal status_str then return (Some (Some status_str))
           else wait_loop job_id deadline pos n)))"

definition wait_for_completion :: "string \<Rightarrow> int \<Rightarrow> nat \<Rightarrow> string option option io" where
  "wait_for_completion job_id timeout_s fuel =
     andThen (redis (SUBSCRIBE (job_done_channel job_id))) (\<lambda>r.
     finally_do
       (andThen (read_env Monotonic) (\<lambda>t.
        wait_loop job_id (t + timeout_s * 1000000) (nat (reply_int r)) fuel))
       (catch (andThen (redis (UNSUBSCRIBE (job_done_channel job_id))) (\<lambda>_. return ()))
          (\<lambda>e. if is_exception e then return () else raise e)))"

subsection \<open>POST /v1/chat/completions\<close>

definition wait_result ::
  "string \<Rightarrow> string \<Rightarrow> int \<Rightarrow> string option \<Rightarrow> http_reply io" where
  "wait_result model job_id sync_timeout result =
     (let headers = [(''X-Job-Id'', job_id)] in
      case result of
        None \<Rightarrow>
          andThen (record_timeout model ''sync'') (\<lambda>_.
          return \<lparr>hr_status = 504, hr_headers = headers, hr_content = JObj
            [(''error'', JStr ''sync_timeout''), (''job_id'', JStr job_id),
             (''message'', JStr (''Request timed out after '' @ show_int sync_timeout
                @ ''s. Poll via X-Job-Id.''))]\<rparr>)
      | Some status \<Rightarrow>
          andThen (if status = status_value COMPLETED then load_blob job_id else return None)
            (\<lambda>response_blob.
          let failed = \<lparr>hr_status = status_to_http status, hr_headers = headers, hr_content = JObj
            [(''error'', JStr ''failed''), (''job_id'', JStr job_id), (''status'', JStr status)]\<rparr> in
          return (case response_blob of
              Some b \<Rightarrow> if truthy b then \<lparr>hr_status = 200, hr_headers = headers, hr_content = b\<rparr> else failed
            | None \<Rightarrow> failed)))"

definition chat_completions :: "ctx \<Rightarrow> chat_request \<Rightarrow> nat \<Rightarrow> http_reply option io" where
  "chat_completions cx rq fuel =
     (let use_async = cq_async rq \<or> lower (nonempty_or [] (cq_submit_async rq)) = ''true'';
          caller = nonempty_or ''unknown'' (cq_caller rq);
          model = cq_model rq;
          payload = cq_dump rq in
      andThen (lift (if truthy (cq_metadata rq) then json_get (cq_metadata rq) ''priority'' JNull
                     else Inr JNull)) (\<lambda>prio.
      andThen (admit cx model payload prio caller (cq_metadata rq) (cq_idempotency_key rq))
        (\<lambda>(outcome, job_req).
      case ao_result outcome of
        AR_REJECTED \<Rightarrow>
          return (Some \<lparr>hr_status = 429,
            hr_headers = (case ao_estimated_drain_s outcome of
                None \<Rightarrow> [] | Some n \<Rightarrow> if n = 0 then [] else [(''Retry-After'', show_int n)]),
            hr_content = JObj [(''error'', JStr ''queue_full''), (''job_id'', JStr (ao_job_id outcome))]\<rparr>)
      | AR_IDEMPOTENT_HIT \<Rightarrow>
          let job_id = nonempty_or (ao_job_id outcome) (ao_existing_job_id outcome) in
          return (Some \<lparr>hr_status = 200, hr_headers = [(''X-Job-Id'', job_id)],
            hr_content = JObj [(''job_id'', JStr job_id), (''status'', JStr ''queued'')]\<rparr>)
      | _ \<Rightarrow>
          andThen (if job_req \<noteq> None then store_payload (ao_job_id outcome) payload else return ()) (\<lambda>_.
          if use_async then
            return (Some \<lparr>hr_status = 202, hr_headers = [(''X-Job-Id'', ao_job_id outcome)],
              hr_content = JObj [(''job_id'', JStr (ao_job_id outcome)),
                (''status'', JStr (status_value (ao_status outcome))),
                (''position_in_queue'', opt_int (ao_position_in_queue outcome))]\<rparr>)
          else
            andThen (lift (model_config_for (config cx) model)) (\<lambda>mc.
            andThen (wait_for_completion (ao_job_id outcome) (sync_timeout_seconds mc) fuel) (\<lambda>result.
            case result of
              None \<Rightarrow> return None
            | Some res \<Rightarrow>
                andThen (wait_result model (ao_job_id outcome) (sync_timeout_seconds mc) res)
                  (\<lambda>rep. return (Some rep))))))))"

subsection \<open>POST /jobs\<close>

definition submit_job :: "ctx \<Rightarrow> submit_request \<Rightarrow> submit_response io" where
  "submit_job cx rq =
     (let caller = nonempty_or ''unknown'' (sq_caller rq);
          payload = sq_dump rq in
      andThen (admit cx (sq_model rq) payload (opt_int (sq_priority rq)) caller (sq_metadata rq)
          (sq_idempotency_key rq)) (\<lambda>(outcome, job_req).
      if ao_result outcome = AR_REJECTED then
        raise (HTTPException 429 (JObj [(''error'', JStr ''queue_full''),
          (''estimated_drain_s'', opt_int (ao_estimated_drain_s outcome))]))
      else
        andThen (if job_req \<noteq> None then store_payload (ao_job_id outcome) payload else return ()) (\<lambda>_.
        return \<lparr>sr_job_id = ao_job_id outcome, sr_status = status_value (ao_status outcome),
                sr_position = ao_position_in_queue outcome\<rparr>)))"

subsection \<open>GET /jobs/{job_id}\<close>

definition field_opt :: "(string \<times> rval) list \<Rightarrow> string \<Rightarrow> string option" where
  "field_opt h key = map_option rval_text (map_of h key)"

definition nonempty :: "string option \<Rightarrow> bool" where
  "nonempty v \<longleftrightarrow> (case v of None \<Rightarrow> False | Some s \<Rightarrow> s \<noteq> [])"

definition elapsed_ms :: "string \<Rightarrow> string \<Rightarrow> int option" where
  "elapsed_ms from_str to_str =
     (case (from_iso from_str, from_iso to_str) of
        (Some a, Some b) \<Rightarrow> Some (int_ms (max 0 (b - a)))
      | _ \<Rightarrow> None)"

text \<open>Wait and run time: a text that is no time leaves what is not yet computed at None.\<close>

definition job_times :: "string option \<Rightarrow> string option \<Rightarrow> string option \<Rightarrow> int option \<times> int option" where
  "job_times enqueue_ts dispatch_ts complete_ts =
     (let waits = (nonempty enqueue_ts \<and> nonempty dispatch_ts);
          runs = (nonempty dispatch_ts \<and> nonempty complete_ts);
          wait_ms = (if waits then elapsed_ms (the enqueue_ts) (the dispatch_ts) else None)
      in if waits \<and> wait_ms = None then (None, None)
         else (wait_ms, if runs then elapsed_ms (the dispatch_ts) (the complete_ts) else None))"

definition int_or_raise :: "string \<Rightarrow> exn + int" where
  "int_or_raise s = (case py_int s of None \<Rightarrow> Inl (ValueError ''invalid literal for int() with base 10'')
     | Some n \<Rightarrow> Inr n)"

definition get_job :: "string \<Rightarrow> job_status_response io" where
  "get_job job_id =
     andThen (redis (HGETALL (job_key job_id))) (\<lambda>r.
     let data = reply_pairs r in
     if data = [] then raise (HTTPException 404 (JStr ''Job not found''))
     else
       let f = field_opt data; status = nonempty_or ''unknown'' (f ''status'') in
       andThen (redis (TTL (job_key job_id))) (\<lambda>ttl.
       if ttl = RInt (-2) then raise (HTTPException 410 (JStr ''Job result expired''))
       else
         andThen (if status = status_value COMPLETED then load_blob job_id else return None) (\<lambda>result_blob.
         let (wait_ms, runtime_ms) = job_times (f ''enqueue_ts'') (f ''dispatch_ts'') (f ''complete_ts'') in
         andThen (lift (int_or_raise (nonempty_or ''5'' (f ''priority'')))) (\<lambda>prio.
         andThen (if nonempty (f ''http_status'')
                  then andThen (lift (int_or_raise (the (f ''http_status'')))) (\<lambda>n. return (Some n))
                  else return None) (\<lambda>http_status.
         return \<lparr>js_job_id = job_id, js_status = status, js_model = f ''model'', js_priority = prio,
           js_enqueue_ts = f ''enqueue_ts'', js_dispatch_ts = f ''dispatch_ts'',
           js_complete_ts = f ''complete_ts'', js_wait_ms = wait_ms, js_runtime_ms = runtime_ms,
           js_error_class = f ''error_class'', js_error_message = f ''error_message'',
           js_http_status = http_status, js_result = result_blob\<rparr>)))))"

subsection \<open>POST /jobs/{job_id}/cancel\<close>

definition cancel_job :: "ctx \<Rightarrow> string \<Rightarrow> cancel_response io" where
  "cancel_job cx job_id =
     andThen (redis (HGETALL (job_key job_id))) (\<lambda>r.
     let data = reply_pairs r in
     if data = [] then raise (HTTPException 404 (JStr ''Job not found''))
     else
       let f = field_opt data; status = nonempty_or ''unknown'' (f ''status'');
           model = nonempty_or ''unknown'' (f ''model'') in
       if is_terminal status then return \<lparr>cr_job_id = job_id, cr_status = status\<rparr>
       else
         andThen iso_now (\<lambda>cancel_ts.
         andThen
           (if status = status_value QUEUED
            then evalsha_cancel_queued (lua cx) (queue_key model) (job_key job_id) job_id cancel_ts
            else return 0) (\<lambda>removed.
         if removed = 1 then
           andThen (redis (EXPIRE (job_key job_id) 3600)) (\<lambda>_.
           andThen (redis (PUBLISH (job_done_channel job_id) (status_value CANCELLED))) (\<lambda>_.
           andThen (record_cancel model) (\<lambda>_.
           return \<lparr>cr_job_id = job_id, cr_status = status_value CANCELLED\<rparr>)))
         else
           andThen (redis (HSET (job_key job_id) [Str ''status'', Str (status_value CANCELLING)])) (\<lambda>_.
           return \<lparr>cr_job_id = job_id, cr_status = status_value CANCELLING\<rparr>))))"

subsection \<open>GET /queues\<close>

definition oldest_age :: "string \<Rightarrow> int option io" where
  "oldest_age model =
     andThen (redis (ZFIRST (queue_key model))) (\<lambda>r.
     case r of
       REntry e \<Rightarrow>
         andThen (redis (HGET (job_key (zmember e)) ''enqueue_ts'')) (\<lambda>et_raw.
         let et_str = text_or_empty et_raw in
         if et_str = [] then return None
         else case from_iso et_str of
             None \<Rightarrow> return None
           | Some et \<Rightarrow> andThen (read_env Now) (\<lambda>now. return (Some (int_ms (now - et)))))
     | _ \<Rightarrow> return None)"

definition queue_snapshot_of :: "ctx \<Rightarrow> string \<Rightarrow> queue_snapshot io" where
  "queue_snapshot_of cx model =
     andThen (lift (model_config_for (config cx) model)) (\<lambda>mc.
     catch_redis
       (andThen (redis (ZCARD (queue_key model))) (\<lambda>depth_raw.
        andThen (redis (GET (slots_in_use_key model))) (\<lambda>in_use_raw.
        andThen (lift (bytes_int in_use_raw)) (\<lambda>in_use.
        andThen (oldest_age model) (\<lambda>oldest_ms.
        return \<lparr>qs_depth = reply_int depth_raw, qs_in_use = in_use,
                qs_capacity = max_concurrency mc, qs_oldest_ms = oldest_ms\<rparr>)))))
       (andThen (record_redis_error ''get_queues'') (\<lambda>_.
        return \<lparr>qs_depth = 0, qs_in_use = 0, qs_capacity = max_concurrency mc, qs_oldest_ms = None\<rparr>)))"

primrec queue_snapshots :: "ctx \<Rightarrow> string list \<Rightarrow> (string \<times> queue_snapshot) list io" where
  "queue_snapshots cx [] = return []"
| "queue_snapshots cx (m # ms) =
     andThen (queue_snapshot_of cx m) (\<lambda>s.
     andThen (queue_snapshots cx ms) (\<lambda>rest. return ((m, s) # rest)))"

definition get_queues :: "ctx \<Rightarrow> (string \<times> queue_snapshot) list io" where
  "get_queues cx = queue_snapshots cx (all_model_names (config cx))"

subsection \<open>GET /health\<close>

definition ping_status :: "string io" where
  "ping_status =
     catch (andThen (redis PING) (\<lambda>_. return ''ok''))
       (\<lambda>e. if is_exception e then return ''down'' else raise e)"

definition overall_status :: "string \<Rightarrow> string \<Rightarrow> bool \<Rightarrow> string" where
  "overall_status redis_status litellm_status any_worker_alive =
     (if redis_status = ''down'' \<or> \<not> any_worker_alive then ''down''
      else if litellm_status \<noteq> ''ok'' then ''degraded''
      else ''ok'')"

definition health :: "forwarder \<Rightarrow> (string \<times> bool) list \<Rightarrow> (int \<times> health_response) io" where
  "health f workers =
     andThen ping_status (\<lambda>redis_status.
     andThen (check_health f) (\<lambda>litellm_status.
     let overall = overall_status redis_status litellm_status (list_ex snd workers) in
     return (if overall \<noteq> ''down'' then 200 else 503,
       \<lparr>he_status = overall, he_redis = redis_status, he_litellm = litellm_status,
        he_workers = workers\<rparr>)))"

subsection \<open>Cancelling\<close>

definition text_field :: "db \<Rightarrow> string \<Rightarrow> string \<Rightarrow> string option" where
  "text_field d j f = field_opt (hs d (job_key j)) f"

lemma alone_cancel_script:
  assumes "lua_loaded l"
  shows "alone (evalsha_cancel_queued l qk jk j ts) d Q =
    (if zmem j (zs d qk) then
       Q (Inr 1) (d\<lparr>zs := (zs d)(qk := zrem_list j (zs d qk)),
         hs := (hs d)(jk := put_field ''complete_ts'' (Str ts) (put_field ''status'' (Str ''cancelled'') (hs d jk)))\<rparr>)
     else Q (Inr 0) d)"
  using assms
  by (auto simp: evalsha_cancel_queued_def require_sha_def lua_loaded_def cancel_queued_run)

text \<open>
  C29. Cancelling a job that waits in its queue takes it out of the queue, marks it cancelled
  for an hour and tells its subscribers; no slot counter and no other queue changes.
\<close>

theorem cancel_queued_job:
  assumes "exact_server H view" and "lua_loaded (lua cx)"
    and "text_field (view s) j ''status'' = Some ''queued''" and "text_field (view s) j ''model'' = Some m"
    and "m \<noteq> []" and "zmem j (zs (view s) (queue_key m))"
  shows "case run H (cancel_job cx j) s of (res, s') \<Rightarrow>
    res = Inr \<lparr>cr_job_id = j, cr_status = ''cancelled''\<rparr> \<and>
    zs (view s') = (zs (view s))(queue_key m := zrem_list j (zs (view s) (queue_key m))) \<and>
    map_field (view s') j ''status'' = Some (Str ''cancelled'') \<and> ttls (view s') (job_key j) = Some 3600 \<and>
    pubs (view s') = pubs (view s) @ [(job_done_channel j, ''cancelled'')] \<and> kv (view s') = kv (view s)"
proof (rule alone_sound [OF assms(1)])
  have "hs (view s) (job_key j) \<noteq> []"
    using assms(3) by (auto simp: text_field_def field_opt_def)
  then show "alone (cancel_job cx j) (view s) (\<lambda>res d'.
    res = Inr \<lparr>cr_job_id = j, cr_status = ''cancelled''\<rparr> \<and>
    zs d' = (zs (view s))(queue_key m := zrem_list j (zs (view s) (queue_key m))) \<and>
    map_field d' j ''status'' = Some (Str ''cancelled'') \<and> ttls d' (job_key j) = Some 3600 \<and>
    pubs d' = pubs (view s) @ [(job_done_channel j, ''cancelled'')] \<and> kv d' = kv (view s))"
    using assms(3-6)
    by (simp add: cancel_job_def Let_def text_field_def nonempty_or_def is_terminal_def terminal_statuses_def
        alone_cancel_script [OF assms(2)] key_exists_def map_field_def)
qed

definition demo_queued :: db where
  "demo_queued = empty_db
     \<lparr>hs := (hs empty_db)(job_key ''j'' := [(''model'', Str ''code''), (''status'', Str ''queued'')]),
      zs := (zs empty_db)(queue_key ''code'' := [ZEntry 5 ''j''])\<rparr>"

theorem cancel_queued_job_witness:
  "case run scripted (cancel_job demo_ctx ''j'') (demo_queued, []) of (res, s') \<Rightarrow>
    res = Inr \<lparr>cr_job_id = ''j'', cr_status = ''cancelled''\<rparr> \<and>
    zs (fst s') = (zs demo_queued)(queue_key ''code'' := zrem_list ''j'' (zs demo_queued (queue_key ''code''))) \<and>
    map_field (fst s') ''j'' ''status'' = Some (Str ''cancelled'') \<and> ttls (fst s') (job_key ''j'') = Some 3600 \<and>
    pubs (fst s') = pubs demo_queued @ [(job_done_channel ''j'', ''cancelled'')] \<and> kv (fst s') = kv demo_queued"
  using cancel_queued_job [OF scripted.exact_server_axioms, of demo_ctx "(demo_queued, [])" "''j''" "''code''"]
  by (simp add: text_field_def field_opt_def demo_queued_def)

text \<open>
  Cancelling a job that is not in its queue interrupts nothing: a terminal job is reported
  as it is, and of any other job only the status field is set to "cancelling"; its slot, lease,
  inflight entry and subscribers stay as they are. (The documentation promises that the call to
  the backend is cancelled and the slot given back.)
\<close>

theorem cancel_running_job_only_marks:
  assumes "exact_server H view" and "lua_loaded (lua cx)"
    and "text_field (view s) j ''status'' = Some st" and "st \<noteq> []"
    and "text_field (view s) j ''model'' = Some m" and "m \<noteq> []" and "\<not> zmem j (zs (view s) (queue_key m))"
  shows "case run H (cancel_job cx j) s of (res, s') \<Rightarrow>
    if is_terminal st then res = Inr \<lparr>cr_job_id = j, cr_status = st\<rparr> \<and> view s' = view s
    else res = Inr \<lparr>cr_job_id = j, cr_status = ''cancelling''\<rparr> \<and>
      view s' = (view s)\<lparr>hs := (hs (view s))(job_key j :=
        put_field ''status'' (Str ''cancelling'') (hs (view s) (job_key j)))\<rparr>"
proof (rule alone_sound [OF assms(1)])
  have "hs (view s) (job_key j) \<noteq> []"
    using assms(3) by (auto simp: text_field_def field_opt_def)
  then show "alone (cancel_job cx j) (view s) (\<lambda>res d'.
    if is_terminal st then res = Inr \<lparr>cr_job_id = j, cr_status = st\<rparr> \<and> d' = view s
    else res = Inr \<lparr>cr_job_id = j, cr_status = ''cancelling''\<rparr> \<and>
      d' = (view s)\<lparr>hs := (hs (view s))(job_key j :=
        put_field ''status'' (Str ''cancelling'') (hs (view s) (job_key j)))\<rparr>)"
    using assms(3-7)
    by (auto simp: cancel_job_def Let_def text_field_def nonempty_or_def alone_cancel_script [OF assms(2)])
qed

theorem cancel_running_job_witness:
  "case run scripted (cancel_job demo_ctx ''j'') (demo_claimed ''3'', []) of (res, s') \<Rightarrow>
    res = Inr \<lparr>cr_job_id = ''j'', cr_status = ''cancelling''\<rparr> \<and>
    fst s' = (demo_claimed ''3'')\<lparr>hs := (hs (demo_claimed ''3''))(job_key ''j'' :=
        put_field ''status'' (Str ''cancelling'') (hs (demo_claimed ''3'') (job_key ''j'')))\<rparr>"
  using cancel_running_job_only_marks [OF scripted.exact_server_axioms, of demo_ctx "(demo_claimed ''3'', [])"
      "''j''" "''dispatched''" "''code''"]
  by (simp add: text_field_def field_opt_def demo_job_def is_terminal_def terminal_statuses_def)

subsection \<open>Waiting\<close>

lemma alone_wait_loop:
  assumes "\<And>x. (\<forall>st. x = Some (Some st) \<longrightarrow>
      (is_terminal st \<and> map_field d j ''status'' = Some (Str st)) \<or> (job_done_channel j, st) \<in> set (drop pos (pubs d))) \<Longrightarrow>
      Q (Inr x) d"
  shows "alone (wait_loop j deadline pos k) d Q"
proof (induction k)
  case 0
  show ?case by (simp add: assms)
next
  case (Suc k)
  have msg: "(ch, m) \<in> set (drop pos ps)" if "index_from ch n (drop pos ps) = Some (i, m)" for ch n i m ps
  proof -
    have "index_from ch n xs = Some (i, m) \<Longrightarrow> (ch, m) \<in> set xs" for xs
      by (induction ch n xs rule: index_from.induct) (auto split: if_splits)
    with that show ?thesis by simp
  qed
  have trm: "map_field d j ''status'' = Some (Str st)"
    if "map_of (hs d (job_key j)) ''status'' = Some v" "st = rval_text v" "is_terminal st" for v st
    using that by (cases v) (auto simp: map_field_def is_terminal_def terminal_statuses_def)
  show ?case
    using Suc
    by (auto simp: text_or_empty_def Let_def split: option.splits if_splits dest: msg intro!: assms trm)
qed

lemma alone_wait_for_completion:
  assumes "\<And>deadline. alone (wait_loop j deadline (length (pubs d)) k)
      (d\<lparr>subs := (subs d)(job_done_channel j := Suc (subs d (job_done_channel j)))\<rparr>) (\<lambda>x d'. P x \<and>
        d' = d\<lparr>subs := (subs d)(job_done_channel j := Suc (subs d (job_done_channel j)))\<rparr>)"
    and "\<And>x. P x \<Longrightarrow> Q x d"
  shows "alone (wait_for_completion j timeout k) d Q"
proof -
  show ?thesis
    unfolding wait_for_completion_def
    by (auto intro!: alone_mono [OF assms(1)] assms(2) simp: fun_upd_idem)
qed

text \<open>
  Waiting for a job never invents a status: a status it reports is terminal and is the one
  in the job's hash; a job that is terminal when the wait begins is reported at the first look,
  unless the time is up; and whatever happens the subscription is given back, with the rest of
  the database as it was.
\<close>

theorem wait_reports_the_status:
  assumes "exact_server H view"
  shows "case run H (wait_for_completion j timeout k) s of (res, s') \<Rightarrow>
    (\<exists>x. res = Inr x \<and>
      (\<forall>st. x = Some (Some st) \<longrightarrow> is_terminal st \<and> map_field (view s) j ''status'' = Some (Str st)) \<and>
      (\<forall>st. 0 < k \<and> is_terminal st \<and> map_field (view s) j ''status'' = Some (Str st) \<longrightarrow>
        x = Some (Some st) \<or> x = Some None)) \<and>
    view s' = view s"
proof (rule alone_sound [OF assms(1)], rule alone_wait_for_completion)
  let ?d = "view s"
  let ?d' = "?d\<lparr>subs := (subs ?d)(job_done_channel j := Suc (subs ?d (job_done_channel j)))\<rparr>"
  let ?P = "\<lambda>x. \<exists>y. x = Inr y \<and>
      (\<forall>st. y = Some (Some st) \<longrightarrow> is_terminal st \<and> map_field ?d j ''status'' = Some (Str st)) \<and>
      (\<forall>st. 0 < k \<and> is_terminal st \<and> map_field ?d j ''status'' = Some (Str st) \<longrightarrow>
        y = Some (Some st) \<or> y = Some None)"
  fix deadline
  show "alone (wait_loop j deadline (length (pubs ?d)) k) ?d' (\<lambda>x d'. ?P x \<and> d' = ?d')"
  proof (cases "\<exists>st. 0 < k \<and> is_terminal st \<and> map_field ?d j ''status'' = Some (Str st)")
    case True
    then obtain st n where st: "is_terminal st" "map_field ?d j ''status'' = Some (Str st)" and k: "k = Suc n"
      by (cases k) auto
    from st(1) have "st \<noteq> []" by (auto simp: is_terminal_def terminal_statuses_def)
    with st show ?thesis by (simp add: k text_or_empty_def Let_def map_field_def)
  next
    case False
    then show ?thesis
      by (intro alone_wait_loop) (auto simp: map_field_def)
  qed
qed simp

definition demo_done :: db where
  "demo_done = empty_db\<lparr>hs := (hs empty_db)(job_key ''j'' := completed_fields ''t'' (JNum 7))\<rparr>"

lemma demo_done_simps [simp]:
  "map_field demo_done ''j'' ''status'' = Some (Str ''completed'')" "is_terminal ''completed''"
  by (simp_all add: demo_done_def map_field_def completed_fields_def is_terminal_def terminal_statuses_def)

theorem wait_reports_the_status_witness:
  "case run scripted (wait_for_completion ''j'' 300 2) (demo_done, []) of (res, s') \<Rightarrow>
    (res = Inr (Some (Some ''completed'')) \<or> res = Inr (Some None)) \<and> fst s' = demo_done"
proof -
  obtain res s' where r: "run scripted (wait_for_completion ''j'' 300 2) (demo_done, []) = (res, s')"
    by (cases "run scripted (wait_for_completion ''j'' 300 2) (demo_done, [])")
  obtain x where x: "res = Inr x" "fst s' = demo_done"
    and *: "\<And>st. is_terminal st \<Longrightarrow> map_field demo_done ''j'' ''status'' = Some (Str st) \<Longrightarrow>
      x = Some (Some st) \<or> x = Some None"
    using wait_reports_the_status [OF scripted.exact_server_axioms, where j = "''j''" and timeout = 300 and k = 2
        and s = "(demo_done, [])"] r
    by auto
  show ?thesis using * [of "''completed''"] x by (simp add: r)
qed

subsection \<open>Submitting\<close>

definition submitted :: "ctx \<Rightarrow> submit_request \<Rightarrow> exn + submit_response \<Rightarrow> db \<Rightarrow> bool" where
  "submitted cx rq res d' \<longleftrightarrow>
     (\<exists>j pos. res = Inr \<lparr>sr_job_id = j, sr_status = ''queued'', sr_position = Some pos\<rparr> \<and>
        zmem j (zs d' (queue_key (sq_model rq))) \<and>
        map_field d' j ''status'' = Some (Str ''queued'') \<and>
        map_field d' j ''payload_json'' = Some (JsonText (sq_dump rq)))"

text \<open>
  POST /jobs on a queue with room answers with the id of a job that is in the queue, marked
  queued, and whose hash holds the whole payload.
\<close>

theorem submit_queues_payload:
  assumes "exact_server H view"
    and "admit_ready cx (view s) (sq_model rq) (opt_int (sq_priority rq)) (nonempty_or ''unknown'' (sq_caller rq))
      (sq_idempotency_key rq) mc p q"
    and "int (length (zs (view s) (queue_key (sq_model rq)))) < max_queue_depth mc"
  shows "case run H (submit_job cx rq) s of (res, s') \<Rightarrow> submitted cx rq res (view s')"
proof (rule alone_sound [OF assms(1)])
  show "alone (submit_job cx rq) (view s) (\<lambda>res d'. submitted cx rq res d')"
    unfolding submit_job_def Let_def alone_andThen
    by (rule alone_admit_queued [OF assms(2,3)])
      (simp add: store_payload_def submitted_def map_field_def admission_fields_stored, simp add: admission_fields_def)
qed

definition demo_submit :: submit_request where
  "demo_submit = \<lparr>sq_model = ''code'', sq_priority = None, sq_metadata = JNull, sq_dump = JObj [],
     sq_caller = Some ''me'', sq_idempotency_key = Some ''k''\<rparr>"

theorem submit_queues_payload_witness:
  "case run scripted (submit_job demo_ctx demo_submit) (empty_db, []) of (res, s') \<Rightarrow>
     submitted demo_ctx demo_submit res (fst s')"
  using submit_queues_payload [OF scripted.exact_server_axioms, of demo_ctx "(empty_db, [])" demo_submit
      demo_model 3 0] demo_ready
  by (simp add: demo_submit_def opt_int_def nonempty_or_def)

definition chat_priority :: "chat_request \<Rightarrow> json" where
  "chat_priority rq = (case cq_metadata rq of JObj kvs \<Rightarrow>
     (case map_of kvs ''priority'' of None \<Rightarrow> JNull | Some v \<Rightarrow> v) | _ \<Rightarrow> JNull)"

text \<open>
  A chat completion whose queue is full is answered with 429, the name of the error and a
  Retry-After header of at least five seconds; no job is stored.
\<close>

theorem chat_rejects_when_full:
  assumes "exact_server H view" and "cq_metadata rq = JNull \<or> (\<exists>kvs. cq_metadata rq = JObj kvs)"
    and "admit_ready cx (view s) (cq_model rq) (chat_priority rq) (nonempty_or ''unknown'' (cq_caller rq))
      (cq_idempotency_key rq) mc p q"
    and "max_queue_depth mc \<le> int (length (zs (view s) (queue_key (cq_model rq))))"
  shows "case run H (chat_completions cx rq k) s of (res, s') \<Rightarrow>
    (\<exists>j drain. res = Inr (Some \<lparr>hr_status = 429, hr_headers = [(''Retry-After'', show_int drain)],
       hr_content = JObj [(''error'', JStr ''queue_full''), (''job_id'', JStr j)]\<rparr>) \<and> 5 \<le> drain) \<and>
    hs (view s') = hs (view s) \<and> zs (view s') = zs (view s)"
proof (rule alone_sound [OF assms(1)])
  have prio: "(if truthy (cq_metadata rq) then json_get (cq_metadata rq) ''priority'' JNull else Inr JNull) =
      Inr (chat_priority rq)"
    using assms(2) by (auto simp: chat_priority_def)
  let ?Q = "\<lambda>res d'. (\<exists>j drain. res = Inr (Some \<lparr>hr_status = 429, hr_headers = [(''Retry-After'', show_int drain)],
       hr_content = JObj [(''error'', JStr ''queue_full''), (''job_id'', JStr j)]\<rparr>) \<and> 5 \<le> drain) \<and>
    hs d' = hs (view s) \<and> zs d' = zs (view s)"
  show "alone (chat_completions cx rq k) (view s) ?Q"
    unfolding chat_completions_def Let_def alone_andThen alone_lift prio
    by (simp, rule alone_admit_rejected [OF assms(3,4)]) simp
qed

definition demo_chat :: chat_request where
  "demo_chat = \<lparr>cq_model = ''code'', cq_metadata = JNull, cq_dump = JObj [], cq_submit_async = None,
     cq_caller = Some ''me'', cq_idempotency_key = Some ''k'', cq_async = False\<rparr>"

theorem chat_rejects_when_full_witness:
  "case run scripted (chat_completions demo_ctx demo_chat 9) (full_db, []) of (res, s') \<Rightarrow>
    (\<exists>j drain. res = Inr (Some \<lparr>hr_status = 429, hr_headers = [(''Retry-After'', show_int drain)],
       hr_content = JObj [(''error'', JStr ''queue_full''), (''job_id'', JStr j)]\<rparr>) \<and> 5 \<le> drain) \<and>
    hs (fst s') = hs full_db \<and> zs (fst s') = zs full_db"
  using chat_rejects_when_full [OF scripted.exact_server_axioms, of demo_chat demo_ctx "(full_db, [])"
      demo_model 3 0 9] full_ready
  by (simp add: demo_chat_def chat_priority_def nonempty_or_def) (simp add: full_db_def)

subsection \<open>Reading a job\<close>

text \<open>
  Reading a completed job gives its status, priority and stored response, with the waiting
  and running time in milliseconds from the times in its hash.
\<close>

theorem get_job_reads_completed:
  assumes "exact_server H view"
    and "text_field (view s) j ''status'' = Some ''completed''"
    and "map_field (view s) j ''response_blob'' = Some (GzipJson response)"
    and "map_field (view s) j ''priority'' = Some (Str (show_int p))"
    and "map_field (view s) j ''http_status'' = None"
    and "text_field (view s) j ''enqueue_ts'' = Some te" and "from_iso te = Some e"
    and "text_field (view s) j ''dispatch_ts'' = Some td" and "from_iso td = Some d"
    and "text_field (view s) j ''complete_ts'' = Some tc" and "from_iso tc = Some c"
    and "case ttls (view s) (job_key j) of None \<Rightarrow> True | Some t \<Rightarrow> 0 \<le> t"
  shows "case run H (get_job j) s of (res, s') \<Rightarrow>
    (\<exists>r. res = Inr r \<and> js_status r = ''completed'' \<and> js_priority r = p \<and> js_result r = Some response \<and>
      js_wait_ms r = Some (int_ms (max 0 (d - e))) \<and> js_runtime_ms r = Some (int_ms (max 0 (c - d)))) \<and>
    view s' = view s"
proof (rule alone_sound [OF assms(1)])
  have ne: "te \<noteq> []" "td \<noteq> []" "tc \<noteq> []"
    using assms(7,9,11) by (auto simp: from_iso_def)
  let ?f = "field_opt (hs (view s) (job_key j))"
  have data: "hs (view s) (job_key j) \<noteq> []"
    using assms(2) by (auto simp: text_field_def field_opt_def)
  have ttl: "fst (redis_call (TTL (job_key j)) (view s)) \<noteq> RInt (-2)"
    using data assms(12) by (auto simp: key_exists_def split: option.splits)
  have f: "?f ''status'' = Some ''completed''" "?f ''priority'' = Some (show_int p)" "?f ''http_status'' = None"
    "?f ''enqueue_ts'' = Some te" "?f ''dispatch_ts'' = Some td" "?f ''complete_ts'' = Some tc"
    using assms(2,4,5,6,8,10) by (simp_all add: text_field_def map_field_def field_opt_def)
  have times: "job_times (Some te) (Some td) (Some tc) =
      (Some (int_ms (max 0 (d - e))), Some (int_ms (max 0 (c - d))))"
    using ne assms(7,9,11) by (simp add: job_times_def elapsed_ms_def nonempty_def)
  show "alone (get_job j) (view s) (\<lambda>res d'. (\<exists>r. res = Inr r \<and> js_status r = ''completed'' \<and>
      js_priority r = p \<and> js_result r = Some response \<and>
      js_wait_ms r = Some (int_ms (max 0 (d - e))) \<and> js_runtime_ms r = Some (int_ms (max 0 (c - d)))) \<and>
    d' = view s)"
    using data ttl assms(3)
    by (simp add: get_job_def Let_def f times nonempty_or_def load_blob_def nonempty_def int_or_raise_def
        map_field_def split del: if_split)
qed

definition demo_completed :: db where
  "demo_completed = empty_db\<lparr>hs := (hs empty_db)(job_key ''j'' :=
     [(''status'', Str ''completed''), (''priority'', Str ''3''),
      (''enqueue_ts'', Str ''2026-05-26T09:12:03+00:00''), (''dispatch_ts'', Str ''2026-05-26T09:12:03+00:00''),
      (''complete_ts'', Str ''2026-05-26T09:12:03.441000+00:00''), (''response_blob'', GzipJson (JNum 7))])\<rparr>"

lemma from_iso_example2: "from_iso ''2026-05-26T09:12:03+00:00'' = Some 1779786723000000"
  by (simp add: from_iso_def num_at_def read_nat_def char_digit_def iso_fraction_def
      days_from_civil_def days_in_month_def Let_def)

lemma show_int_3: "show_int 3 = ''3''"
  by code_simp

theorem get_job_reads_completed_witness:
  "case run scripted (get_job ''j'') (demo_completed, []) of (res, s') \<Rightarrow>
    (\<exists>r. res = Inr r \<and> js_status r = ''completed'' \<and> js_priority r = 3 \<and> js_result r = Some (JNum 7) \<and>
      js_wait_ms r = Some 0 \<and> js_runtime_ms r = Some 441) \<and> fst s' = demo_completed"
  using get_job_reads_completed [OF scripted.exact_server_axioms _ _ _ _ _ from_iso_example2 _ from_iso_example2
      _ from_iso_example, of "(demo_completed, [])" "''j''" "JNum 7" 3]
  by (simp add: demo_completed_def text_field_def map_field_def field_opt_def show_int_3 int_ms_def)

text \<open>
  A job whose hash has expired is reported as not found: the answer is 404, never the 410
  the documentation gives for an expired result, since the hash is read before its time to live.
\<close>

theorem expired_job_is_not_found:
  assumes "exact_server H view" and "view s = del_key (job_key j) d"
  shows "case run H (get_job j) s of (res, s') \<Rightarrow>
    res = Inl (HTTPException 404 (JStr ''Job not found'')) \<and> view s' = view s"
  by (rule alone_sound [OF assms(1)]) (simp add: get_job_def Let_def assms(2))

theorem expired_job_is_not_found_witness:
  "case run scripted (get_job ''j'') (del_key (job_key ''j'') demo_completed, []) of (res, s') \<Rightarrow>
    res = Inl (HTTPException 404 (JStr ''Job not found'')) \<and> fst s' = del_key (job_key ''j'') demo_completed"
  using expired_job_is_not_found [OF scripted.exact_server_axioms, of "(del_key (job_key ''j'') demo_completed, [])"
      "''j''" demo_completed]
  by simp

subsection \<open>Health\<close>

lemma wp_ping_status: "wp (\<lambda>_. True) (\<lambda>_ _. True) ping_status (\<lambda>x. \<forall>v. x = Inr v \<longrightarrow> v \<in> {''ok'', ''down''})"
  by (simp add: ping_status_def is_exception_def split: sum.splits)

lemma wp_anything: "wp (\<lambda>_. True) (\<lambda>_ _. True) m (\<lambda>_. True)"
  by (induction m) auto

lemma run_wp: "wp (\<lambda>_. True) (\<lambda>_ _. True) m Q \<Longrightarrow> Q (fst (run H m s))"
  by (induction m arbitrary: s) auto

text \<open>
  Whatever Redis and the backend do, /health answers 200 exactly when Redis answered the
  ping and a worker is alive; then it says "ok" or "degraded", and "ok" only if the backend is.
\<close>

theorem health_needs_redis_and_worker:
  "case run H (health f workers) s of (res, s') \<Rightarrow> case res of Inl _ \<Rightarrow> True | Inr (code, r) \<Rightarrow>
     code = (if he_redis r = ''ok'' \<and> list_ex snd workers then 200 else 503) \<and>
     (code = 200) = (he_status r \<in> {''ok'', ''degraded''}) \<and>
     (he_status r = ''ok'') = (code = 200 \<and> he_litellm r = ''ok'')"
proof -
  let ?Q = "\<lambda>res. case res of Inl _ \<Rightarrow> True | Inr (code, r) \<Rightarrow>
     code = (if he_redis r = ''ok'' \<and> list_ex snd workers then 200 else 503) \<and>
     (code = 200) = (he_status r \<in> {''ok'', ''degraded''}) \<and>
     (he_status r = ''ok'') = (code = 200 \<and> he_litellm r = ''ok'')"
  have "wp (\<lambda>_. True) (\<lambda>_ _. True) (health f workers) ?Q"
    unfolding health_def wp_andThen
    by (rule wp_mono [OF wp_ping_status])
      (auto simp: Let_def overall_status_def split: sum.splits intro!: wp_mono [OF wp_anything] wp_anything)
  from run_wp [OF this, of H s] show ?thesis by (simp add: split_def)
qed

end
