(* ===== verification/Startup.thy ===== *)
theory Startup
  imports Routes
begin

text \<open>
  \<open>app/main.py\<close>: what the application does to Redis when it starts, and the programs it
  starts. The logger, the HTTP client and the background tasks are in \<open>Lifecycle\<close>.
\<close>

primrec init_models :: "(string \<times> model_config) list \<Rightarrow> unit io" where
  "init_models [] = return ()"
| "init_models (nm # ms) =
     andThen (redis (SET (slots_capacity_key (fst nm)) (Str (show_int (max_concurrency (snd nm)))) None False))
       (\<lambda>_.
     andThen (redis (SETNX (slots_in_use_key (fst nm)) (Str (show_int 0)))) (\<lambda>_.
     andThen (update_slot_gauges (fst nm) 0 (max_concurrency (snd nm))) (\<lambda>_.
     init_models ms)))"

primrec make_workers :: "ctx \<Rightarrow> forwarder \<Rightarrow> (string \<Rightarrow> string) \<Rightarrow> string list \<Rightarrow> exn + worker list" where
  "make_workers cx f hex8 [] = Inr []"
| "make_workers cx f hex8 (m # ms) =
     (case new_worker cx m (hex8 m) f of
        Inl e \<Rightarrow> Inl e
      | Inr w \<Rightarrow> (case make_workers cx f hex8 ms of Inl e \<Rightarrow> Inl e | Inr ws \<Rightarrow> Inr (w # ws)))"

text \<open>Redis out of reach is an error.\<close>

definition connect_redis :: "ctx \<Rightarrow> unit io" where
  "connect_redis cx =
     catch (andThen (redis PING) (\<lambda>_. return ()))
       (\<lambda>e. if is_exception e
            then raise (RuntimeError (''Cannot connect to Redis at '' @ redis_url (scheduler (config cx))
                   @ '': '' @ exn_str e))
            else raise e)"

text \<open>What start-up does to Redis, and what it makes: the loaded scripts, the forwarder and the workers.\<close>

definition startup :: "ctx \<Rightarrow> (string \<Rightarrow> string) \<Rightarrow> (lua_scripts \<times> forwarder \<times> worker list) io" where
  "startup cx hex8 =
     andThen (connect_redis cx) (\<lambda>_.
     andThen load_all (\<lambda>scripts.
     andThen (init_models (models (config cx))) (\<lambda>_.
     let f = start_forwarder (new_forwarder (backend_litellm_url (scheduler (config cx)))) in
     andThen (lift (make_workers (cx\<lparr>lua := scripts\<rparr>) f hex8 (all_model_names (config cx)))) (\<lambda>ws.
     return (scripts, f, ws)))))"

definition model_ready :: "db \<Rightarrow> db \<Rightarrow> string \<times> model_config \<Rightarrow> bool" where
  "model_ready d d' nm \<longleftrightarrow>
     kv d' (slots_capacity_key (fst nm)) = Some (Str (show_int (max_concurrency (snd nm)))) \<and>
     kv d' (slots_in_use_key (fst nm)) =
       (if key_exists d (slots_in_use_key (fst nm)) then kv d (slots_in_use_key (fst nm)) else Some (Str (show_int 0)))"

lemma alone_init_models:
  assumes "distinct (map fst ms)"
  shows "alone (init_models ms) d (\<lambda>res d'. res = Inr () \<and> list_all (model_ready d d') ms \<and>
    (\<forall>k. k \<notin> slots_capacity_key ` fst ` set ms \<union> slots_in_use_key ` fst ` set ms \<longrightarrow>
       kv d' k = kv d k \<and> key_exists d' k = key_exists d k) \<and>
    (\<forall>m. zs d' (queue_key m) = zs d (queue_key m) \<and> zs d' (inflight_key m) = zs d (inflight_key m)) \<and>
    (\<forall>j. hs d' (job_key j) = hs d (job_key j)))"
  using assms
proof (induction ms arbitrary: d)
  case Nil
  then show ?case by simp
next
  case (Cons nm ms)
  obtain n mc where nm: "nm = (n, mc)" by (cases nm)
  let ?d1 = "snd (redis_call (SET (slots_capacity_key n) (Str (show_int (max_concurrency mc))) None False) d)"
  let ?d2 = "snd (redis_call (SETNX (slots_in_use_key n) (Str (show_int 0))) ?d1)"
  have in_use: "kv ?d2 (slots_in_use_key n) =
      (if key_exists d (slots_in_use_key n) then kv d (slots_in_use_key n) else Some (Str (show_int 0)))"
    by (simp add: key_exists_def)
  have cap: "kv ?d2 (slots_capacity_key n) = Some (Str (show_int (max_concurrency mc)))"
    by (simp add: key_exists_def)
  have other: "k \<noteq> slots_in_use_key n \<Longrightarrow> k \<noteq> slots_capacity_key n \<Longrightarrow>
      kv ?d2 k = kv d k \<and> key_exists ?d2 k = key_exists d k" for k
    by (simp add: key_exists_def)
  have frame: "zs ?d2 (queue_key m) = zs d (queue_key m)" "zs ?d2 (inflight_key m) = zs d (inflight_key m)"
    "hs ?d2 (job_key j) = hs d (job_key j)" for m j
    by (simp_all add: key_exists_def)
  have fresh: "slots_in_use_key n \<notin> slots_capacity_key ` fst ` set ms \<union> slots_in_use_key ` fst ` set ms"
    "slots_capacity_key n \<notin> slots_capacity_key ` fst ` set ms \<union> slots_in_use_key ` fst ` set ms"
    using Cons.prems nm by (auto simp: rev_image_eqI)
  have ready: "model_ready ?d2 d' x \<Longrightarrow> x \<in> set ms \<Longrightarrow> model_ready d d' x" for d' x
    using other [of "slots_in_use_key (fst x)"] Cons.prems nm
    by (cases "fst x = n") (auto simp: model_ready_def rev_image_eqI split: if_splits)
  have "alone (init_models ms) ?d2 (\<lambda>res d'. res = Inr () \<and> list_all (model_ready d d') (nm # ms) \<and>
    (\<forall>k. k \<notin> slots_capacity_key ` fst ` set (nm # ms) \<union> slots_in_use_key ` fst ` set (nm # ms) \<longrightarrow>
       kv d' k = kv d k \<and> key_exists d' k = key_exists d k) \<and>
    (\<forall>m. zs d' (queue_key m) = zs d (queue_key m) \<and> zs d' (inflight_key m) = zs d (inflight_key m)) \<and>
    (\<forall>j. hs d' (job_key j) = hs d (job_key j)))"
  proof (rule alone_mono [OF Cons.IH], goal_cases)
    case 1
    then show ?case using Cons.prems by simp
  next
    case (2 res d')
    then have "list_all (model_ready d d') ms" using ready by (auto simp: list_all_iff)
    moreover have "model_ready d d' nm"
      using 2 fresh in_use cap by (simp add: model_ready_def nm)
    ultimately show ?case using 2 other frame by (auto simp: nm)
  qed
  moreover have "fst (redis_call (SET (slots_capacity_key n) (Str (show_int (max_concurrency mc))) None False) d) = ROk"
    by simp
  moreover have "checked (fst (redis_call (SETNX (slots_in_use_key n) (Str (show_int 0))) ?d1)) =
      Inr (fst (redis_call (SETNX (slots_in_use_key n) (Str (show_int 0))) ?d1))"
    by simp
  ultimately show ?case by (simp add: nm del: redis_call.simps)
qed

lemma alone_load_all: "(\<And>l. lua_loaded l \<Longrightarrow> Q (Inr l) d) \<Longrightarrow> alone load_all d Q"
proof -
  have "alone (script_load name) d R = (\<forall>t. R (Inr t) d)" for name R
    by (auto simp: script_load_def)
  then show "(\<And>l. lua_loaded l \<Longrightarrow> Q (Inr l) d) \<Longrightarrow> alone load_all d Q"
    by (simp add: load_all_def lua_loaded_def)
qed

lemma make_workers_ok:
  "(\<And>m. m \<in> set ms \<Longrightarrow> \<exists>mc. model_config_for (config cx) m = Inr mc) \<Longrightarrow>
     \<exists>ws. make_workers cx f hex8 ms = Inr ws \<and> map wk_model ws = ms \<and>
       list_all (\<lambda>w. wk_forwarder w = f \<and> model_config_for (config cx) (wk_model w) = Inr (wk_cfg w)) ws"
proof (induction ms)
  case Nil
  then show ?case by simp
next
  case (Cons m ms)
  obtain mc where "model_config_for (config cx) m = Inr mc" using Cons.prems by auto
  moreover obtain ws where "make_workers cx f hex8 ms = Inr ws" "map wk_model ws = ms"
    "list_all (\<lambda>w. wk_forwarder w = f \<and> model_config_for (config cx) (wk_model w) = Inr (wk_cfg w)) ws"
    using Cons.IH Cons.prems by auto
  ultimately show ?case by (simp add: new_worker_def)
qed

definition startup_effect :: "ctx \<Rightarrow> db \<Rightarrow> db \<Rightarrow> bool" where
  "startup_effect cx d d' \<longleftrightarrow>
     list_all (model_ready d d') (models (config cx)) \<and>
     (\<forall>m. zs d' (queue_key m) = zs d (queue_key m) \<and> zs d' (inflight_key m) = zs d (inflight_key m)) \<and>
     (\<forall>j. hs d' (job_key j) = hs d (job_key j) \<and> key_exists d' (lease_key j) = key_exists d (lease_key j))"

lemma alone_startup:
  assumes "distinct (all_model_names (config cx))"
  shows "alone (startup cx hex8) d (\<lambda>res d'.
    (\<exists>scripts f ws. res = Inr (scripts, f, ws) \<and> lua_loaded scripts \<and> started f \<and>
       map wk_model ws = all_model_names (config cx) \<and> list_all (\<lambda>w. wk_forwarder w = f) ws) \<and>
    startup_effect cx d d')"
proof -
  have names: "\<exists>mc. model_config_for (config cx) m = Inr mc" if "m \<in> set (all_model_names (config cx))" for m
    using that by (auto simp: all_model_names_def model_config_for_def dest!: weak_map_of_SomeI)
  have workers: "\<exists>ws. make_workers (cx\<lparr>lua := l\<rparr>) f hex8 (all_model_names (config cx)) = Inr ws \<and>
      map wk_model ws = all_model_names (config cx) \<and> list_all (\<lambda>w. wk_forwarder w = f) ws" for l f
    using make_workers_ok [of "all_model_names (config cx)" "cx\<lparr>lua := l\<rparr>" f hex8] names
    by (auto simp: list_all_iff)
  have init: "alone (init_models (models (config cx))) d (\<lambda>res d'. res = Inr () \<and> startup_effect cx d d')"
  proof (rule alone_mono [OF alone_init_models])
    show "distinct (map fst (models (config cx)))" using assms by (simp add: all_model_names_def)
    have lease: "lease_key j \<notin> slots_capacity_key ` A \<union> slots_in_use_key ` A" for j A by auto
    fix res d'
    assume e: "res = Inr () \<and> list_all (model_ready d d') (models (config cx)) \<and>
      (\<forall>k. k \<notin> slots_capacity_key ` fst ` set (models (config cx)) \<union> slots_in_use_key ` fst ` set (models (config cx)) \<longrightarrow>
         kv d' k = kv d k \<and> key_exists d' k = key_exists d k) \<and>
      (\<forall>m. zs d' (queue_key m) = zs d (queue_key m) \<and> zs d' (inflight_key m) = zs d (inflight_key m)) \<and>
      (\<forall>j. hs d' (job_key j) = hs d (job_key j))"
    then have "key_exists d' (lease_key j) = key_exists d (lease_key j)" for j using lease by blast
    with e show "res = Inr () \<and> startup_effect cx d d'" by (simp add: startup_effect_def)
  qed
  show ?thesis
    unfolding startup_def connect_redis_def
  proof (simp, rule alone_load_all, simp, rule alone_mono [OF init], goal_cases)
    case (1 l res d')
    let ?f = "start_forwarder (new_forwarder (backend_litellm_url (scheduler (config cx))))"
    obtain ws where ws: "make_workers (cx\<lparr>lua := l\<rparr>) ?f hex8 (all_model_names (config cx)) = Inr ws"
        "map wk_model ws = all_model_names (config cx)" "list_all (\<lambda>w. wk_forwarder w = ?f) ws"
      using workers by blast
    with 1 show ?case by (auto simp: Let_def start_forwarder_def)
  qed
qed

text \<open>
  Start-up against a Redis that answers: the scripts are loaded, each listed model has its
  capacity stored and one worker with a started forwarder, a slot counter that exists survives
  the restart, a missing one starts at zero, and no queue, inflight set or job is touched.
\<close>

theorem startup_prepares_models:
  assumes "exact_server H view" and "distinct (all_model_names (config cx))"
  shows "case run H (startup cx hex8) s of (res, s') \<Rightarrow>
    (\<exists>scripts f ws. res = Inr (scripts, f, ws) \<and> lua_loaded scripts \<and> started f \<and>
       map wk_model ws = all_model_names (config cx) \<and> list_all (\<lambda>w. wk_forwarder w = f) ws) \<and>
    list_all (model_ready (view s) (view s')) (models (config cx)) \<and>
    (\<forall>m. zs (view s') (queue_key m) = zs (view s) (queue_key m) \<and>
       zs (view s') (inflight_key m) = zs (view s) (inflight_key m)) \<and>
    (\<forall>j. hs (view s') (job_key j) = hs (view s) (job_key j))"
  by (rule alone_sound [OF assms(1)], rule alone_mono [OF alone_startup [OF assms(2)]])
    (auto simp: startup_effect_def)

theorem startup_prepares_models_witness:
  "case run scripted (startup demo_ctx (\<lambda>_. ''0'')) (demo_claimed ''3'', []) of (res, s') \<Rightarrow>
    (\<exists>scripts f ws. res = Inr (scripts, f, ws) \<and> lua_loaded scripts \<and> started f \<and>
       map wk_model ws = [''code''] \<and> list_all (\<lambda>w. wk_forwarder w = f) ws) \<and>
    model_ready (demo_claimed ''3'') (fst s') (''code'', demo_model) \<and>
    (\<forall>m. zs (fst s') (queue_key m) = zs (demo_claimed ''3'') (queue_key m) \<and>
       zs (fst s') (inflight_key m) = zs (demo_claimed ''3'') (inflight_key m)) \<and>
    (\<forall>j. hs (fst s') (job_key j) = hs (demo_claimed ''3'') (job_key j))"
  using startup_prepares_models [OF scripted.exact_server_axioms, where cx = demo_ctx and ?hex8.0 = "\<lambda>_. ''0''"
      and s = "(demo_claimed ''3'', [])"]
  by (simp add: all_model_names_def)

end
