(* ===== verification/Frames.thy ===== *)
theory Frames imports Startup begin

text \<open>
  Which commands each program of the scheduler can issue, whatever the server replies. Most are
  routine: they read, or write a job, a lease, an inflight entry, and lower a slot counter. The
  others are named one by one. The lemmas are proved once for any predicate that allows these
  commands; the invariants of the system and the statement on what is sent to the backend
  interpret them.
\<close>

definition issues :: "('c \<Rightarrow> bool) \<Rightarrow> ('c \<Rightarrow> 'r \<Rightarrow> bool) \<Rightarrow> ('c, 'r, 'a) tree \<Rightarrow> bool" where
  "issues ok G m \<longleftrightarrow> wp ok G m (\<lambda>_. True)"

named_theorems issue_rules \<open>programs that issue only allowed commands\<close>

lemma issues_wp: "issues ok G m \<Longrightarrow> (\<And>x. Q x) \<Longrightarrow> wp ok G m Q"
  unfolding issues_def by (erule wp_mono)

lemma issues_andThen [issue_rules]:
  "issues ok G m \<Longrightarrow> (\<And>a. issues ok G (f a)) \<Longrightarrow> issues ok G (andThen m f)"
  unfolding issues_def wp_andThen by (rule issues_wp [unfolded issues_def]) (auto split: sum.splits)

lemma issues_catch [issue_rules]:
  "issues ok G m \<Longrightarrow> (\<And>e. issues ok G (h e)) \<Longrightarrow> issues ok G (catch m h)"
  unfolding issues_def wp_catch by (rule issues_wp [unfolded issues_def]) (auto split: sum.splits)

lemma issues_catch_redis [issue_rules]:
  "issues ok G m \<Longrightarrow> issues ok G h \<Longrightarrow> issues ok G (catch_redis m h)"
  unfolding issues_def wp_catch_redis by (rule issues_wp [unfolded issues_def]) (auto split: sum.splits)

lemma issues_finally [issue_rules]:
  "issues ok G m \<Longrightarrow> issues ok G f \<Longrightarrow> issues ok G (finally_do m f)"
  unfolding issues_def wp_finally by (rule issues_wp [unfolded issues_def]) (auto split: sum.splits)

lemma issues_bind: "issues ok G m \<Longrightarrow> (\<And>a. issues ok G (f a)) \<Longrightarrow> issues ok G (bind m f)"
  unfolding issues_def wp_bind by (rule issues_wp [unfolded issues_def]) auto

lemma issues_pure [issue_rules]:
  "issues ok G (return a)" "issues ok G (raise e)" "issues ok G (lift x)"
  by (simp_all add: issues_def)

lemma issues_calls [issue_rules]:
  "ok (Redis c) \<Longrightarrow> issues ok G (redis c)"
  "ok (Multi cs) \<Longrightarrow> issues ok G (pipeline cs)"
  "ok (Eval t) \<Longrightarrow> issues ok G (evalsha t)"
  "ok (Env e) \<Longrightarrow> issues ok G (read_env e)"
  "ok (Env IsoNow) \<Longrightarrow> issues ok G iso_now"
  "ok (Env StopIsSet) \<Longrightarrow> issues ok G stop_is_set"
  "ok (Env (Sleep t')) \<Longrightarrow> issues ok G (sleep t')"
  "ok (Env (Metric m)) \<Longrightarrow> issues ok G (metric m)"
  "ok (Env (Emit v)) \<Longrightarrow> issues ok G (emit v)"
  "ok (Env (HttpPost u b to)) \<Longrightarrow> issues ok G (http_post u b to)"
  "ok (Env (HttpGet u to)) \<Longrightarrow> issues ok G (http_get u to)"
  by (simp_all add: issues_def io_defs http_post_def http_get_def)

lemma andThen_lift [simp]: "andThen (lift (Inr a)) f = f a" "andThen (lift (Inl e)) f = raise e"
  by (simp_all add: andThen_def lift_def raise_def)

subsection \<open>Routine commands\<close>

fun routine_call :: "rcmd \<Rightarrow> bool" where
  "routine_call (SET k v ex nx) = (nx \<and> (\<exists>h. k = idem_key h))"
| "routine_call (SETNX k v) = False"
| "routine_call (SETEX k t v) = (\<exists>j. k = lease_key j)"
| "routine_call (INCRBY k n) = ((\<exists>m. k = seq_key m) \<or> (n < 0 \<and> (\<exists>m. k = slots_in_use_key m)))"
| "routine_call (DEL k) = (\<exists>j. k = lease_key j)"
| "routine_call (EXPIRE k t) = (\<exists>j. k = job_key j)"
| "routine_call (HSET k vs) = (\<exists>j. k = job_key j)"
| "routine_call (ZADD k sc m) = (\<exists>n. k = inflight_key n)"
| "routine_call (ZREM k m) = (\<exists>n. k = inflight_key n)"
| "routine_call (BZPOPMIN k) = (\<exists>n. k = queue_key n)"
| "routine_call (SADD k m) = (\<exists>n. k = dlq_key n)"
| "routine_call _ = True"

definition routine :: "cmd \<Rightarrow> bool" where
  "routine c \<longleftrightarrow>
     (case c of
        Redis r \<Rightarrow> routine_call r
      | Multi rs \<Rightarrow> list_all routine_call rs
      | Eval t \<Rightarrow> (\<exists>m jk j ts. t = cancel_queued_script (queue_key m) (job_key jk) j ts)
      | Env e \<Rightarrow> (\<forall>u b t. e \<noteq> HttpPost u b t) \<and> (\<forall>m. e = Metric m \<longrightarrow> declared m))"

lemma routine_simps [simp]:
  "routine (Redis r) = routine_call r" "routine (Multi rs) = list_all routine_call rs"
  "routine (Eval (cancel_queued_script (queue_key m) (job_key jk) j ts))"
  "routine (Env e) \<longleftrightarrow> (\<forall>u b t. e \<noteq> HttpPost u b t) \<and> (\<forall>m. e = Metric m \<longrightarrow> declared m)"
  by (auto simp: routine_def)

locale allowed =
  fixes ok :: "cmd \<Rightarrow> bool" and G :: "cmd \<Rightarrow> reply \<Rightarrow> bool"
  assumes routine_ok: "routine c \<Longrightarrow> ok c"
begin

lemma metrics_allowed [issue_rules]:
  "issues ok G (record_admission m r)" "issues ok G (record_completion m a b c)"
  "issues ok G (record_failure m e)" "issues ok G (record_timeout m e)" "issues ok G (record_cancel m)"
  "issues ok G (record_worker_crash m)" "issues ok G (record_redis_error e)"
  "issues ok G (update_slot_gauges m i j)" "issues ok G (update_queue_depth m i)"
  "issues ok G (update_dlq_depth m i)"
  by (auto simp: metrics_defs intro!: issue_rules routine_ok)

lemma events_allowed [issue_rules]:
  "issues ok G (build_base_event ev j rid m c cm p)"
  "issues ok G (build_dispatched_event j rid m c cm p w bt kv')"
  "issues ok G (build_completed_event j rid m c cm p w r tp tc bt)"
  by (auto simp: build_base_event_def build_dispatched_event_def build_completed_event_def
      intro!: issue_rules routine_ok)

lemma uuid7_allowed [issue_rules]: "issues ok G uuid7"
  by (auto simp: uuid7_def intro!: issue_rules routine_ok)

lemma marks_allowed [issue_rules]:
  "issues ok G (publish j st)" "issues ok G (release_slot w j)" "issues ok G (cleanup_slot_minimal w j)"
  "issues ok G (write_terminal j vs opn)"
  by (auto simp: publish_def release_slot_def cleanup_slot_minimal_def write_terminal_def
      intro!: issue_rules routine_ok)

lemma ends_allowed [issue_rules]:
  "issues ok G (cleanup_slot w j st ec)"
  "issues ok G (mark_completed j rid m c p response wu bu bt)"
  "issues ok G (mark_failed j rid m c p ec msg ht)"
  "issues ok G (mark_cancelled_dispatched j rid m c p)"
  by (auto simp: cleanup_slot_def mark_completed_def mark_failed_def mark_cancelled_dispatched_def Let_def
      intro!: issue_rules routine_ok)

lemma dispatch_steps_allowed [issue_rules]:
  "issues ok G (set_lease w j ttl)" "issues ok G (fetch_job w j)" "issues ok G (enqueued_at t)"
  "issues ok G (pop_job w)"
  by (auto simp: set_lease_def fetch_job_def enqueued_at_def pop_job_def
      intro!: issue_rules routine_ok split: option.splits)

lemma watcher_steps_allowed [issue_rules]:
  "issues ok G (reclaim_write m j)" "issues ok G (dispatch_epoch m j now)" "issues ok G (crash_info j)"
  "issues ok G (update_dlq_gauge m)"
  by (auto simp: reclaim_write_def dispatch_epoch_def crash_info_def update_dlq_gauge_def
      intro!: issue_rules routine_ok)

lemma after_reclaim_allowed [issue_rules]: "issues ok G (after_reclaim m j age)"
  by (auto simp: after_reclaim_def intro!: issue_rules routine_ok split: prod.splits)

lemma reclaim_allowed [issue_rules]:
  "issues ok G (reclaim_if_orphaned m j now)"
  by (auto simp: reclaim_if_orphaned_def Let_def intro!: issue_rules routine_ok)

lemma reclaim_all_allowed [issue_rules]: "issues ok G (reclaim_all m js now)"
  by (induction js) (auto intro!: issue_rules)

lemma scan_model_allowed [issue_rules]: "issues ok G (scan_model cx m)"
  by (auto simp: scan_model_def Let_def intro!: issue_rules routine_ok)

lemma for_models_allowed: "(\<And>m. issues ok G (f m)) \<Longrightarrow> issues ok G (for_models f ms)"
  by (induction ms) (auto intro!: issue_rules)

lemma periodic_allowed: "issues ok G body \<Longrightarrow> issues ok G (periodic body opn i n)"
  by (induction n) (auto intro!: issue_rules routine_ok)

lemma run_watcher_allowed [issue_rules]: "issues ok G (run_watcher cx n)"
  by (auto simp: run_watcher_def scan_all_models_def intro!: periodic_allowed for_models_allowed issue_rules)

lemma wait_loop_allowed [issue_rules]: "issues ok G (wait_loop j dl pos n)"
  by (induction n) (auto simp: Let_def intro!: issue_rules routine_ok split: reply.splits)

lemma routes_steps_allowed [issue_rules]:
  "issues ok G (wait_for_completion j t n)" "issues ok G (store_payload j b)" "issues ok G (load_blob j)"
  by (auto simp: wait_for_completion_def store_payload_def load_blob_def intro!: issue_rules routine_ok)

lemma wait_result_allowed [issue_rules]: "issues ok G (wait_result m j t res)"
  by (auto simp: wait_result_def Let_def intro!: issue_rules routine_ok split: option.splits)

lemma cancel_script_allowed [issue_rules]:
  "issues ok G (evalsha_cancel_queued l (queue_key m) (job_key jk) j ts)"
  by (auto simp: evalsha_cancel_queued_def require_sha_def intro!: issue_rules routine_ok split: option.splits)

lemma get_job_allowed [issue_rules]: "issues ok G (get_job j)"
  by (auto simp: get_job_def Let_def intro!: issue_rules routine_ok split: prod.splits)

lemma cancel_job_allowed [issue_rules]: "issues ok G (cancel_job cx j)"
  by (auto simp: cancel_job_def Let_def intro!: issue_rules routine_ok)

lemma queue_snapshot_allowed [issue_rules]: "issues ok G (queue_snapshot_of cx m)"
  by (auto simp: queue_snapshot_of_def oldest_age_def Let_def intro!: issue_rules routine_ok
      split: reply.splits option.splits)

lemma get_queues_allowed [issue_rules]: "issues ok G (get_queues cx)"
proof -
  have "issues ok G (queue_snapshots cx ms)" for ms
    by (induction ms) (auto intro!: issue_rules)
  then show ?thesis by (simp add: get_queues_def)
qed

lemma health_allowed [issue_rules]: "issues ok G (health f ws)"
  by (auto simp: health_def ping_status_def check_health_def Let_def intro!: issue_rules routine_ok
      split: exn.splits)

end

subsection \<open>The commands that are not routine\<close>

text \<open>
  The scripts that claim a slot and that enqueue a job, the call of the backend, and the
  correction of a drifted counter, which depends on the counts the server reported.
\<close>

locale allowed_app = allowed +
  fixes cx :: ctx
  assumes enqueue_ok: "model_config_for (config cx) m = Inr mc \<Longrightarrow>
      ok (Eval (enqueue_job_script (queue_key m) (job_key j) j sc (max_queue_depth mc) fvs))"
    and claim_ok: "ok (Eval (claim_slot_script (slots_in_use_key m) (slots_capacity_key m) j ts))"
    and post_ok: "ok (Env (HttpPost u b t))"
    and drift_ok: "G (Redis (ZCARD (inflight_key m))) ra \<Longrightarrow> G (Redis (GET (slots_in_use_key m))) rr \<Longrightarrow>
      checked ra = Inr ra' \<Longrightarrow> bytes_int rr = Inr recorded \<Longrightarrow> reply_int ra' + 2 < recorded \<Longrightarrow>
      ok (Redis (SET (slots_in_use_key m) (Str (show_int (reply_int ra'))) None False))"
begin

lemma admit_steps_allowed [issue_rules]:
  "issues ok G (idempotency_check cx k)" "issues ok G (reject_job cx mc m j rid c cm p)"
  "issues ok G (accept_job cx m j rid c cm p k)"
  by (auto simp: idempotency_check_def reject_job_def accept_job_def record_idempotency_def Let_def
      intro!: issue_rules routine_ok split: option.splits)

lemma enqueue_script_allowed:
  "model_config_for (config cx) m = Inr mc \<Longrightarrow>
     issues ok G (evalsha_enqueue_job l (queue_key m) (job_key j) j sc (max_queue_depth mc) fvs)"
  by (auto simp: evalsha_enqueue_job_def require_sha_def intro!: issue_rules enqueue_ok split: option.splits)

lemma admit_allowed [issue_rules]: "issues ok G (admit cx m payload p c cm k)"
proof (cases "model_config_for (config cx) m")
  case (Inl e)
  then show ?thesis by (simp add: admit_def issue_rules)
next
  case (Inr mc)
  have new: "issues ok G (enqueue_new cx mc m payload p c cm k rid)" for p rid
    by (auto simp: enqueue_new_def Let_def
        intro!: issue_rules routine_ok enqueue_script_allowed [OF Inr])
  then show ?thesis
    by (auto simp: admit_def Inr intro!: issue_rules split: option.splits)
qed

lemma chat_allowed [issue_rules]: "issues ok G (chat_completions cx rq n)"
  by (auto simp: chat_completions_def Let_def intro!: issue_rules split: option.splits admission_result.splits)

lemma submit_allowed [issue_rules]: "issues ok G (submit_job cx rq)"
  by (auto simp: submit_job_def Let_def intro!: issue_rules)

lemma claim_loop_allowed [issue_rules]: "issues ok G (claim_loop cx w j n)"
  by (induction n) (auto simp: evalsha_claim_slot_def require_sha_def intro!: issue_rules routine_ok claim_ok
      split: option.splits)

lemma forward_allowed [issue_rules]: "issues ok G (forward cx f b t)"
  by (auto simp: forward_def raise_for_status_def response_json_def Let_def intro!: issue_rules post_ok
      split: reply.splits option.splits)

lemma dispatch_allowed [issue_rules]:
  "issues ok G (forward_and_mark cx w j rid m c p wu b)" "issues ok G (process_job cx w j h)"
  "issues ok G (dispatch_claimed cx w j ttl)"
proof -
  show *: "issues ok G (forward_and_mark cx w j rid m c p wu b)" for rid m c p wu b
    by (auto simp: forward_and_mark_def intro!: issue_rules routine_ok)
  show **: "issues ok G (process_job cx w j h)" for h
    by (auto simp: process_job_def Let_def intro!: issue_rules routine_ok *)
  show "issues ok G (dispatch_claimed cx w j ttl)"
    by (auto simp: dispatch_claimed_def intro!: issue_rules ** split: option.splits list.splits)
qed

lemma wait_claim_allowed [issue_rules]: "issues ok G (wait_for_slot_and_claim cx w j ttl n)"
  by (auto simp: wait_for_slot_and_claim_def intro!: issue_rules split: option.splits bool.splits)

lemma run_worker_allowed [issue_rules]: "issues ok G (run_worker cx w n k)"
  by (induction k) (auto intro!: issue_rules routine_ok split: option.splits)

lemma update_gauges_allowed [issue_rules]: "issues ok G (update_gauges cx m a)"
  by (auto simp: update_gauges_def intro!: issue_rules routine_ok)

lemma wp_read_counts:
  assumes "\<And>ra rr ra'. G (Redis (ZCARD (inflight_key m))) ra \<Longrightarrow> G (Redis (GET (slots_in_use_key m))) rr \<Longrightarrow>
      checked ra = Inr ra' \<Longrightarrow> Q (Inr (Some (ra', rr)))"
    and "\<And>e. Q (Inl e)" and "Q (Inr None)"
  shows "wp ok G (read_counts m) Q"
proof -
  have chk: "checked r = Inr r' \<Longrightarrow> r' = r" for r r'
    by (cases r) (auto simp: checked_def)
  have err: "wp ok G (record_redis_error ''integrity_read'') R" if "\<And>x. R x" for R
    by (rule issues_wp [OF metrics_allowed(7)]) (rule that)
  show ?thesis
    unfolding read_counts_def using assms
    by (auto split: sum.splits intro!: routine_ok err dest: chk)
qed

lemma check_model_allowed [issue_rules]: "issues ok G (check_model cx m)"
proof -
  have rest: "issues ok G (andThen (lift (bytes_int rr)) (\<lambda>recorded. let actual = reply_int ra' in
      andThen (correct_drift m recorded actual) (\<lambda>go_on. if go_on then update_gauges cx m actual else return ())))"
    if g: "G (Redis (ZCARD (inflight_key m))) ra" "G (Redis (GET (slots_in_use_key m))) rr" "checked ra = Inr ra'"
    for ra ra' rr
  proof (cases "bytes_int rr")
    case (Inl e)
    then show ?thesis by (simp add: issue_rules)
  next
    case (Inr recorded)
    have "ok (Env (Emit v))" for v by (rule routine_ok) simp
    then have "issues ok G (correct_drift m recorded (reply_int ra'))"
      using drift_ok [OF g Inr] by (auto simp: correct_drift_def intro!: issue_rules)
    then show ?thesis by (auto simp: Inr Let_def intro!: issue_rules)
  qed
  show ?thesis
    unfolding issues_def check_model_def wp_andThen
    by (rule wp_read_counts) (simp_all only: sum.case option.case prod.case rest [unfolded issues_def],
        simp add: return_def)
qed

lemma run_integrity_allowed [issue_rules]: "issues ok G (run_integrity cx n)"
  by (auto simp: run_integrity_def check_all_models_def intro!: periodic_allowed for_models_allowed issue_rules)

end

end
