(* ===== verification/System.thy ===== *)
theory System imports Frames begin

text \<open>
  The whole system: any number of requests, the worker of each model, the lease watcher and the
  integrity checker, interleaved at their calls, over a server that may fail at any call, with
  tasks that may die and keys that may expire. The slot counters and the queues stay within
  their bounds.
\<close>

subsection \<open>The programs\<close>

definition forget :: "'a io \<Rightarrow> (cmd, reply, unit) tree" where
  "forget m = bind m (\<lambda>_. Ret ())"

inductive app_program :: "ctx \<Rightarrow> (cmd, reply, unit) tree \<Rightarrow> bool" for cx where
  chat: "app_program cx (forget (chat_completions cx rq n))"
| submit: "app_program cx (forget (submit_job cx sq))"
| status: "app_program cx (forget (get_job j))"
| cancel: "app_program cx (forget (cancel_job cx j))"
| queues: "app_program cx (forget (get_queues cx))"
| healths: "app_program cx (forget (health f ws))"
| dispatcher: "app_program cx (forget (run_worker cx w n k))"
| watcher: "app_program cx (forget (run_watcher cx n))"
| checker: "app_program cx (forget (run_integrity cx n))"

inductive_cases app_programE: "app_program cx p"

lemma forget_allowed: "issues ok G m \<Longrightarrow> wp ok G (forget m) (\<lambda>_. True)"
  by (simp add: forget_def issues_def)

context allowed_app
begin

lemma program_allowed:
  assumes "app_program cx p"
  shows "wp ok G p (\<lambda>_. True)"
  using assms by cases (auto intro!: forget_allowed issue_rules)

end

subsection \<open>Slots\<close>

definition slot_ok :: "db \<Rightarrow> string \<times> model_config \<Rightarrow> bool" where
  "slot_ok d nm \<longleftrightarrow>
     (case counter d (slots_in_use_key (fst nm)) of None \<Rightarrow> False
      | Some n \<Rightarrow> n \<le> max 0 (max_concurrency (snd nm))) \<and>
     kv d (slots_capacity_key (fst nm)) \<in> {None, Some (Str (show_int (max_concurrency (snd nm))))}"

definition slot_inv :: "app_config \<Rightarrow> db \<Rightarrow> bool" where
  "slot_inv cfg d \<longleftrightarrow> list_all (slot_ok d) (models cfg)"

lemma slot_inv_frame:
  "slot_inv cfg d \<Longrightarrow> (\<And>m. kv d' (slots_in_use_key m) = kv d (slots_in_use_key m)) \<Longrightarrow>
     (\<And>m. kv d' (slots_capacity_key m) = kv d (slots_capacity_key m)) \<Longrightarrow> slot_inv cfg d'"
  by (simp add: slot_inv_def slot_ok_def counter_def list_all_iff)

text \<open>A counter may be lowered, reset, or lost with its key.\<close>

lemma slot_inv_lower:
  assumes "slot_inv cfg d" and "\<And>n. counter d (slots_in_use_key m) = Some n \<Longrightarrow> n' \<le> max 0 n" and "in_int64 n'"
    and "kv d' = (kv d)(slots_in_use_key m \<mapsto> Str (show_int n'))"
  shows "slot_inv cfg d'"
proof -
  have "slot_ok d' nm" if "slot_ok d nm" for nm
    using that assms(2-4) by (cases "fst nm = m") (auto simp: slot_ok_def counter_def split: option.splits)
  with assms(1) show ?thesis by (simp add: slot_inv_def list_all_iff)
qed

lemma slot_inv_del: "slot_inv cfg d \<Longrightarrow> slot_inv cfg (del_key k d)"
proof -
  assume "slot_inv cfg d"
  moreover have "slot_ok d nm \<Longrightarrow> slot_ok (del_key k d) nm" for nm
    by (auto simp: slot_ok_def counter_def split: option.splits)
  ultimately show ?thesis by (simp add: slot_inv_def list_all_iff)
qed

lemma slot_routine: "routine_call c \<Longrightarrow> slot_inv cfg d \<Longrightarrow> slot_inv cfg (snd (redis_call c d))"
proof (cases c)
  case (INCRBY k n)
  assume r: "routine_call c" and i: "slot_inv cfg d"
  show ?thesis
  proof (cases "\<exists>m. k = seq_key m")
    case True
    with i INCRBY show ?thesis by (auto intro: slot_inv_frame split: option.splits)
  next
    case False
    with r INCRBY obtain m where m: "k = slots_in_use_key m" "n < 0" by auto
    with i INCRBY show ?thesis
      by (auto simp: counter_def intro!: slot_inv_lower [OF i] split: option.splits)
  qed
qed (auto intro: slot_inv_frame slot_inv_del split: option.splits list.splits)

lemma harmless_simps:
  "harmless I (Redis c) \<longleftrightarrow> (\<forall>d. I d \<longrightarrow> I (snd (redis_call c d)))"
  "harmless I (Env e)"
  "harmless I (Eval t) \<longleftrightarrow> (\<forall>d. I d \<longrightarrow> I (snd (run redis_call t d)))"
  by (simp_all add: harmless_def)

lemma harmless_multi:
  "(\<And>c d. c \<in> set cs \<Longrightarrow> I d \<Longrightarrow> I (snd (redis_call c d))) \<Longrightarrow> harmless I (Multi cs)"
proof -
  assume step: "\<And>c d. c \<in> set cs \<Longrightarrow> I d \<Longrightarrow> I (snd (redis_call c d))"
  have "I d \<Longrightarrow> I (snd (redis_multi cs d))" for d
    using step by (induction cs arbitrary: d) auto
  then show ?thesis by (simp add: harmless_def)
qed

lemma slot_cancel: "slot_inv cfg d \<Longrightarrow> slot_inv cfg (snd (run redis_call (cancel_queued_script (queue_key m) (job_key jk) j ts) d))"
  by (auto simp: cancel_queued_run intro: slot_inv_frame)

lemma claim_slot_cases:
  "snd (run redis_call (claim_slot_script ik ck j ts) d) = d \<or>
   (\<exists>i c. counter d ik = Some i \<and> tonumber (case kv d ck of None \<Rightarrow> RNil | Some v \<Rightarrow> RVal v) = Some c \<and> i < c \<and>
      in_int64 (i + 1) \<and> snd (run redis_call (claim_slot_script ik ck j ts) d) = claimed ik (i + 1) j ts d)"
proof -
  have get: "redis_call (GET k) d = (case kv d k of None \<Rightarrow> RNil | Some v \<Rightarrow> RVal v, d)" for k by simp
  have ne: "\<not> is_err (case v of None \<Rightarrow> RNil | Some v \<Rightarrow> RVal v)" for v :: "rval option"
    by (cases v) simp_all
  show ?thesis
  proof (cases "counter d ik")
    case None
    then show ?thesis
      by (auto simp: claim_slot_script_def lua_call_def Let_def get ne counter_def not_an_integer_def
          simp del: redis_call.simps(1) split: option.splits)
  next
    case (Some i)
    note iv = tonumber_in_use [OF Some]
    show ?thesis
      using Some
      by (auto simp: claim_slot_script_def lua_call_def Let_def get ne iv counter_def not_an_integer_def
          claimed_def job_key_def simp del: redis_call.simps(1) split: option.split if_splits)
  qed
qed

lemma slot_claim:
  assumes "slot_inv cfg d"
  shows "slot_inv cfg (snd (run redis_call (claim_slot_script (slots_in_use_key m) (slots_capacity_key m) j ts) d))"
proof -
  let ?d' = "snd (run redis_call (claim_slot_script (slots_in_use_key m) (slots_capacity_key m) j ts) d)"
  consider "?d' = d" | i c where "counter d (slots_in_use_key m) = Some i"
      "tonumber (case kv d (slots_capacity_key m) of None \<Rightarrow> RNil | Some v \<Rightarrow> RVal v) = Some c" "i < c"
      "in_int64 (i + 1)" "?d' = claimed (slots_in_use_key m) (i + 1) j ts d"
    using claim_slot_cases [of "slots_in_use_key m" "slots_capacity_key m" j ts d] by blast
  then show ?thesis
  proof cases
    case 1
    with assms show ?thesis by simp
  next
    case 2
    have "slot_ok ?d' nm" if "slot_ok d nm" for nm
      unfolding 2(5) using that 2(1-4)
      by (cases "fst nm = m") (auto simp: slot_ok_def counter_def claimed_def split: option.splits)
    with assms show ?thesis by (simp add: slot_inv_def list_all_iff)
  qed
qed

lemma slot_enqueue: "slot_inv cfg d \<Longrightarrow>
   slot_inv cfg (snd (run redis_call (enqueue_job_script (queue_key m) (job_key j) jid sc mx fvs) d))"
  by (auto simp: enqueue_job_script_def lua_call_def Let_def intro: slot_inv_frame split: option.splits)

lemma counter_int64: "counter d k = Some r \<Longrightarrow> in_int64 r"
  by (cases "kv d k" rule: redis_int.cases)
    (auto simp: counter_def redis_int.simps(2) in_int64_def split: option.splits if_splits)

lemma slot_drift:
  assumes "slot_inv cfg d" and "slot_inv cfg d0"
    and "bytes_int (fst (redis_call (GET (slots_in_use_key m)) d0)) = Inr r" and "n' < r" and "0 \<le> n'"
  shows "slot_inv cfg (snd (redis_call (SET (slots_in_use_key m) (Str (show_int n')) None False) d))"
proof -
  have "slot_ok (snd (redis_call (SET (slots_in_use_key m) (Str (show_int n')) None False) d)) nm"
    if "slot_ok d nm" "slot_ok d0 nm" for nm
  proof (cases "fst nm = m")
    case True
    with that(2) obtain i where i: "counter d0 (slots_in_use_key m) = Some i" "i \<le> max 0 (max_concurrency (snd nm))"
      by (auto simp: slot_ok_def split: option.splits)
    then have "r = i" using assms(3) bytes_int_counter [OF i(1)] by simp
    moreover from this have "in_int64 n'"
      using counter_int64 [OF i(1)] assms(4,5) by (auto simp: in_int64_def)
    ultimately show ?thesis using that(1) True i(2) assms(4) by (auto simp: slot_ok_def counter_def)
  next
    case False
    with that(1) show ?thesis by (simp add: slot_ok_def counter_def)
  qed
  with assms(1,2) show ?thesis by (simp add: slot_inv_def list_all_iff del: redis_call.simps)
qed

interpretation slots: allowed_app "harmless (slot_inv (config cx))" "replying (slot_inv (config cx))" cx for cx
proof unfold_locales
  fix c
  assume r: "routine c"
  show "harmless (slot_inv (config cx)) c"
  proof (cases c)
    case (Redis x)
    with r show ?thesis by (simp add: harmless_simps slot_routine del: redis_call.simps)
  next
    case (Multi xs)
    with r show ?thesis by (auto intro!: harmless_multi slot_routine simp: list_all_iff)
  next
    case (Eval t)
    with r show ?thesis by (auto simp: routine_def harmless_simps slot_cancel)
  next
    case (Env e)
    then show ?thesis by (simp add: harmless_simps)
  qed
next
  fix m :: string and ra rr ra' :: reply and recorded :: int
  assume ra: "replying (slot_inv (config cx)) (Redis (ZCARD (inflight_key m))) ra"
    and rr: "replying (slot_inv (config cx)) (Redis (GET (slots_in_use_key m))) rr"
    and ch: "checked ra = Inr ra'" and b: "bytes_int rr = Inr recorded" and lt: "reply_int ra' + 2 < recorded"
  have nf: "\<not> fault ra" using ch by (auto simp: fault_iff)
  then have n: "0 \<le> reply_int ra'" using ra ch by (auto simp: replying_def)
  have "\<not> fault rr"
  proof
    assume "fault rr"
    then have "recorded = 0" using b by (auto simp: fault_iff bytes_int_def)
    with lt n show False by simp
  qed
  with rr obtain d where d: "slot_inv (config cx) d" "rr = fst (redis_exec (Redis (GET (slots_in_use_key m))) d)"
    by (auto simp: replying_def)
  show "harmless (slot_inv (config cx)) (Redis (SET (slots_in_use_key m) (Str (show_int (reply_int ra'))) None False))"
    using slot_drift [OF _ d(1) _ _ n] b d(2) lt by (auto simp: harmless_simps simp del: redis_call.simps)
qed (simp_all add: harmless_simps slot_claim slot_enqueue)

subsection \<open>Queues\<close>

definition queue_inv :: "app_config \<Rightarrow> db \<Rightarrow> bool" where
  "queue_inv cfg d \<longleftrightarrow> (\<forall>k. zwf (zs d k)) \<and>
     (\<forall>m mc. model_config_for cfg m = Inr mc \<longrightarrow> int (length (zs d (queue_key m))) \<le> max 0 (max_queue_depth mc))"

lemma queue_inv_shrink:
  assumes "queue_inv cfg d" and "\<And>k. zwf (zs d' k)"
    and "\<And>m. length (zs d' (queue_key m)) \<le> length (zs d (queue_key m))"
  shows "queue_inv cfg d'"
proof -
  have "int (length (zs d' (queue_key m))) \<le> max 0 (max_queue_depth mc)"
    if "model_config_for cfg m = Inr mc" for m mc
    using assms(1,3) that unfolding queue_inv_def by (meson of_nat_mono order_trans)
  with assms(2) show ?thesis by (simp add: queue_inv_def)
qed

lemma queue_inv_frame: "queue_inv cfg d \<Longrightarrow> zs d' = zs d \<Longrightarrow> queue_inv cfg d'"
  by (simp add: queue_inv_def)

lemma queue_inv_zwf: "queue_inv cfg d \<Longrightarrow> zwf (zs d k)"
  by (simp add: queue_inv_def)

lemma queue_inv_del: "queue_inv cfg d \<Longrightarrow> queue_inv cfg (del_key k d)"
  by (rule queue_inv_shrink) (auto simp: queue_inv_zwf)

text \<open>Every command but ZADD on a queue leaves the queues no longer than they were.\<close>

lemma queue_call:
  assumes "queue_inv cfg d" and "\<And>k sc j. c = ZADD k sc j \<Longrightarrow> \<exists>n. k = inflight_key n"
  shows "queue_inv cfg (snd (redis_call c d))"
proof (cases c)
  case (ZADD k sc j)
  with assms obtain n where "k = inflight_key n" by auto
  then show ?thesis using assms(1) ZADD
    by (intro queue_inv_shrink [OF assms(1)]) (auto simp: queue_inv_zwf zwf_zadd)
next
  case (ZREM k j)
  then show ?thesis using assms(1)
    by (intro queue_inv_shrink [OF assms(1)]) (auto simp: queue_inv_zwf zwf_zrem length_zrem_le)
next
  case (BZPOPMIN k)
  show ?thesis
  proof (cases "zs d k")
    case Nil
    with BZPOPMIN assms(1) show ?thesis by simp
  next
    case (Cons e z)
    then have "zwf z" using queue_inv_zwf [OF assms(1), of k] zwf_tl by simp
    with BZPOPMIN Cons show ?thesis
      by (intro queue_inv_shrink [OF assms(1)]) (auto simp: queue_inv_zwf [OF assms(1)])
  qed
qed (use assms(1) in \<open>auto intro: queue_inv_frame queue_inv_del split: option.splits list.splits\<close>)

lemma queue_routine: "routine_call c \<Longrightarrow> queue_inv cfg d \<Longrightarrow> queue_inv cfg (snd (redis_call c d))"
  by (rule queue_call) (auto split: if_splits)

lemma queue_cancel:
  "queue_inv cfg d \<Longrightarrow> queue_inv cfg (snd (run redis_call (cancel_queued_script (queue_key m) (job_key jk) j ts) d))"
  by (auto simp: cancel_queued_run queue_inv_zwf zwf_zrem length_zrem_le intro: queue_inv_shrink)

lemma queue_claim:
  "queue_inv cfg d \<Longrightarrow>
     queue_inv cfg (snd (run redis_call (claim_slot_script (slots_in_use_key m) (slots_capacity_key m) j ts) d))"
  using claim_slot_cases [of "slots_in_use_key m" "slots_capacity_key m" j ts d]
  by (auto simp: claimed_def intro: queue_inv_frame)

lemma queue_enqueue:
  assumes "queue_inv cfg d" and "model_config_for cfg m = Inr mc"
  shows "queue_inv cfg (snd (run redis_call
    (enqueue_job_script (queue_key m) (job_key j) jid sc (max_queue_depth mc) fvs) d))"
proof (cases "int (length (zs d (queue_key m))) < max_queue_depth mc")
  case False
  with assms(1) show ?thesis by (simp add: enqueue_job_script_def lua_call_def)
next
  case True
  let ?d = "d\<lparr>zs := (zs d)(queue_key m := zadd_list sc jid (zs d (queue_key m)))\<rparr>"
  have "queue_inv cfg ?d"
    using assms True length_zadd_le [of sc jid "zs d (queue_key m)"]
    by (auto simp: queue_inv_def zwf_zadd)
  with True show ?thesis
    by (auto simp: enqueue_job_script_def lua_call_def Let_def intro: queue_inv_frame split: option.splits)
qed

interpretation queues: allowed_app "harmless (queue_inv (config cx))" "replying (queue_inv (config cx))" cx for cx
proof unfold_locales
  fix c
  assume r: "routine c"
  show "harmless (queue_inv (config cx)) c"
  proof (cases c)
    case (Redis x)
    with r show ?thesis by (simp add: harmless_simps queue_routine del: redis_call.simps)
  next
    case (Multi xs)
    with r show ?thesis by (auto intro!: harmless_multi queue_routine simp: list_all_iff)
  next
    case (Eval t)
    with r show ?thesis by (auto simp: routine_def harmless_simps queue_cancel)
  next
    case (Env e)
    then show ?thesis by (simp add: harmless_simps)
  qed
next
  fix m ra' 
  show "harmless (queue_inv (config cx)) (Redis (SET (slots_in_use_key m) (Str (show_int (reply_int ra'))) None False))"
    unfolding harmless_simps by (intro allI impI queue_call) auto
qed (simp_all add: harmless_simps queue_claim queue_enqueue)

subsection \<open>The invariants of the interleaved system\<close>

lemma slot_server: "redis_server H view \<Longrightarrow> server_invariant H view (slot_inv cfg)"
  by (intro server_invariant.intro server_invariant_axioms.intro) (auto simp: expires_def slot_inv_del)

lemma queue_server: "redis_server H view \<Longrightarrow> server_invariant H view (queue_inv cfg)"
  by (intro server_invariant.intro server_invariant_axioms.intro) (auto simp: expires_def queue_inv_del)

interpretation slot_system: server_invariant flaky fst "slot_inv cfg" for cfg
  by (rule slot_server [OF flaky.redis_server_axioms])

interpretation queue_system: server_invariant flaky fst "queue_inv cfg" for cfg
  by (rule queue_server [OF flaky.redis_server_axioms])

text \<open>What start-up leaves is a state from which the invariants hold.\<close>

lemma model_ready_slot_inv:
  assumes "list_all (model_ready d d') (models cfg)" and "valid_config cfg"
    and "\<And>m. \<not> key_exists d (slots_in_use_key m)"
  shows "slot_inv cfg d'"
proof -
  have "slot_ok d' nm" if "model_ready d d' nm" "valid_model_config (snd nm)" for nm
    using that assms(3) by (simp add: slot_ok_def model_ready_def counter_def in_int64_def valid_model_config_def)
  with assms(1,2) show ?thesis by (auto simp: slot_inv_def list_all_iff valid_config_def)
qed

text \<open>
  C2. The counter of a model never exceeds its capacity: in every state that any interleaving
  of the programs reaches, over a server that may fail at any call, with tasks that die and
  keys that expire. (It is not always the number of running calls: see \<open>slot_released_twice\<close>.)
\<close>

theorem slots_never_exceed_capacity:
  assumes "redis_server H view" and "valid_config (config cx)" and "slot_inv (config cx) (view s0)"
    and "reachable H (\<lambda>s s'. expires (view s) (view s')) (app_program cx) s0 x"
    and "(m, mc) \<in> set (models (config cx))"
  shows "\<exists>n. counter (view (fst x)) (slots_in_use_key m) = Some n \<and> n \<le> max_concurrency mc"
proof -
  have "slot_inv (config cx) (view (fst x))"
    by (rule server_invariant.reachable_invariant [OF slot_server [OF assms(1)] assms(4) slots.program_allowed assms(3)])
  moreover have "1 \<le> max_concurrency mc"
    using assms(2,5) by (auto simp: valid_config_def list_all_iff valid_model_config_def)
  ultimately show ?thesis
    using assms(5) by (auto simp: slot_inv_def list_all_iff slot_ok_def split: option.splits)
qed

definition demo_start :: db where
  "demo_start = empty_db\<lparr>kv := (kv empty_db)(slots_in_use_key ''code'' \<mapsto> Str (show_int 0),
     slots_capacity_key ''code'' \<mapsto> Str (show_int 2))\<rparr>"

lemma demo_start_inv: "slot_inv (config demo_ctx) demo_start" "queue_inv (config demo_ctx) demo_start"
  by (simp_all add: slot_inv_def slot_ok_def counter_def demo_start_def in_int64_def queue_inv_def)

lemma demo_start_slots: "slot_inv (config demo_ctx) (fst (demo_start, [False]))"
  unfolding fst_conv by (rule demo_start_inv)

lemma demo_start_queues: "queue_inv (config demo_ctx) (fst (demo_start, [False]))"
  unfolding fst_conv by (rule demo_start_inv)

lemma demo_model_configured:
  "(''code'', demo_model) \<in> set (models (config demo_ctx))" "model_config_for (config demo_ctx) ''code'' = Inr demo_model"
  by simp_all

lemma demo_valid: "valid_config (config demo_ctx)"
  by (simp add: valid_config_def valid_model_config_def)

text \<open>A request and a worker under way over a server that fails the first call.\<close>

definition demo_progs :: "(cmd, reply, unit) tree list" where
  "demo_progs = [forget (submit_job demo_ctx demo_submit), forget (run_worker demo_ctx demo_worker 9 9)]"

lemma demo_reachable:
  "reachable flaky (\<lambda>s s'. expires (fst s) (fst s')) (app_program demo_ctx) (demo_start, [False])
     ((demo_start, [False]), demo_progs)"
proof -
  let ?R = "reachable flaky (\<lambda>s s'. expires (fst s) (fst s')) (app_program demo_ctx) (demo_start, [False])"
  have 0: "?R ((demo_start, [False]), [])" by (rule reachable.start)
  have 1: "?R ((demo_start, [False]), [] @ [forget (submit_job demo_ctx demo_submit)])"
    by (rule reachable.more [OF 0], rule sys_step.spawn, rule app_program.submit)
  have 2: "?R ((demo_start, [False]), ([] @ [forget (submit_job demo_ctx demo_submit)]) @
      [forget (run_worker demo_ctx demo_worker 9 9)])"
    by (rule reachable.more [OF 1], rule sys_step.spawn, rule app_program.dispatcher)
  then show ?thesis by (simp add: demo_progs_def)
qed

theorem slots_never_exceed_capacity_witness:
  "\<exists>n. counter (fst (fst ((demo_start, [False]), demo_progs))) (slots_in_use_key ''code'') = Some n \<and>
     n \<le> max_concurrency demo_model"
  by (rule slots_never_exceed_capacity [OF flaky.redis_server_axioms demo_valid demo_start_slots demo_reachable
        demo_model_configured(1)])

text \<open>
  No queue ever grows beyond the configured depth of its model, in every state any
  interleaving reaches over a failing server: the depth is tested and the entry added in one
  atomic script. Every sorted set stays ordered and free of duplicates.
\<close>

theorem queues_stay_bounded:
  assumes "redis_server H view" and "valid_config (config cx)" and "queue_inv (config cx) (view s0)"
    and "reachable H (\<lambda>s s'. expires (view s) (view s')) (app_program cx) s0 x"
    and "model_config_for (config cx) m = Inr mc"
  shows "int (length (zs (view (fst x)) (queue_key m))) \<le> max_queue_depth mc \<and> zwf (zs (view (fst x)) (queue_key m))"
proof -
  have "queue_inv (config cx) (view (fst x))"
    by (rule server_invariant.reachable_invariant [OF queue_server [OF assms(1)] assms(4) queues.program_allowed assms(3)])
  moreover have "valid_model_config mc"
    using assms(2,5) by (auto simp: model_config_for_def dest: make_model_config_valid valid_config_lookup
        split: option.splits)
  ultimately show ?thesis
    using assms(5) by (fastforce simp: queue_inv_def valid_model_config_def)
qed

theorem queues_stay_bounded_witness:
  "int (length (zs (fst (fst ((demo_start, [False]), demo_progs))) (queue_key ''code''))) \<le> max_queue_depth demo_model \<and>
     zwf (zs (fst (fst ((demo_start, [False]), demo_progs))) (queue_key ''code''))"
  by (rule queues_stay_bounded [OF flaky.redis_server_axioms demo_valid demo_start_queues demo_reachable
        demo_model_configured(2)])

subsection \<open>What is sent to the backend\<close>

lemma issues_trace: "issues ok (\<lambda>_ _. True) m \<Longrightarrow> list_all ok (trace H m s)"
  unfolding issues_def by (induction m arbitrary: s) auto

subsection \<open>What is asked of the metrics registry\<close>

definition metric_declared :: "cmd \<Rightarrow> bool" where
  "metric_declared c \<longleftrightarrow> (case c of Env (Metric m) \<Rightarrow> declared m | _ \<Rightarrow> True)"

interpretation metrics: allowed_app metric_declared "\<lambda>_ _. True" cx for cx
  by unfold_locales (auto simp: metric_declared_def routine_def split: cmd.splits ecmd.splits)

text \<open>
  Every program of the scheduler uses only collectors that \<open>metrics.py\<close> declares, each by its
  kind and with exactly its labels, whatever the server replies; no two collectors share a
  name, and the buckets of the histograms increase. So \<open>labels\<close> never raises, and the registry
  accepts the declarations.
\<close>

theorem metrics_are_declared:
  assumes "app_program cx p"
  shows "list_all metric_declared (trace H p s) \<and> distinct (map collector_name collectors) \<and>
    sorted_wrt (<) duration_buckets"
proof -
  have "list_all metric_declared (trace H p s)"
    by (rule issues_trace) (simp add: issues_def metrics.program_allowed [OF assms])
  then show ?thesis
    by (simp add: collectors_def counters_def gauges_def histograms_def duration_buckets_def)
qed

theorem metrics_are_declared_witness:
  "list_all metric_declared (trace scripted (forget (get_queues demo_ctx)) (empty_db, [])) \<and>
     distinct (map collector_name collectors) \<and> sorted_wrt (<) duration_buckets"
  by (rule metrics_are_declared) (rule app_program.queues)

definition sends_only :: "worker \<Rightarrow> json \<Rightarrow> cmd \<Rightarrow> bool" where
  "sends_only w body c \<longleftrightarrow>
     (case c of
        Env (HttpPost u b t) \<Rightarrow> u = backend_url (wk_forwarder w) @ ''/v1/chat/completions'' \<and> b = body \<and>
          t = sync_timeout_seconds (wk_cfg w)
      | _ \<Rightarrow> True)"

interpretation sends: allowed "sends_only w body" "\<lambda>_ _. True" for w body
  by unfold_locales (auto simp: sends_only_def routine_def split: cmd.splits ecmd.splits)

lemma process_sends:
  assumes "dict_of (job_payload cx h) = Inr kvs"
  shows "issues (sends_only w (JObj (dict_put ''stream'' (JBool False) kvs))) (\<lambda>_ _. True) (process_job cx w j h)"
proof -
  have post: "sends_only w (JObj (dict_put ''stream'' (JBool False) kvs))
      (Env (HttpPost (backend_url (wk_forwarder w) @ ''/v1/chat/completions'')
        (JObj (dict_put ''stream'' (JBool False) kvs)) (sync_timeout_seconds (wk_cfg w))))"
    by (simp add: sends_only_def)
  have fwd: "issues (sends_only w (JObj (dict_put ''stream'' (JBool False) kvs))) (\<lambda>_ _. True)
      (forward cx (wk_forwarder w) (job_payload cx h) (sync_timeout_seconds (wk_cfg w)))"
    using post by (auto simp: forward_def assms raise_for_status_def response_json_def Let_def
        intro!: issue_rules split: reply.splits option.splits)
  show ?thesis
    by (auto simp: process_job_def forward_and_mark_def Let_def
        intro!: issue_rules sends.ends_allowed sends.marks_allowed sends.events_allowed
          sends.dispatch_steps_allowed sends.routine_ok fwd)
qed

text \<open>
  What a worker posts is the stored payload of its job, unchanged but for the field
  "stream", which is false, to the completions path of its backend with the timeout of its
  model: for every command it issues, whatever Redis and the backend reply.
\<close>

theorem backend_gets_stored_payload:
  assumes "dict_of (job_payload cx h) = Inr kvs"
  shows "list_all (sends_only w (JObj (dict_put ''stream'' (JBool False) kvs))) (trace H (process_job cx w j h) s)"
  by (rule issues_trace [OF process_sends [OF assms]])

theorem backend_gets_stored_payload_witness:
  "list_all (sends_only demo_worker (JObj (dict_put ''stream'' (JBool False) [(''model'', JStr ''code'')])))
     (trace scripted (process_job demo_ctx demo_worker ''j''
        [(''payload_json'', JsonText (JObj [(''model'', JStr ''code'')]))]) (empty_db, []))"
  by (rule backend_gets_stored_payload) (simp add: job_payload_def)



end
