(* ===== verification/Event_Loop.thy ===== *)
theory Event_Loop
  imports System
begin

text \<open>
  The asyncio event loop the application lives in. The lifespan of the application is one task, the
  main one; it creates the background tasks and waits for them. A background task runs a program of
  the scheduler until its next await; a request handler is a task as well. The loop holds the stop flags,
  the logger with its writer, and the clients of Redis and of the backend. \<open>loop_step\<close> is what can
  happen next, as asyncio documents it for \<open>create_task\<close>, \<open>wait_for\<close>, \<open>gather\<close> and \<open>cancel\<close>.
\<close>

subsection \<open>Tasks\<close>

text \<open>
  \<open>tk_body\<close> is what the task has still to do. A task is done when it has returned or raised; the result None
  is a loop that has used up its fuel and is still running. \<open>tk_cancel\<close>: a cancellation is requested and not
  yet delivered; \<open>tk_late\<close>: the wait for the task has timed out.
\<close>

record task =
  tk_name :: string
  tk_body :: "unit option io"
  tk_background :: bool
  tk_started :: bool
  tk_cancel :: bool
  tk_late :: bool

definition new_task :: "string \<Rightarrow> bool \<Rightarrow> unit option io \<Rightarrow> task" where
  "new_task name background body = \<lparr>tk_name = name, tk_body = body, tk_background = background,
     tk_started = False, tk_cancel = False, tk_late = False\<rparr>"

definition tk_done :: "task \<Rightarrow> bool" where
  "tk_done t \<longleftrightarrow> (case tk_body t of Ret (Inl _) \<Rightarrow> True | Ret (Inr (Some _)) \<Rightarrow> True | _ \<Rightarrow> False)"

definition request_cancel :: "task \<Rightarrow> task" where
  "request_cancel t = (if tk_done t then t else t\<lparr>tk_cancel := True\<rparr>)"

text \<open>What a wait for a task gives: its end, its exception, the timeout, or that another cancelled it.\<close>

datatype waited = Finished | Failed exn | Timed_Out | Was_Cancelled

definition waited_for :: "task \<Rightarrow> waited" where
  "waited_for t =
     (case tk_body t of
        Ret (Inl e) \<Rightarrow> if e = CancelledError then (if tk_late t then Timed_Out else Was_Cancelled) else Failed e
      | _ \<Rightarrow> Finished)"

text \<open>A task can be cancelled where it suspends; the other commands return at once.\<close>

definition suspends :: "cmd \<Rightarrow> bool" where
  "suspends c \<longleftrightarrow>
     (case c of
        Env (HttpPost _ _ _) \<Rightarrow> True | Env (HttpGet _ _) \<Rightarrow> True | Env (Sleep _) \<Rightarrow> True
      | Env (ScriptLoad _) \<Rightarrow> True | Env _ \<Rightarrow> False
      | _ \<Rightarrow> True)"

subsection \<open>Commands of the main task\<close>

text \<open>
  \<open>Wait_For\<close> of several tasks is \<open>gather\<close> of one \<open>wait_for\<close> each. \<open>Serve\<close> is the \<open>yield\<close> of the lifespan.
\<close>

datatype bcmd =
    Open_Redis string
  | Await cmd
  | Make_Dir string
  | Start_Writer
  | Open_Http
  | Create_Task string "unit option io"
  | Serve
  | Set_Stop "string list"
  | Wait_For "nat list" int
  | Cancel_Task nat
  | Put_Sentinel
  | Wait_Writer int
  | Cancel_Writer
  | Close_Log
  | Close_Http
  | Close_Redis

datatype breply = BUnit | BReply reply | BTask nat | BWaited "waited list" | BFail exn

type_synonym 'a boot = "(bcmd, breply, exn + 'a) tree"

subsection \<open>The state of the loop\<close>

datatype writer_state = Absent | Writing | Drained | Stopped
  \<comment> \<open>Drained: the writer has taken the sentinel; Stopped: it was cancelled\<close>

datatype client = Unmade | Open | Closed

record 's loop =
  lp_world :: 's
  lp_tasks :: "task list"
  lp_stops :: "string list"
  lp_log :: logger
  lp_writer :: writer_state
  lp_http :: client
  lp_redis :: client
  lp_main :: "unit boot"

definition new_loop :: "'s \<Rightarrow> logger \<Rightarrow> unit boot \<Rightarrow> 's loop" where
  "new_loop w l m = \<lparr>lp_world = w, lp_tasks = [], lp_stops = [], lp_log = l, lp_writer = Absent,
     lp_http = Unmade, lp_redis = Unmade, lp_main = m\<rparr>"

text \<open>A task's command that the loop answers itself, or that goes to the world.\<close>

definition task_command :: "(cmd \<Rightarrow> 's \<Rightarrow> reply \<times> 's) \<Rightarrow> string \<Rightarrow> cmd \<Rightarrow> 's loop \<Rightarrow> reply \<times> 's loop" where
  "task_command H name c x =
     (case c of
        Env StopIsSet \<Rightarrow> (RBool (name \<in> set (lp_stops x)), x)
      | Env (Emit ev) \<Rightarrow> (RNil, x\<lparr>lp_log := log_emit ev (lp_log x)\<rparr>)
      | _ \<Rightarrow> (fst (H c (lp_world x)), x\<lparr>lp_world := snd (H c (lp_world x))\<rparr>))"

text \<open>What a command of the main task that does not wait does; None when it cannot go on now.\<close>

fun main_command :: "(cmd \<Rightarrow> 's \<Rightarrow> reply \<times> 's) \<Rightarrow> bcmd \<Rightarrow> 's loop \<Rightarrow> (breply \<times> 's loop) option" where
  "main_command H (Open_Redis url) x = Some (BUnit, x\<lparr>lp_redis := Open\<rparr>)"
| "main_command H (Await c) x = (case task_command H [] c x of (r, x') \<Rightarrow> Some (BReply r, x'))"
| "main_command H (Make_Dir path) x = Some (BUnit, x)"
| "main_command H Start_Writer x = Some (BUnit, x\<lparr>lp_writer := Writing\<rparr>)"
| "main_command H Open_Http x = Some (BUnit, x\<lparr>lp_http := Open\<rparr>)"
| "main_command H (Create_Task name body) x =
     Some (BTask (length (lp_tasks x)), x\<lparr>lp_tasks := lp_tasks x @ [new_task name True body]\<rparr>)"
| "main_command H Serve x = Some (BUnit, x)"
| "main_command H (Set_Stop names) x = Some (BUnit, x\<lparr>lp_stops := names @ lp_stops x\<rparr>)"
| "main_command H (Wait_For ids timeout) x =
     (if list_all (\<lambda>i. i < length (lp_tasks x) \<and> tk_done (lp_tasks x ! i)) ids
      then Some (BWaited (map (\<lambda>i. waited_for (lp_tasks x ! i)) ids), x) else None)"
| "main_command H (Cancel_Task i) x =
     Some (BUnit, x\<lparr>lp_tasks := (lp_tasks x)[i := request_cancel (lp_tasks x ! i)]\<rparr>)"
| "main_command H Put_Sentinel x =
     (if queue_full (lp_log x) then None
      else Some (BUnit, x\<lparr>lp_log := (lp_log x)\<lparr>lg_queue := lg_queue (lp_log x) @ [None]\<rparr>\<rparr>))"
| "main_command H (Wait_Writer timeout) x =
     (if lp_writer x = Drained then Some (BWaited [Finished], x)
      else if lp_writer x = Stopped then Some (BWaited [Timed_Out], x) else None)"
| "main_command H Cancel_Writer x = Some (BUnit, x)"
| "main_command H Close_Log x = Some (BUnit, x\<lparr>lp_log := (lp_log x)\<lparr>lg_fh := None\<rparr>\<rparr>)"
| "main_command H Close_Http x = Some (BUnit, x\<lparr>lp_http := Closed\<rparr>)"
| "main_command H Close_Redis x = Some (BUnit, x\<lparr>lp_redis := Closed\<rparr>)"

text \<open>The calls of libraries that may raise.\<close>

fun may_fail :: "bcmd \<Rightarrow> bool" where
  "may_fail (Open_Redis _) = True"
| "may_fail (Make_Dir _) = True"
| "may_fail Serve = True"
| "may_fail Close_Http = True"
| "may_fail Close_Redis = True"
| "may_fail _ = False"

subsection \<open>Steps\<close>

definition set_body :: "'s loop \<Rightarrow> nat \<Rightarrow> task \<Rightarrow> unit option io \<Rightarrow> 's loop \<Rightarrow> 's loop" where
  "set_body x i t b x' = x'\<lparr>lp_tasks := (lp_tasks x)[i := t\<lparr>tk_body := b\<rparr>]\<rparr>"

text \<open>
  A step is: the next command of a task; a cancellation that reaches a task where it suspends (the command
  may have had its effect or not) or before it has begun; the end of a loop beyond its fuel; a timeout of
  the main task's wait, which cancels the task and goes on waiting for its end; the writer writes an
  event, takes the sentinel, or is cancelled by a timeout; a request arrives while the
  application serves; the next command of the main task, or its failure; a key expires.
\<close>

inductive loop_step ::
  "(cmd \<Rightarrow> 's \<Rightarrow> reply \<times> 's) \<Rightarrow> ('s \<Rightarrow> 's \<Rightarrow> bool) \<Rightarrow> (unit option io \<Rightarrow> bool) \<Rightarrow> 's loop \<Rightarrow> 's loop \<Rightarrow> bool"
  for H envr requests where
  task: "i < length (lp_tasks x) \<Longrightarrow> t = lp_tasks x ! i \<Longrightarrow> tk_body t = Call c k \<Longrightarrow>
    task_command H (tk_name t) c x = (r, x') \<Longrightarrow>
    loop_step H envr requests x (set_body x i (t\<lparr>tk_started := True\<rparr>) (k r) x')"
| cancelled: "i < length (lp_tasks x) \<Longrightarrow> t = lp_tasks x ! i \<Longrightarrow> tk_cancel t \<Longrightarrow> tk_started t \<Longrightarrow>
    tk_body t = Call c k \<Longrightarrow> suspends c \<Longrightarrow> w = lp_world x \<or> w = snd (H c (lp_world x)) \<Longrightarrow>
    loop_step H envr requests x
      (set_body x i (t\<lparr>tk_cancel := False\<rparr>) (k (RErr CancelledError)) (x\<lparr>lp_world := w\<rparr>))"
| unstarted: "i < length (lp_tasks x) \<Longrightarrow> t = lp_tasks x ! i \<Longrightarrow> tk_cancel t \<Longrightarrow> \<not> tk_started t \<Longrightarrow> \<not> tk_done t \<Longrightarrow>
    loop_step H envr requests x (set_body x i t (raise CancelledError) x)"
| spent: "i < length (lp_tasks x) \<Longrightarrow> t = lp_tasks x ! i \<Longrightarrow> tk_body t = Ret (Inr None) \<Longrightarrow>
    (b = raise CancelledError \<and> tk_cancel t) \<or> (b = return (Some ()) \<and> tk_name t \<in> set (lp_stops x)) \<Longrightarrow>
    loop_step H envr requests x (set_body x i t b x)"
| timeout: "lp_main x = Call (Wait_For ids s) k \<Longrightarrow> i \<in> set ids \<Longrightarrow> i < length (lp_tasks x) \<Longrightarrow> t = lp_tasks x ! i \<Longrightarrow>
    \<not> tk_done t \<Longrightarrow> \<not> tk_late t \<Longrightarrow>
    loop_step H envr requests x (x\<lparr>lp_tasks := (lp_tasks x)[i := t\<lparr>tk_cancel := True, tk_late := True\<rparr>]\<rparr>)"
| writes: "lp_writer x = Writing \<Longrightarrow> lg_queue (lp_log x) = Some ev # q \<Longrightarrow>
    loop_step H envr requests x (x\<lparr>lp_log := write_event today dk ev ((lp_log x)\<lparr>lg_queue := q\<rparr>)\<rparr>)"
| drain: "lp_writer x = Writing \<Longrightarrow> lg_queue (lp_log x) = None # q \<Longrightarrow>
    loop_step H envr requests x (x\<lparr>lp_log := (lp_log x)\<lparr>lg_queue := q\<rparr>, lp_writer := Drained\<rparr>)"
| writer_timeout: "lp_main x = Call (Wait_Writer s) k \<Longrightarrow> lp_writer x = Writing \<Longrightarrow>
    loop_step H envr requests x (x\<lparr>lp_writer := Stopped\<rparr>)"
| request: "lp_main x = Call Serve k \<Longrightarrow> requests p \<Longrightarrow>
    loop_step H envr requests x (x\<lparr>lp_tasks := lp_tasks x @ [new_task ''request'' False p]\<rparr>)"
| main: "lp_main x = Call c k \<Longrightarrow> main_command H c x = Some (r, x') \<Longrightarrow>
    loop_step H envr requests x (x'\<lparr>lp_main := k r\<rparr>)"
| main_fails: "lp_main x = Call c k \<Longrightarrow> may_fail c \<Longrightarrow>
    loop_step H envr requests x (x\<lparr>lp_main := k (BFail e)\<rparr>)"
| environ: "envr (lp_world x) w \<Longrightarrow> loop_step H envr requests x (x\<lparr>lp_world := w\<rparr>)"

abbreviation loop_run where
  "loop_run H envr requests \<equiv> (loop_step H envr requests)\<^sup>*\<^sup>*"

lemma task_command_simps [simp]:
  "lp_tasks (snd (task_command H n c x)) = lp_tasks x" "lp_main (snd (task_command H n c x)) = lp_main x"
  "lp_http (snd (task_command H n c x)) = lp_http x" "lp_redis (snd (task_command H n c x)) = lp_redis x"
  "lp_writer (snd (task_command H n c x)) = lp_writer x" "lp_stops (snd (task_command H n c x)) = lp_stops x"
  by (auto simp: task_command_def split: cmd.splits ecmd.splits)

lemma request_cancel_done:
  "i < length ts \<Longrightarrow> tk_done (ts ! i) \<Longrightarrow> tk_done (ts[j := request_cancel (ts ! j)] ! i)"
  by (cases "i = j") (auto simp: request_cancel_def)

text \<open>Once a task is done it stays done.\<close>

lemma done_stays:
  assumes "loop_step H envr requests x y" and "i < length (lp_tasks x)" and "tk_done (lp_tasks x ! i)"
  shows "i < length (lp_tasks y) \<and> tk_done (lp_tasks y ! i)"
  using assms
proof (induction rule: loop_step.induct)
  case (task j x t c k r x')
  then have "j \<noteq> i" by (auto simp: tk_done_def)
  with task show ?case by (simp add: set_body_def)
next
  case (cancelled j x t c k w)
  then have "j \<noteq> i" by (auto simp: tk_done_def)
  with cancelled show ?case by (simp add: set_body_def)
next
  case (spent j x t b)
  then have "j \<noteq> i" by (auto simp: tk_done_def)
  with spent show ?case by (simp add: set_body_def)
next
  case (unstarted j x t)
  then have "j \<noteq> i" by auto
  with unstarted show ?case by (simp add: set_body_def)
next
  case (timeout x ids s k j t)
  then have "j \<noteq> i" by auto
  with timeout show ?case by simp
next
  case (request x k p)
  then show ?case by (simp add: nth_append)
next
  case (main x c k r x')
  then show ?case
    by (cases c) (auto simp: nth_append request_cancel_done task_command_def
        split: if_splits prod.splits cmd.splits ecmd.splits)
qed auto

subsection \<open>An orderly end\<close>

text \<open>
  \<open>orderly B D s m Q\<close>: of a main program \<open>m\<close> that has created the background tasks \<open>B\<close>, seen the end of the
  tasks \<open>D\<close>, and is closing down when \<open>s\<close>. It closes the log and the clients only when it has seen the
  end of all its tasks, and creates none afterwards; the result satisfies \<open>Q\<close>.
\<close>

primrec orderly ::
  "nat set \<Rightarrow> nat set \<Rightarrow> bool \<Rightarrow> (bcmd, breply, 'a) tree \<Rightarrow> ('a \<Rightarrow> nat set \<Rightarrow> nat set \<Rightarrow> bool \<Rightarrow> bool) \<Rightarrow> bool" where
  "orderly B D s (Ret a) Q = Q a B D s"
| "orderly B D s (Call c k) Q =
     (case c of
        Create_Task name body \<Rightarrow> \<not> s \<and> (\<forall>i. orderly (insert i B) D s (k (BTask i)) Q)
      | Wait_For ids t \<Rightarrow> \<forall>ws. length ws = length ids \<longrightarrow> orderly B (D \<union> set ids) s (k (BWaited ws)) Q
      | Put_Sentinel \<Rightarrow> B \<subseteq> D \<and> orderly B D True (k BUnit) Q
      | Close_Log \<Rightarrow> B \<subseteq> D \<and> orderly B D True (k BUnit) Q
      | Close_Http \<Rightarrow> B \<subseteq> D \<and> (\<forall>r. orderly B D True (k r) Q)
      | Close_Redis \<Rightarrow> B \<subseteq> D \<and> (\<forall>r. orderly B D True (k r) Q)
      | _ \<Rightarrow> \<forall>r. orderly B D s (k r) Q)"

lemma orderly_bind [simp]:
  "orderly B D s (bind m f) Q = orderly B D s m (\<lambda>a B D s. orderly B D s (f a) Q)"
  by (induction m arbitrary: B D s) (auto split: bcmd.splits)

lemma orderly_mono:
  "orderly B D s m P \<Longrightarrow> (\<And>a B D s. P a B D s \<Longrightarrow> Q a B D s) \<Longrightarrow> orderly B D s m Q"
  by (induction m arbitrary: B D s) (auto split: bcmd.splits)

lemma orderly_return [simp]: "orderly B D s (return a) Q = Q (Inr a) B D s"
  by (simp add: return_def)

lemma orderly_raise [simp]: "orderly B D s (raise e) Q = Q (Inl e) B D s"
  by (simp add: raise_def)

lemma orderly_andThen [simp]:
  "orderly B D s (andThen m f) Q = orderly B D s m (\<lambda>x B D s.
     case x of Inl e \<Rightarrow> Q (Inl e) B D s | Inr a \<Rightarrow> orderly B D s (f a) Q)"
proof -
  have "(\<lambda>a B D s. orderly B D s (case a of Inl e \<Rightarrow> Ret (Inl e) | Inr a \<Rightarrow> f a) Q) =
      (\<lambda>x B D s. case x of Inl e \<Rightarrow> Q (Inl e) B D s | Inr a \<Rightarrow> orderly B D s (f a) Q)"
    by (auto simp: fun_eq_iff split: sum.splits)
  then show ?thesis by (simp add: andThen_def)
qed

lemma orderly_finally [simp]:
  "orderly B D s (finally_do m f) Q = orderly B D s m (\<lambda>x B D s. orderly B D s f (\<lambda>y B D s.
     case y of Inl e \<Rightarrow> Q (Inl e) B D s | Inr _ \<Rightarrow> Q x B D s))"
proof -
  have "(\<lambda>x B D s. orderly B D s f (\<lambda>y B D s. case y of Inl e \<Rightarrow> Q (Inl e) B D s
      | Inr (_ :: unit) \<Rightarrow> orderly B D s (Ret x) Q)) =
      (\<lambda>x B D s. orderly B D s f (\<lambda>y B D s. case y of Inl e \<Rightarrow> Q (Inl e) B D s | Inr _ \<Rightarrow> Q x B D s))"
    by (intro ext arg_cong [where f = "orderly _ _ _ f"]) (auto simp: fun_eq_iff split: sum.splits)
  then show ?thesis by (simp add: finally_do_def)
qed

text \<open>What the state of the loop says of such a program, and that every step keeps it.\<close>

definition shut :: "'s loop \<Rightarrow> bool" where
  "shut x \<longleftrightarrow> lp_redis x = Closed \<or> lp_http x = Closed \<or> lp_writer x = Drained \<or> None \<in> set (lg_queue (lp_log x))"

definition orderly_state :: "'s loop \<Rightarrow> nat set \<Rightarrow> nat set \<Rightarrow> bool \<Rightarrow> bool" where
  "orderly_state x B D s \<longleftrightarrow>
     orderly B D s (lp_main x) (\<lambda>_ _ _ _. True) \<and>
     (\<forall>i \<in> D. i < length (lp_tasks x) \<and> tk_done (lp_tasks x ! i)) \<and>
     (\<forall>i < length (lp_tasks x). tk_background (lp_tasks x ! i) \<longrightarrow> i \<in> B) \<and>
     (shut x \<longrightarrow> s) \<and> (s \<longrightarrow> B \<subseteq> D)"

lemma orderly_stateI:
  assumes "orderly B D s (lp_main x) (\<lambda>_ _ _ _. True)"
    and "\<And>i. i \<in> D \<Longrightarrow> i < length (lp_tasks x) \<and> tk_done (lp_tasks x ! i)"
    and "\<And>i. i < length (lp_tasks x) \<Longrightarrow> tk_background (lp_tasks x ! i) \<Longrightarrow> i \<in> B"
    and "shut x \<Longrightarrow> s" and "s \<Longrightarrow> B \<subseteq> D"
  shows "orderly_state x B D s"
  using assms unfolding orderly_state_def by blast

lemma write_event_frame [simp]: "lg_queue (write_event today dk ev l) = lg_queue l"
  by (rule write_event_queue)

lemma log_emit_sentinel [simp]: "None \<in> set (lg_queue (log_emit ev l)) \<longleftrightarrow> None \<in> set (lg_queue l)"
  by (auto simp: log_emit_def)

lemma shut_main [simp]: "shut (x\<lparr>lp_main := m\<rparr>) = shut x"
  by (simp add: shut_def)

lemma task_command_shut [simp]: "shut (snd (task_command H n c x)) = shut x"
  by (auto simp: task_command_def shut_def split: cmd.splits ecmd.splits)

lemma background_update [simp]:
  "tk_background t = tk_background (ts ! i) \<Longrightarrow> map tk_background (ts[i := t]) = map tk_background ts"
  by (cases "i < length ts") (simp_all add: map_update list_update_same_conv list_update_beyond)

lemma request_cancel_background [simp]: "tk_background (request_cancel t) = tk_background t"
  by (simp add: request_cancel_def)

lemma task_command_sentinel [simp]:
  "None \<in> set (lg_queue (lp_log (snd (task_command H n c x)))) \<longleftrightarrow> None \<in> set (lg_queue (lp_log x))"
  by (auto simp: task_command_def split: cmd.splits ecmd.splits)

lemma main_command_await: "main_command H (Await c) x = Some (r, x') \<Longrightarrow>
    x' = snd (task_command H [] c x) \<and> r = BReply (fst (task_command H [] c x))"
  by (cases "task_command H [] c x") simp

lemma orderly_main:
  assumes "main_command H c x = Some (r, x')" and "lp_main x = Call c k" and "orderly_state x B D s"
    and stays: "\<And>i. i < length (lp_tasks x) \<Longrightarrow> tk_done (lp_tasks x ! i) \<Longrightarrow>
      i < length (lp_tasks x') \<and> tk_done (lp_tasks x' ! i)"
  shows "\<exists>B' D' s'. orderly_state (x'\<lparr>lp_main := k r\<rparr>) B' D' s'"
proof -
  have ord: "orderly B D s (Call c k) (\<lambda>_ _ _ _. True)" and D: "\<forall>i \<in> D. i < length (lp_tasks x) \<and> tk_done (lp_tasks x ! i)"
    and B: "\<forall>i < length (lp_tasks x). tk_background (lp_tasks x ! i) \<longrightarrow> i \<in> B" and s: "shut x \<longrightarrow> s" "s \<longrightarrow> B \<subseteq> D"
    using assms(2,3) by (simp_all add: orderly_state_def)
  have keep: ?thesis
    if "orderly B D s' (k r) (\<lambda>_ _ _ _. True)" "lp_tasks x' = lp_tasks x" "shut x' \<longrightarrow> s'" "s' \<longrightarrow> B \<subseteq> D" for s'
    using that D B by (intro exI [of _ B] exI [of _ D] exI [of _ s']) (simp add: orderly_state_def shut_def)
  show ?thesis
  proof (cases c)
    case (Await d)
    have "x' = snd (task_command H [] d x)"
      using main_command_await [OF assms(1) [unfolded Await]] by simp
    with ord s Await show ?thesis by (intro keep [of s]) simp_all
  next
    case (Create_Task name body)
    with assms(1) ord D B s stays show ?thesis
      by (intro exI [of _ "insert (length (lp_tasks x)) B"] exI [of _ D] exI [of _ s])
        (auto simp: orderly_state_def shut_def nth_append less_Suc_eq)
  next
    case (Wait_For ids t)
    with assms(1) have x': "x' = x" "r = BWaited (map (\<lambda>i. waited_for (lp_tasks x ! i)) ids)"
      and ended: "\<forall>i \<in> set ids. i < length (lp_tasks x) \<and> tk_done (lp_tasks x ! i)"
      by (auto simp: list_all_iff split: if_splits)
    from ord Wait_For x'(2) have "orderly B (D \<union> set ids) s (k r) (\<lambda>_ _ _ _. True)" by simp
    moreover have "\<forall>i \<in> D \<union> set ids. i < length (lp_tasks x) \<and> tk_done (lp_tasks x ! i)"
      using ended D by blast
    moreover have "s \<longrightarrow> B \<subseteq> D \<union> set ids" using s by blast
    ultimately have "orderly_state (x'\<lparr>lp_main := k r\<rparr>) B (D \<union> set ids) s"
      using B s(1) unfolding orderly_state_def shut_main x'(1) by simp
    then show ?thesis by blast
  next
    case (Cancel_Task j)
    have bg: "map tk_background (lp_tasks x') = map tk_background (lp_tasks x)"
      using assms(1) Cancel_Task by auto
    then have "length (lp_tasks x') = length (lp_tasks x)" by (rule map_eq_imp_length_eq)
    moreover from this bg have "tk_background (lp_tasks x' ! i) = tk_background (lp_tasks x ! i)"
      if "i < length (lp_tasks x)" for i
      using that by (metis nth_map)
    moreover have "orderly B D s (k r) (\<lambda>_ _ _ _. True)" "shut x' = shut x"
      using ord assms(1) Cancel_Task by (auto simp: shut_def)
    ultimately have "orderly_state (x'\<lparr>lp_main := k r\<rparr>) B D s"
      using B D s stays by (intro orderly_stateI) simp_all
    then show ?thesis by blast
  next
    case Put_Sentinel
    with assms(1) ord show ?thesis by (intro keep [of True]) (auto split: if_splits)
  next
    case Close_Log
    with assms(1) ord show ?thesis by (intro keep [of True]) auto
  next
    case Close_Http
    with assms(1) ord show ?thesis by (intro keep [of True]) auto
  next
    case Close_Redis
    with assms(1) ord show ?thesis by (intro keep [of True]) auto
  qed (use assms(1) ord s in \<open>intro keep [of s]; auto simp: shut_def split: if_splits\<close>)+
qed

lemma orderly_failure:
  assumes "may_fail c" and "orderly B D s (Call c k) Q"
  shows "\<exists>s'. orderly B D s' (k (BFail e)) Q \<and> (s \<longrightarrow> s') \<and> (s' \<longrightarrow> s \<or> B \<subseteq> D)"
  using assms by (cases c) (auto intro: exI [of _ s] exI [of _ True])

lemma orderly_kept:
  assumes "loop_step H envr requests x y" and "orderly_state x B D s"
  shows "\<exists>B' D' s'. orderly_state y B' D' s'"
proof -
  note stays = done_stays [OF assms(1)]
  have same: "orderly_state y B D s"
    if "lp_main y = lp_main x" "map tk_background (lp_tasks y) = map tk_background (lp_tasks x)" "shut y \<longrightarrow> shut x"
  proof -
    have len: "length (lp_tasks y) = length (lp_tasks x)" using that(2) by (rule map_eq_imp_length_eq)
    then have "tk_background (lp_tasks y ! i) = tk_background (lp_tasks x ! i)" if "i < length (lp_tasks x)" for i
      using that arg_cong [OF \<open>map tk_background (lp_tasks y) = map tk_background (lp_tasks x)\<close>, of "\<lambda>zs. zs ! i"]
      by simp
    with assms(2) that len stays show ?thesis unfolding orderly_state_def by auto
  qed
  have kept: ?thesis
    if "lp_main y = lp_main x" "map tk_background (lp_tasks y) = map tk_background (lp_tasks x)" "shut y \<longrightarrow> shut x"
    using same [OF that] by blast
  from assms(1) show ?thesis
  proof cases
    case (task i t c k r x')
    then have "x' = snd (task_command H (tk_name t) c x)" by (metis snd_conv)
    with task show ?thesis
      by (intro kept) (simp_all add: set_body_def shut_def)
  next
    case (main c k r x')
    then show ?thesis
      using orderly_main [OF main(3,2) assms(2)] stays by simp
  next
    case (main_fails c k e)
    from assms(2) main_fails(2) have "orderly B D s (Call c k) (\<lambda>_ _ _ _. True)"
      by (simp add: orderly_state_def)
    from orderly_failure [OF main_fails(3) this, of e] obtain s' where
      "orderly B D s' (k (BFail e)) (\<lambda>_ _ _ _. True)" "s \<longrightarrow> s'" "s' \<longrightarrow> s \<or> B \<subseteq> D" by blast
    with assms(2) have "orderly_state y B D s'"
      unfolding main_fails(1) orderly_state_def shut_main by simp blast
    then show ?thesis by blast
  next
    case (request k p)
    have "shut y = shut x" using request(1) by (simp add: shut_def)
    with assms(2) request(1) stays have "orderly_state y B D s"
      by (intro orderly_stateI) (auto simp: orderly_state_def nth_append less_Suc_eq new_task_def)
    then show ?thesis by blast
  qed (intro kept; simp add: set_body_def shut_def)+
qed

lemma orderly_run:
  assumes "loop_run H envr requests x y" and "orderly_state x B D s"
  shows "\<exists>B' D' s'. orderly_state y B' D' s'"
  using assms by (induction rule: rtranclp_induct) (blast intro: orderly_kept)+

definition background_done :: "'s loop \<Rightarrow> bool" where
  "background_done x \<longleftrightarrow> list_all (\<lambda>t. tk_background t \<longrightarrow> tk_done t) (lp_tasks x)"

lemma orderly_end: "orderly_state x B D s \<Longrightarrow> shut x \<Longrightarrow> background_done x"
  unfolding orderly_state_def background_done_def list_all_length by blast

subsection \<open>Running the loop\<close>

text \<open>A scheduler of the loop, to run it on: each move names the step to take; None if it is not possible.\<close>

datatype move =
    Do_Main
  | Do_Task nat
  | Do_Cancel nat
  | Do_Unstarted nat
  | Do_Timeout nat
  | Do_Write string disk
  | Do_Drain

definition do_main :: "(cmd \<Rightarrow> 's \<Rightarrow> reply \<times> 's) \<Rightarrow> 's loop \<Rightarrow> 's loop option" where
  "do_main H x =
     (case lp_main x of
        Ret _ \<Rightarrow> None
      | Call c k \<Rightarrow> map_option (\<lambda>(r, x'). x'\<lparr>lp_main := k r\<rparr>) (main_command H c x))"

definition do_task :: "(cmd \<Rightarrow> 's \<Rightarrow> reply \<times> 's) \<Rightarrow> nat \<Rightarrow> 's loop \<Rightarrow> 's loop option" where
  "do_task H i x =
     (let t = lp_tasks x ! i in
      if length (lp_tasks x) \<le> i then None
      else case tk_body t of
          Ret _ \<Rightarrow> None
        | Call c k \<Rightarrow>
            (case task_command H (tk_name t) c x of
               (r, x') \<Rightarrow> Some (set_body x i (t\<lparr>tk_started := True\<rparr>) (k r) x')))"

definition do_cancel :: "nat \<Rightarrow> 's loop \<Rightarrow> 's loop option" where
  "do_cancel i x =
     (let t = lp_tasks x ! i in
      if length (lp_tasks x) \<le> i \<or> \<not> tk_cancel t \<or> \<not> tk_started t then None
      else case tk_body t of
          Ret _ \<Rightarrow> None
        | Call c k \<Rightarrow>
            if suspends c then Some (set_body x i (t\<lparr>tk_cancel := False\<rparr>) (k (RErr CancelledError)) x) else None)"

definition do_unstarted :: "nat \<Rightarrow> 's loop \<Rightarrow> 's loop option" where
  "do_unstarted i x =
     (let t = lp_tasks x ! i in
      if i < length (lp_tasks x) \<and> tk_cancel t \<and> \<not> tk_started t \<and> \<not> tk_done t
      then Some (set_body x i t (raise CancelledError) x) else None)"

definition do_timeout :: "nat \<Rightarrow> 's loop \<Rightarrow> 's loop option" where
  "do_timeout i x =
     (let t = lp_tasks x ! i in
      case lp_main x of
        Call (Wait_For ids s) k \<Rightarrow>
          if i \<in> set ids \<and> i < length (lp_tasks x) \<and> \<not> tk_done t \<and> \<not> tk_late t
          then Some (x\<lparr>lp_tasks := (lp_tasks x)[i := t\<lparr>tk_cancel := True, tk_late := True\<rparr>]\<rparr>) else None
      | _ \<Rightarrow> None)"

fun moved :: "(cmd \<Rightarrow> 's \<Rightarrow> reply \<times> 's) \<Rightarrow> move \<Rightarrow> 's loop \<Rightarrow> 's loop option" where
  "moved H Do_Main x = do_main H x"
| "moved H (Do_Task i) x = do_task H i x"
| "moved H (Do_Cancel i) x = do_cancel i x"
| "moved H (Do_Unstarted i) x = do_unstarted i x"
| "moved H (Do_Timeout i) x = do_timeout i x"
| "moved H (Do_Write today dk) x =
     (case lg_queue (lp_log x) of
        Some ev # q \<Rightarrow>
          if lp_writer x = Writing then Some (x\<lparr>lp_log := write_event today dk ev ((lp_log x)\<lparr>lg_queue := q\<rparr>)\<rparr>)
          else None
      | _ \<Rightarrow> None)"
| "moved H Do_Drain x =
     (case lg_queue (lp_log x) of
        None # q \<Rightarrow>
          if lp_writer x = Writing then Some (x\<lparr>lp_log := (lp_log x)\<lparr>lg_queue := q\<rparr>, lp_writer := Drained\<rparr>) else None
      | _ \<Rightarrow> None)"

primrec moves :: "(cmd \<Rightarrow> 's \<Rightarrow> reply \<times> 's) \<Rightarrow> move list \<Rightarrow> 's loop \<Rightarrow> 's loop option" where
  "moves H [] x = Some x"
| "moves H (m # ms) x = Option.bind (moved H m x) (moves H ms)"

lemma moved_step: "moved H m x = Some y \<Longrightarrow> loop_step H envr requests x y"
proof (cases m)
  case Do_Main
  assume "moved H m x = Some y"
  with Do_Main show ?thesis
    by (auto simp: do_main_def split: tree.splits intro!: loop_step.main)
next
  case (Do_Task i)
  assume "moved H m x = Some y"
  with Do_Task show ?thesis
    by (auto simp: do_task_def Let_def split: tree.splits if_splits prod.splits intro!: loop_step.task)
next
  case (Do_Cancel i)
  assume "moved H m x = Some y"
  with Do_Cancel obtain c k where ck: "tk_body (lp_tasks x ! i) = Call c k" and *: "i < length (lp_tasks x)"
    "tk_cancel (lp_tasks x ! i)" "tk_started (lp_tasks x ! i)" "suspends c"
    "y = set_body x i ((lp_tasks x ! i)\<lparr>tk_cancel := False\<rparr>) (k (RErr CancelledError)) x"
    by (auto simp: do_cancel_def Let_def split: tree.splits if_splits)
  have "loop_step H envr requests x (set_body x i ((lp_tasks x ! i)\<lparr>tk_cancel := False\<rparr>) (k (RErr CancelledError))
      (x\<lparr>lp_world := lp_world x\<rparr>))"
    by (rule loop_step.cancelled) (use ck * in auto)
  with * show ?thesis by simp
next
  case (Do_Unstarted i)
  assume "moved H m x = Some y"
  with Do_Unstarted show ?thesis
    by (auto simp: do_unstarted_def Let_def split: if_splits intro!: loop_step.unstarted)
next
  case (Do_Timeout i)
  assume "moved H m x = Some y"
  with Do_Timeout show ?thesis
    by (auto simp: do_timeout_def Let_def split: tree.splits bcmd.splits if_splits intro!: loop_step.timeout)
next
  case (Do_Write today dk)
  assume "moved H m x = Some y"
  with Do_Write show ?thesis
    by (auto split: list.splits option.splits if_splits intro!: loop_step.writes)
next
  case Do_Drain
  assume "moved H m x = Some y"
  with Do_Drain show ?thesis
    by (auto split: list.splits option.splits if_splits intro!: loop_step.drain)
qed

lemma moves_run: "moves H ms x = Some y \<Longrightarrow> loop_run H envr requests x y"
  by (induction ms arbitrary: x) (auto split: bind_splits intro: converse_rtranclp_into_rtranclp moved_step)

end
