(* ===== verification/Lifecycle.thy ===== *)
theory Lifecycle
  imports Event_Loop
begin

text \<open>
  \<open>app/main.py\<close> as the main task of the event loop: start-up, which makes the clients and starts the
  background tasks, the \<open>yield\<close>, and shutdown; with the \<open>start\<close>, \<open>stop\<close> and \<open>is_alive\<close> of the worker, the
  lease watcher, the integrity checker, the logger and the forwarder.
\<close>

subsection \<open>Calls of the main task\<close>

definition boot_call :: "bcmd \<Rightarrow> breply boot" where
  "boot_call c = Call c (\<lambda>r. Ret (case r of BFail e \<Rightarrow> Inl e | _ \<Rightarrow> Inr r))"

definition boot_do :: "bcmd \<Rightarrow> unit boot" where
  "boot_do c = andThen (boot_call c) (\<lambda>_. return ())"

text \<open>A coroutine of the application awaited by the main task.\<close>

primrec boot_io :: "(cmd, reply, 'a) tree \<Rightarrow> (bcmd, breply, 'a) tree" where
  "boot_io (Ret a) = Ret a"
| "boot_io (Call c k) = Call (Await c) (\<lambda>r. boot_io (k (case r of BReply a \<Rightarrow> a | _ \<Rightarrow> RNil)))"

subsection \<open>Services\<close>

text \<open>
  The part of the worker, the watcher and the checker that is the same in the three classes: the stop flag,
  kept under the name of the task, and \<open>_task\<close>.
\<close>

record service =
  sv_name :: string
  sv_task :: "nat option"

definition new_service :: "string \<Rightarrow> service" where
  "new_service name = \<lparr>sv_name = name, sv_task = None\<rparr>"

definition start_service :: "service \<Rightarrow> unit option io \<Rightarrow> service boot" where
  "start_service sv body =
     andThen (boot_call (Create_Task (sv_name sv) body)) (\<lambda>r.
     return (sv\<lparr>sv_task := (case r of BTask i \<Rightarrow> Some i | _ \<Rightarrow> None)\<rparr>))"

definition is_alive :: "task list \<Rightarrow> service \<Rightarrow> bool" where
  "is_alive ts sv \<longleftrightarrow> (case sv_task sv of None \<Rightarrow> False | Some i \<Rightarrow> \<not> tk_done (ts ! i))"

definition nth_waited :: "breply \<Rightarrow> nat \<Rightarrow> waited" where
  "nth_waited r n = (case r of BWaited ws \<Rightarrow> if n < length ws then ws ! n else Finished | _ \<Rightarrow> Finished)"

definition after_wait :: "nat \<Rightarrow> waited \<Rightarrow> unit boot" where
  "after_wait i w =
     (case w of
        Finished \<Rightarrow> return ()
      | Failed e \<Rightarrow> raise e
      | Timed_Out \<Rightarrow> boot_do (Cancel_Task i)
      | Was_Cancelled \<Rightarrow> boot_do (Cancel_Task i))"

definition stop_service :: "service \<Rightarrow> unit boot" where
  "stop_service sv =
     andThen (boot_do (Set_Stop [sv_name sv])) (\<lambda>_.
     case sv_task sv of
       None \<Rightarrow> return ()
     | Some i \<Rightarrow>
         andThen (boot_call (Wait_For [i] 5)) (\<lambda>r. after_wait i (nth_waited r 0)))"

text \<open>The three classes. The number of rounds is the fuel of their loops.\<close>

definition worker_service :: "worker \<Rightarrow> service" where
  "worker_service w = new_service (''dispatcher-'' @ wk_model w)"

definition start_worker :: "ctx \<Rightarrow> worker \<Rightarrow> nat \<Rightarrow> service boot" where
  "start_worker cx w fuel = start_service (worker_service w) (run_worker cx w fuel fuel)"

definition start_watcher :: "ctx \<Rightarrow> nat \<Rightarrow> service boot" where
  "start_watcher cx fuel = start_service (new_service ''lease-watcher'') (run_watcher cx fuel)"

definition stop_watcher :: "service \<Rightarrow> unit boot" where
  "stop_watcher = stop_service"

definition start_checker :: "ctx \<Rightarrow> nat \<Rightarrow> service boot" where
  "start_checker cx fuel = start_service (new_service ''integrity-checker'') (run_integrity cx fuel)"

definition stop_checker :: "service \<Rightarrow> unit boot" where
  "stop_checker = stop_service"

lemmas classes = start_worker_def start_watcher_def stop_watcher_def start_checker_def stop_checker_def

text \<open>
  \<open>gather(*[w.stop() for w in workers], return_exceptions=True)\<close>: each \<open>stop\<close> runs to its first await, so all
  flags are set before the waits, which go on together; what a \<open>stop\<close> raises is dropped.
\<close>

primrec finish_stops :: "nat list \<Rightarrow> breply \<Rightarrow> nat \<Rightarrow> unit boot" where
  "finish_stops [] r n = return ()"
| "finish_stops (i # rest) r n =
     andThen (case nth_waited r n of Failed e \<Rightarrow> return () | w \<Rightarrow> after_wait i w) (\<lambda>_.
     finish_stops rest r (Suc n))"

definition stop_workers :: "service list \<Rightarrow> unit boot" where
  "stop_workers svs =
     (let ids = List.map_filter sv_task svs in
      andThen (boot_do (Set_Stop (map sv_name svs))) (\<lambda>_.
      andThen (boot_call (Wait_For ids 5)) (\<lambda>r. finish_stops ids r 0)))"

subsection \<open>The logger and the forwarder\<close>

definition start_logger :: "string \<Rightarrow> unit boot" where
  "start_logger dir = andThen (boot_do (Make_Dir dir)) (\<lambda>_. boot_do Start_Writer)"

definition stop_logger :: "unit boot" where
  "stop_logger =
     andThen (boot_do Put_Sentinel) (\<lambda>_.
     andThen (boot_call (Wait_Writer 5)) (\<lambda>r.
     andThen (case nth_waited r 0 of Timed_Out \<Rightarrow> boot_do Cancel_Writer | _ \<Rightarrow> return ()) (\<lambda>_.
     boot_do Close_Log)))"

definition stop_forwarder :: "forwarder \<Rightarrow> unit boot" where
  "stop_forwarder f = (if started f then boot_do Close_Http else return ())"

subsection \<open>Start-up\<close>

text \<open>\<open>app.state\<close>: an attribute that is not set is None.\<close>

record app_state =
  st_redis :: bool
  st_logger :: bool
  st_forwarder :: "forwarder option"
  st_workers :: "(string \<times> service) list option"
  st_watcher :: "service option"
  st_checker :: "service option"

primrec start_workers ::
  "ctx \<Rightarrow> forwarder \<Rightarrow> (string \<Rightarrow> string) \<Rightarrow> nat \<Rightarrow> string list \<Rightarrow> (string \<times> service) list boot" where
  "start_workers cx f hex8 fuel [] = return []"
| "start_workers cx f hex8 fuel (m # ms) =
     andThen (Ret (new_worker cx m (hex8 m) f)) (\<lambda>w.
     andThen (start_worker cx w fuel) (\<lambda>sv.
     andThen (start_workers cx f hex8 fuel ms) (\<lambda>rest. return ((m, sv) # rest))))"

definition startup_app :: "ctx \<Rightarrow> (string \<Rightarrow> string) \<Rightarrow> nat \<Rightarrow> app_state boot" where
  "startup_app cx hex8 fuel =
     (let sched = scheduler (config cx) in
      andThen (boot_do (Open_Redis (redis_url sched))) (\<lambda>_.
      andThen (boot_io (connect_redis cx)) (\<lambda>_.
      andThen (boot_io load_all) (\<lambda>scripts.
      andThen (boot_io (init_models (models (config cx)))) (\<lambda>_.
      andThen (start_logger (log_dir sched)) (\<lambda>_.
      let cx = cx\<lparr>lua := scripts\<rparr>; f = start_forwarder (new_forwarder (backend_litellm_url sched)) in
      andThen (boot_do Open_Http) (\<lambda>_.
      andThen (start_workers cx f hex8 fuel (all_model_names (config cx))) (\<lambda>workers.
      andThen (start_watcher cx fuel) (\<lambda>watcher.
      andThen (start_checker cx fuel) (\<lambda>checker.
      return \<lparr>st_redis = True, st_logger = True, st_forwarder = Some f, st_workers = Some workers,
              st_watcher = Some watcher, st_checker = Some checker\<rparr>))))))))))"

subsection \<open>Shutdown and the lifespan\<close>

definition shutdown_app :: "app_state \<Rightarrow> unit boot" where
  "shutdown_app st =
     andThen (case st_checker st of None \<Rightarrow> return () | Some sv \<Rightarrow> stop_checker sv) (\<lambda>_.
     andThen (case st_watcher st of None \<Rightarrow> return () | Some sv \<Rightarrow> stop_watcher sv) (\<lambda>_.
     andThen (case st_workers st of None \<Rightarrow> return () | Some ws \<Rightarrow> stop_workers (map snd ws)) (\<lambda>_.
     andThen (if st_logger st then stop_logger else return ()) (\<lambda>_.
     andThen (case st_forwarder st of None \<Rightarrow> return () | Some f \<Rightarrow> stop_forwarder f) (\<lambda>_.
     if st_redis st then boot_do Close_Redis else return ())))))"

definition lifespan :: "ctx \<Rightarrow> (string \<Rightarrow> string) \<Rightarrow> nat \<Rightarrow> unit boot" where
  "lifespan cx hex8 fuel =
     andThen (startup_app cx hex8 fuel) (\<lambda>st. finally_do (boot_do Serve) (shutdown_app st))"

text \<open>An application exists only for a configuration that loads.\<close>

definition create_app ::
  "(scheduler_config option \<times> defaults_config option \<times> (string \<times> raw_model) list) option \<Rightarrow> ctx \<Rightarrow>
   (string \<Rightarrow> string) \<Rightarrow> nat \<Rightarrow> exn + unit boot" where
  "create_app file cx hex8 fuel =
     (case load_config file of
        Inl e \<Rightarrow> Inl e
      | Inr cfg \<Rightarrow> Inr (lifespan (cx\<lparr>config := cfg\<rparr>) hex8 fuel))"

subsection \<open>The end of the application\<close>

lemma orderly_call [simp]:
  "orderly B D s (boot_call c) Q = orderly B D s (Call c (\<lambda>r. Ret (case r of BFail e \<Rightarrow> Inl e | _ \<Rightarrow> Inr r))) Q"
  by (simp add: boot_call_def)

lemma orderly_boot_io:
  "(\<And>a. Q a B D s) \<Longrightarrow> orderly B D s (boot_io m) Q"
  by (induction m) auto

lemma orderly_do:
  assumes "\<And>x. Q x B D s" and "c = Open_Redis u \<or> c = Make_Dir p \<or> c = Start_Writer \<or> c = Open_Http \<or> c = Serve \<or>
      c = Set_Stop ns \<or> c = Cancel_Task i \<or> c = Cancel_Writer"
  shows "orderly B D s (boot_do c) Q"
  using assms by (auto simp: boot_do_def split: breply.splits)

lemma orderly_after_wait: "(\<And>x. Q x B D s) \<Longrightarrow> orderly B D s (after_wait i w) Q"
  by (auto simp: after_wait_def split: waited.splits intro!: orderly_do)

lemma orderly_stop_service:
  assumes "\<And>x. Q x B (D \<union> set_option (sv_task sv)) s" and "\<And>e. Q (Inl e) B D s"
  shows "orderly B D s (stop_service sv) Q"
  unfolding stop_service_def orderly_andThen
  by (rule orderly_do)
    (use assms in \<open>auto split: sum.splits option.splits breply.splits intro!: orderly_after_wait\<close>)

lemma orderly_finish_stops: "(\<And>x. Q x B D s) \<Longrightarrow> orderly B D s (finish_stops ids r n) Q"
  by (induction ids arbitrary: n)
    (auto split: waited.splits sum.splits intro!: orderly_after_wait)

lemma orderly_stop_workers:
  assumes "\<And>x. Q x B (D \<union> set (List.map_filter sv_task svs)) s" and "\<And>e. Q (Inl e) B D s"
  shows "orderly B D s (stop_workers svs) Q"
  unfolding stop_workers_def Let_def orderly_andThen
  by (rule orderly_do)
    (use assms in \<open>auto split: sum.splits breply.splits intro!: orderly_finish_stops\<close>)

lemma orderly_closing:
  assumes "\<And>x. Q x B D True" and "B \<subseteq> D" and "c = Put_Sentinel \<or> c = Close_Log \<or> c = Close_Http \<or> c = Close_Redis"
  shows "orderly B D s (boot_do c) Q"
  using assms by (auto simp: boot_do_def split: breply.splits)

lemma orderly_stop_logger:
  assumes "\<And>x. Q x B D True" and "B \<subseteq> D"
  shows "orderly B D s stop_logger Q"
proof -
  have close: "orderly B D True (boot_do Close_Log) Q" by (rule orderly_closing) (use assms in simp_all)
  have cancel: "orderly B D True (boot_do Cancel_Writer) (\<lambda>x B D s. case x of Inl e \<Rightarrow> Q (Inl e) B D s
      | Inr a \<Rightarrow> orderly B D s (boot_do Close_Log) Q)"
    by (rule orderly_do) (use assms(1) close in \<open>auto split: sum.splits\<close>)
  show ?thesis
    unfolding stop_logger_def orderly_andThen
    by (rule orderly_closing) (use assms close cancel in \<open>auto split: sum.splits breply.splits waited.splits\<close>)
qed

lemma orderly_start_service:
  assumes "\<And>i. Q (Inr (sv\<lparr>sv_task := Some i\<rparr>)) (insert i B) D False"
  shows "orderly B D False (start_service sv body) Q"
  using assms by (simp add: start_service_def)

definition task_ids :: "service list \<Rightarrow> nat set" where
  "task_ids svs = set (List.map_filter sv_task svs)"

lemma task_ids_simps [simp]:
  "task_ids [] = {}" "task_ids (sv # svs) = set_option (sv_task sv) \<union> task_ids svs"
  by (auto simp: task_ids_def List.map_filter_simps split: option.splits)

lemma orderly_start_workers:
  assumes "\<And>ws. Q (Inr ws) (B \<union> task_ids (map snd ws)) D False" and "\<And>e B'. Q (Inl e) B' D False"
  shows "orderly B D False (start_workers cx f hex8 fuel ms) Q"
  using assms
proof (induction ms arbitrary: B Q)
  case Nil
  from Nil(1) [of "[]"] show ?case by simp
next
  case (Cons m ms)
  show ?case
  proof (cases "new_worker cx m (hex8 m) f")
    case (Inl e)
    with Cons.prems(2) show ?thesis by simp
  next
    case (Inr w)
    have "orderly (insert i B) D False (start_workers cx f hex8 fuel ms) (\<lambda>x B D s. case x of
        Inl e \<Rightarrow> Q (Inl e) B D s
      | Inr rest \<Rightarrow> orderly B D s (return ((m, (worker_service w)\<lparr>sv_task := Some i\<rparr>) # rest)) Q)" for i
      by (rule Cons.IH)
        (use Cons.prems(1) [of "(m, (worker_service w)\<lparr>sv_task := Some i\<rparr>) # rest" for rest]
           Cons.prems(2) in \<open>simp_all add: Un_commute insert_commute\<close>)
    then show ?thesis
      by (simp add: Inr start_worker_def) (rule orderly_start_service, simp)
  qed
qed

definition state_ids :: "app_state \<Rightarrow> nat set" where
  "state_ids st = task_ids (case_option [] (\<lambda>sv. [sv]) (st_checker st) @ case_option [] (\<lambda>sv. [sv]) (st_watcher st)
     @ case_option [] (map snd) (st_workers st))"

lemma orderly_seq:
  assumes "orderly B D s m (\<lambda>_ B' D' s'. B' = B \<and> D' = D \<and> s' = s)"
    and "\<And>e. Q (Inl e) B D s" and "\<And>a. orderly B D s (f a) Q"
  shows "orderly B D s (andThen m f) Q"
  unfolding orderly_andThen by (rule orderly_mono [OF assms(1)]) (use assms(2,3) in \<open>auto split: sum.splits\<close>)

lemma keep_io: "orderly B D s (boot_io m) (\<lambda>_ B' D' s'. B' = B \<and> D' = D \<and> s' = s)"
  by (rule orderly_boot_io) simp

lemma keep_do:
  "c = Open_Redis u \<or> c = Make_Dir p \<or> c = Start_Writer \<or> c = Open_Http \<Longrightarrow>
     orderly B D s (boot_do c) (\<lambda>_ B' D' s'. B' = B \<and> D' = D \<and> s' = s)"
  by (rule orderly_do) auto

lemma keep_logger: "orderly B D s (start_logger dir) (\<lambda>_ B' D' s'. B' = B \<and> D' = D \<and> s' = s)"
  unfolding start_logger_def by (rule orderly_seq, rule keep_do) (simp_all add: keep_do)

lemma orderly_startup:
  assumes "\<And>st. Q (Inr st) (state_ids st) {} False" and "\<And>e B. Q (Inl e) B {} False"
  shows "orderly {} {} False (startup_app cx hex8 fuel) Q"
proof -
  have tail: "orderly B {} False
      (andThen (start_service (new_service ''lease-watcher'') lw) (\<lambda>watcher.
       andThen (start_service (new_service ''integrity-checker'') ic) (\<lambda>checker.
       return \<lparr>st_redis = True, st_logger = True, st_forwarder = Some f, st_workers = Some workers,
              st_watcher = Some watcher, st_checker = Some checker\<rparr>))) Q"
    if "B = task_ids (map snd workers)" for B lw ic f workers
  proof -
    have "orderly (insert i B) {} False (start_service (new_service ''integrity-checker'') ic) (\<lambda>x B D s. case x of
        Inl e \<Rightarrow> Q (Inl e) B D s
      | Inr checker \<Rightarrow> orderly B D s (return \<lparr>st_redis = True, st_logger = True, st_forwarder = Some f,
          st_workers = Some workers, st_watcher = Some ((new_service ''lease-watcher'')\<lparr>sv_task := Some i\<rparr>),
          st_checker = Some checker\<rparr>) Q)" for i
      by (rule orderly_start_service)
        (use assms(1) [of "\<lparr>st_redis = True, st_logger = True, st_forwarder = Some f, st_workers = Some workers,
            st_watcher = Some ((new_service ''lease-watcher'')\<lparr>sv_task := Some i\<rparr>),
            st_checker = Some ((new_service ''integrity-checker'')\<lparr>sv_task := Some i'\<rparr>)\<rparr>" for i'] that
         in \<open>simp add: state_ids_def task_ids_def List.map_filter_simps\<close>)
    then show ?thesis by simp (rule orderly_start_service, simp)
  qed
  show ?thesis
    unfolding startup_app_def Let_def classes
    by ((rule orderly_seq, (rule keep_io | rule keep_logger | (rule keep_do, simp)), rule assms(2))+)
      (simp, rule orderly_start_workers, simp_all only: sum.case Un_empty_left tail assms(2))
qed

text \<open>A stage of shutdown: it creates nothing, and has seen the end of the tasks \<open>I\<close> when it returns.\<close>

definition stage :: "nat set \<Rightarrow> nat set \<Rightarrow> bool \<Rightarrow> nat set \<Rightarrow> unit boot \<Rightarrow> bool" where
  "stage B D s I m \<longleftrightarrow> orderly B D s m (\<lambda>x B' D' s'. B' = B \<and> (x = Inr () \<longrightarrow> D \<union> I \<subseteq> D'))"

lemma orderly_stage:
  assumes "stage B D s I m" and "\<And>e D s. Q (Inl e) B D s"
    and "\<And>D' s'. D \<union> I \<subseteq> D' \<Longrightarrow> orderly B D' s' (f ()) Q"
  shows "orderly B D s (andThen m f) Q"
  unfolding orderly_andThen
  by (rule orderly_mono [OF assms(1) [unfolded stage_def]]) (use assms(2,3) in \<open>auto split: sum.splits\<close>)

lemma stage_return: "stage B D s {} (return ())"
  by (simp add: stage_def)

lemma stage_service: "stage B D s (set_option (sv_task sv)) (stop_service sv)"
  unfolding stage_def by (rule orderly_stop_service) auto

lemma stage_workers: "stage B D s (task_ids svs) (stop_workers svs)"
  unfolding stage_def by (rule orderly_stop_workers) (auto simp: task_ids_def)

lemma stage_closings:
  "B \<subseteq> D \<Longrightarrow> stage B D s {} stop_logger" "B \<subseteq> D \<Longrightarrow> stage B D s {} (stop_forwarder f)"
  "B \<subseteq> D \<Longrightarrow> stage B D s {} (boot_do Close_Redis)"
proof -
  assume B: "B \<subseteq> D"
  show "stage B D s {} stop_logger"
    unfolding stage_def by (rule orderly_stop_logger) (use B in auto)
  have "orderly B D s (boot_do c) (\<lambda>x B' D' s'. B' = B \<and> (x = Inr () \<longrightarrow> D \<union> {} \<subseteq> D'))"
    if "c = Close_Http \<or> c = Close_Redis" for c
    by (rule orderly_closing) (use B that in auto)
  then show "stage B D s {} (stop_forwarder f)" "stage B D s {} (boot_do Close_Redis)"
    by (simp_all add: stage_def stop_forwarder_def)
qed

lemma orderly_shutdown:
  assumes "\<And>x D s. Q x (state_ids st) D s"
  shows "orderly (state_ids st) D s (shutdown_app st) Q"
proof -
  let ?B = "state_ids st"
  let ?I1 = "task_ids (case_option [] (\<lambda>sv. [sv]) (st_checker st))"
  let ?I2 = "task_ids (case_option [] (\<lambda>sv. [sv]) (st_watcher st))"
  let ?I3 = "task_ids (case_option [] (map snd) (st_workers st))"
  have B: "?B = ?I1 \<union> ?I2 \<union> ?I3"
    by (auto simp: state_ids_def split: option.splits)
  have 1: "stage ?B D s ?I1 (case st_checker st of None \<Rightarrow> return () | Some sv \<Rightarrow> stop_service sv)" for D s
    using stage_service by (auto simp: stage_return split: option.splits)
  have 2: "stage ?B D s ?I2 (case st_watcher st of None \<Rightarrow> return () | Some sv \<Rightarrow> stop_service sv)" for D s
    using stage_service by (auto simp: stage_return split: option.splits)
  have 3: "stage ?B D s ?I3 (case st_workers st of None \<Rightarrow> return () | Some ws \<Rightarrow> stop_workers (map snd ws))" for D s
    using stage_workers by (auto simp: stage_return split: option.splits)
  have 4: "stage ?B D s {} (if st_logger st then stop_logger else return ())" if "?B \<subseteq> D" for D s
    using that by (simp add: stage_return stage_closings)
  have 5: "stage ?B D s {} (case st_forwarder st of None \<Rightarrow> return () | Some f \<Rightarrow> stop_forwarder f)" if "?B \<subseteq> D" for D s
    using that by (simp add: stage_return stage_closings split: option.splits)
  have 6: "stage ?B D s {} (if st_redis st then boot_do Close_Redis else return ())" if "?B \<subseteq> D" for D s
    using that by (simp add: stage_return stage_closings)
  show ?thesis
    unfolding shutdown_app_def classes
  proof (rule orderly_stage, rule 1, rule assms, rule orderly_stage, rule 2, rule assms, rule orderly_stage, rule 3,
      rule assms, goal_cases)
    case (1 D1 s1 D2 s2 D3 s3)
    then have D3: "?B \<subseteq> D3" using B by auto
    show ?case
    proof (rule orderly_stage, rule 4 [OF D3], rule assms, goal_cases)
      case (1 D4 s4)
      then have D4: "?B \<subseteq> D4" using D3 by auto
      show ?case
      proof (rule orderly_stage, rule 5 [OF D4], rule assms, goal_cases)
        case (1 D5 s5)
        with D4 have "?B \<subseteq> D5" by auto
        from orderly_mono [OF 6 [OF this, unfolded stage_def]] assms show ?case by blast
      qed
    qed
  qed
qed

lemma orderly_lifespan: "orderly {} {} False (lifespan cx hex8 fuel) (\<lambda>_ _ _ _. True)"
proof -
  have "orderly (state_ids st) D s (shutdown_app st) (\<lambda>y B D s. case y of Inl e \<Rightarrow> True | Inr _ \<Rightarrow> True)" for st D s
    by (rule orderly_shutdown) (simp split: sum.splits)
  then have "orderly (state_ids st) {} False (finally_do (boot_do Serve) (shutdown_app st)) (\<lambda>_ _ _ _. True)" for st
    unfolding orderly_finally by (intro orderly_do) simp_all
  then show ?thesis
    unfolding lifespan_def orderly_andThen by (intro orderly_startup) simp_all
qed


text \<open>
  A run of the whole life on a server that answers: start-up of one model, no request, and a shutdown in which
  the checker and the watcher are cancelled before they began, and the worker in the middle of its wait for a job.
\<close>

definition demo_file :: "scheduler_config option \<times> defaults_config option \<times> (string \<times> raw_model) list" where
  "demo_file = (None, None, [(''code'', \<lparr>rm_max_concurrency = Some 2, rm_max_queue_depth = Some 3,
     rm_max_wait_seconds = Some 180, rm_sync_timeout_seconds = Some 300, rm_priority = Some 3,
     rm_fallback_policy = None\<rparr>)])"

lemma demo_app: "create_app (Some demo_file) demo_ctx hex8 fuel = Inr (lifespan demo_ctx hex8 fuel)"
  by (simp add: create_app_def demo_file_def load_config_def validate_model_def or_default_def make_model_config_def
      positive_int_def priority_in_range_def demo_model_def demo_ctx_def)

definition demo_life :: "(db \<times> reply list) loop" where
  "demo_life = new_loop (empty_db, []) (new_logger 9 (\<lambda>_. [])) (lifespan demo_ctx (\<lambda>_. ''0'') 3)"

definition demo_moves :: "move list" where
  "demo_moves = replicate 15 Do_Main @
     [Do_Task 0, Do_Main, Do_Main, Do_Timeout 2, Do_Unstarted 2, Do_Main, Do_Main, Do_Main, Do_Task 1, Do_Main, Do_Main,
      Do_Timeout 0, Do_Cancel 0, Do_Main, Do_Main, Do_Main, Do_Drain, Do_Main, Do_Main, Do_Main, Do_Main]"

lemma demo_life_ends:
  "case moves scripted demo_moves demo_life of None \<Rightarrow> False | Some x \<Rightarrow> lp_redis x = Closed \<and> length (lp_tasks x) = 3"
  by code_simp


subsection \<open>A start-up that fails\<close>

text \<open>
  \<open>careful g m Q\<close>: a program that neither serves nor closes; \<open>g\<close> says whether it has started a task or the
  writer. Only the calls that may fail are given a failure.
\<close>

primrec careful :: "bool \<Rightarrow> (bcmd, breply, 'a) tree \<Rightarrow> ('a \<Rightarrow> bool \<Rightarrow> bool) \<Rightarrow> bool" where
  "careful g (Ret a) Q = Q a g"
| "careful g (Call c k) Q =
     (c \<notin> {Serve, Close_Http, Close_Redis} \<and>
      (\<forall>r. (\<forall>e. r = BFail e \<longrightarrow> may_fail c) \<longrightarrow>
         careful (g \<or> c = Start_Writer \<or> (\<exists>name body. c = Create_Task name body)) (k r) Q))"

lemma careful_bind [simp]: "careful g (bind m f) Q = careful g m (\<lambda>a g. careful g (f a) Q)"
  by (induction m arbitrary: g) auto

lemma careful_mono: "careful g m P \<Longrightarrow> (\<And>a g. P a g \<Longrightarrow> Q a g) \<Longrightarrow> careful g m Q"
  by (induction m arbitrary: g) auto

lemma careful_andThen:
  assumes "careful g m P" and "\<And>e g. P (Inl e) g \<Longrightarrow> Q (Inl e) g" and "\<And>a g. P (Inr a) g \<Longrightarrow> careful g (f a) Q"
  shows "careful g (andThen m f) Q"
  unfolding andThen_def careful_bind
  by (rule careful_mono [OF assms(1)]) (use assms(2,3) in \<open>auto split: sum.splits\<close>)

lemma careful_return: "Q (Inr a) g \<Longrightarrow> careful g (return a) Q"
  by (simp add: return_def)

lemma careful_do:
  assumes "c \<notin> {Serve, Close_Http, Close_Redis}"
  shows "careful g (boot_do c) (\<lambda>x g'. g' = (g \<or> c = Start_Writer \<or> (\<exists>name body. c = Create_Task name body)) \<and>
    ((\<exists>e. x = Inl e) \<longrightarrow> may_fail c))"
  using assms by (auto simp: boot_do_def boot_call_def andThen_def return_def split: breply.splits)

lemma careful_io: "careful g (boot_io m) (\<lambda>_ g'. g' = g)"
  by (induction m) auto

text \<open>The result that is asked for: a failure only while nothing is started.\<close>

definition fails_early :: "exn + 'a \<Rightarrow> bool \<Rightarrow> bool" where
  "fails_early x g \<longleftrightarrow> (g \<longrightarrow> (\<forall>e. x \<noteq> Inl e))"

lemma careful_seq:
  "careful g m fails_early \<Longrightarrow> (\<And>a g. careful g (f a) fails_early) \<Longrightarrow> careful g (andThen m f) fails_early"
  by (erule careful_andThen) (simp_all add: fails_early_def)

lemma careful_service: "careful g (start_service sv body) fails_early"
  by (auto simp: start_service_def boot_call_def andThen_def return_def fails_early_def split: breply.splits)

lemma careful_workers:
  "(\<And>m. m \<in> set ms \<Longrightarrow> \<exists>mc. model_config_for (config cx) m = Inr mc) \<Longrightarrow>
     careful g (start_workers cx f hex8 fuel ms) fails_early"
proof (induction ms arbitrary: g)
  case Nil
  show ?case by (simp add: careful_return fails_early_def)
next
  case (Cons m ms)
  from Cons.prems [of m] obtain mc where "model_config_for (config cx) m = Inr mc" by auto
  then obtain w where w: "new_worker cx m (hex8 m) f = Inr w" by (simp add: new_worker_def)
  have "careful g (start_workers cx f hex8 fuel ms) fails_early" for g
    by (rule Cons.IH) (use Cons.prems in simp)
  then show ?case
    unfolding start_workers.simps w
    by (intro careful_seq careful_return) (simp_all add: fails_early_def classes careful_service)
qed

lemma careful_idle:
  "careful g m (\<lambda>_ g'. g' = g) \<Longrightarrow> \<not> g \<Longrightarrow> (\<And>a. careful g (f a) fails_early) \<Longrightarrow>
     careful g (andThen m f) fails_early"
  by (erule careful_andThen) (auto simp: fails_early_def)

lemma careful_startup: "careful False (startup_app cx hex8 fuel) fails_early"
proof -
  have names: "\<exists>mc. model_config_for (config cx) m = Inr mc" if "m \<in> set (all_model_names (config cx))" for m
    using that by (auto simp: all_model_names_def model_config_for_def dest!: weak_map_of_SomeI)
  have idle: "careful False (boot_do c) (\<lambda>_ g. g = False)" if "may_fail c" "c \<notin> {Serve, Close_Http, Close_Redis}" for c
    by (rule careful_mono [OF careful_do]) (use that in \<open>auto\<close>)
  have sure: "careful g (boot_do c) fails_early" if "\<not> may_fail c" for c g
    by (rule careful_mono [OF careful_do]) (use that in \<open>auto simp: fails_early_def split: sum.splits\<close>)
  have workers: "careful g (start_workers (cx\<lparr>lua := l\<rparr>) f hex8 fuel (all_model_names (config (cx\<lparr>lua := l\<rparr>)))) fails_early"
    for l f g
    by (rule careful_workers) (use names in simp)
  have logger: "careful False (start_logger dir) fails_early" for dir
    unfolding start_logger_def by (intro careful_idle idle sure) simp_all
  show ?thesis
    unfolding startup_app_def Let_def
    by (rule careful_idle, rule idle, simp, simp, simp, (rule careful_idle, rule careful_io, simp)+,
        rule careful_seq, rule logger, intro careful_seq workers sure careful_return)
      (simp_all add: fails_early_def classes careful_service)
qed

text \<open>The state of the loop under such a program.\<close>

definition careful_state :: "'s loop \<Rightarrow> bool \<Rightarrow> bool" where
  "careful_state x g \<longleftrightarrow> careful g (lp_main x) fails_early \<and> lp_redis x \<noteq> Closed \<and>
     (lp_tasks x \<noteq> [] \<or> lp_writer x \<noteq> Absent \<longrightarrow> g)"

lemma main_command_answers: "main_command H c x = Some (r, x') \<Longrightarrow> r \<noteq> BFail e"
  by (cases c) (auto split: prod.splits if_splits)

lemma main_command_starts:
  assumes "main_command H c x = Some (r, x')" and "c \<notin> {Serve, Close_Http, Close_Redis}"
  shows "(lp_redis x \<noteq> Closed \<longrightarrow> lp_redis x' \<noteq> Closed) \<and>
    (lp_tasks x' \<noteq> [] \<or> lp_writer x' \<noteq> Absent \<longrightarrow> lp_tasks x \<noteq> [] \<or> lp_writer x \<noteq> Absent \<or> c = Start_Writer \<or>
       (\<exists>name body. c = Create_Task name body))"
proof (cases c)
  case (Await d)
  then show ?thesis using main_command_await [of H d x r x'] assms(1) by simp
qed (use assms in \<open>auto split: if_splits\<close>)

lemma careful_kept:
  assumes "loop_step H envr requests x y" and "careful_state x g"
  shows "\<exists>g'. careful_state y g'"
proof -
  have same: ?thesis if "lp_main y = lp_main x" "lp_redis y = lp_redis x"
    "lp_tasks y \<noteq> [] \<or> lp_writer y \<noteq> Absent \<Longrightarrow> lp_tasks x \<noteq> [] \<or> lp_writer x \<noteq> Absent"
    using assms(2) that unfolding careful_state_def by (intro exI [of _ g]) auto
  from assms(1) show ?thesis
  proof cases
    case (task i t c k r x')
    then have "x' = snd (task_command H (tk_name t) c x)" by (metis snd_conv)
    with task show ?thesis by (intro same) (auto simp: set_body_def)
  next
    case (request k p)
    with assms(2) show ?thesis by (simp add: careful_state_def)
  next
    case (main c k r x')
    let ?g = "g \<or> c = Start_Writer \<or> (\<exists>name body. c = Create_Task name body)"
    from assms(2) main(2) have c: "c \<notin> {Serve, Close_Http, Close_Redis}"
      and k: "\<And>r. (\<forall>e. r = BFail e \<longrightarrow> may_fail c) \<Longrightarrow> careful ?g (k r) fails_early"
      and x: "lp_redis x \<noteq> Closed" "lp_tasks x \<noteq> [] \<or> lp_writer x \<noteq> Absent \<longrightarrow> g"
      by (simp_all add: careful_state_def)
    have "careful ?g (k r) fails_early" using main_command_answers [OF main(3)] by (intro k) simp
    with main_command_starts [OF main(3) c] x have "careful_state y ?g"
      unfolding main(1) careful_state_def by auto
    then show ?thesis by blast
  next
    case (main_fails c k e)
    from assms(2) main_fails(2,3) have "careful g (k (BFail e)) fails_early"
      by (cases c) (auto simp: careful_state_def)
    with assms(2) main_fails(1) show ?thesis by (intro exI [of _ g]) (simp add: careful_state_def)
  qed (intro same; auto simp: set_body_def)+
qed


definition demo_refused :: "(db \<times> bool list) loop" where
  "demo_refused = new_loop (empty_db, [False]) (new_logger 9 (\<lambda>_. []))
     (andThen (startup_app demo_ctx (\<lambda>_. ''0'') 3) (\<lambda>_. return ()))"

lemma demo_refused_ends:
  "case moves flaky [Do_Main, Do_Main] demo_refused of None \<Rightarrow> False
   | Some x \<Rightarrow> (case lp_main x of Ret (Inl e) \<Rightarrow> True | _ \<Rightarrow> False)"
  by code_simp


subsection \<open>Health\<close>

text \<open>The workers part of GET /health, from the tasks of \<open>app.state.workers\<close>.\<close>

definition worker_statuses :: "task list \<Rightarrow> (string \<times> service) list \<Rightarrow> (string \<times> bool) list" where
  "worker_statuses ts workers = map (\<lambda>(m, sv). (m, is_alive ts sv)) workers"

text \<open>
  /health follows the tasks: when the task of every worker has ended, by an exception or otherwise, the answer
  is 503 and "down" whatever Redis and the backend say; a worker that was started and has not ended is
  reported alive.
\<close>

theorem health_follows_tasks:
  assumes "run H (health f (worker_statuses ts workers)) s = (Inr (code, r), s')"
  shows "he_workers r = map (\<lambda>(m, sv). (m, is_alive ts sv)) workers \<and>
    (list_all (\<lambda>(m, sv). \<forall>i. sv_task sv = Some i \<longrightarrow> tk_done (ts ! i)) workers \<longrightarrow> code = 503 \<and> he_status r = ''down'')"
proof -
  have "wp (\<lambda>_. True) (\<lambda>_ _. True) (health f ws) (\<lambda>x. \<forall>code r. x = Inr (code, r) \<longrightarrow> he_workers r = ws \<and>
      (\<not> list_ex snd ws \<longrightarrow> code = 503 \<and> he_status r = ''down''))" for ws
    unfolding health_def wp_andThen
    by (rule wp_mono [OF wp_anything])
      (auto simp: Let_def overall_status_def split: sum.splits intro!: wp_mono [OF wp_anything])
  from run_wp [OF this [of "worker_statuses ts workers"], of H s] assms
  have h: "he_workers r = worker_statuses ts workers"
    "\<not> list_ex snd (worker_statuses ts workers) \<longrightarrow> code = 503 \<and> he_status r = ''down''" by auto
  moreover have "list_all (\<lambda>(m, sv). \<forall>i. sv_task sv = Some i \<longrightarrow> tk_done (ts ! i)) workers \<Longrightarrow>
      \<not> list_ex snd (worker_statuses ts workers)"
    by (induction workers) (auto simp: worker_statuses_def is_alive_def split: option.splits)
  ultimately show ?thesis by (auto simp: worker_statuses_def)
qed

end
