(* ===== verification/Application.thy ===== *)
theory Application
  imports Lifecycle
begin

text \<open>
  The invariants of the interleaved system, for the application as it runs: from start-up on, in the event loop, with
  the cancellations and the end that the loop brings. What a provider promises of a command and its
  reply (\<open>rely_guarantee\<close>) is enough, with the replies the loop itself gives.
\<close>

subsection \<open>Rely and guarantee in the event loop\<close>

text \<open>The main program issues allowed commands, whatever it is answered, and creates tasks that do.\<close>

primrec boot_ok :: "(cmd \<Rightarrow> bool) \<Rightarrow> (cmd \<Rightarrow> reply \<Rightarrow> bool) \<Rightarrow> (bcmd, breply, 'a) tree \<Rightarrow> bool" where
  "boot_ok ok G (Ret a) = True"
| "boot_ok ok G (Call c k) \<longleftrightarrow>
     (case c of Await d \<Rightarrow> ok d | Create_Task name body \<Rightarrow> issues ok G body | _ \<Rightarrow> True) \<and> (\<forall>r. boot_ok ok G (k r))"

locale loop_guarantee = rely_guarantee H envr I ok G
  for H :: "cmd \<Rightarrow> 's \<Rightarrow> reply \<times> 's" and envr :: "'s \<Rightarrow> 's \<Rightarrow> bool" and I :: "'s \<Rightarrow> bool"
    and ok :: "cmd \<Rightarrow> bool" and G :: "cmd \<Rightarrow> reply \<Rightarrow> bool" +
  assumes cancellation: "suspends c \<Longrightarrow> G c (RErr CancelledError)"
    and stop_flag: "G (Env StopIsSet) (RBool b)"
    and logged: "G (Env (Emit ev)) RNil"
begin

definition sound_state :: "'s loop \<Rightarrow> bool" where
  "sound_state x \<longleftrightarrow> I (lp_world x) \<and> (\<forall>t \<in> set (lp_tasks x). issues ok G (tk_body t)) \<and> boot_ok ok G (lp_main x)"

lemma task_command_keeps:
  assumes "task_command H n c x = (r, x')" and "I (lp_world x)" and "ok c"
  shows "I (lp_world x') \<and> G c r"
proof -
  have "I (snd (H c (lp_world x)))" "G c (fst (H c (lp_world x)))"
    using assms(2,3) by (auto intro: keeps [OF _ _ prod.collapse [symmetric]] replies [OF _ prod.collapse [symmetric]])
  with assms(1,2) stop_flag logged show ?thesis
    by (cases c) (auto simp: task_command_def split: ecmd.splits)
qed

lemma issues_next: "issues ok G (Call c k) \<Longrightarrow> ok c \<and> (\<forall>r. G c r \<longrightarrow> issues ok G (k r))"
  by (simp add: issues_def)

lemma body_kept:
  assumes "u \<in> set (ts[i := t])" and "\<forall>t \<in> set ts. issues ok G (tk_body t)"
    and "i < length ts \<Longrightarrow> issues ok G (tk_body t)"
  shows "issues ok G (tk_body u)"
proof (cases "i < length ts")
  case True
  with assms show ?thesis by (auto dest!: set_update_subset_insert [THEN subsetD])
qed (use assms in \<open>simp add: list_update_beyond\<close>)

lemma main_command_keeps:
  assumes "main_command H c x = Some (r, x')" and "sound_state x" and "lp_main x = Call c k"
  shows "I (lp_world x') \<and> (\<forall>t \<in> set (lp_tasks x'). issues ok G (tk_body t))"
proof (cases c)
  case (Await d)
  with assms have d: "ok d" "I (lp_world x)" "\<forall>t \<in> set (lp_tasks x). issues ok G (tk_body t)"
    by (auto simp: sound_state_def)
  from assms(1) Await have x': "x' = snd (task_command H [] d x)" by (auto split: prod.splits)
  with task_command_keeps [OF prod.collapse [symmetric] d(2,1)] d(3) show ?thesis by simp
next
  case (Cancel_Task i)
  have "issues ok G (tk_body (request_cancel (lp_tasks x ! i)))" if "i < length (lp_tasks x)"
    using assms(2) that by (auto simp: sound_state_def request_cancel_def)
  with assms(1,2) Cancel_Task show ?thesis by (auto simp: sound_state_def elim!: body_kept)
qed (use assms in \<open>auto simp: sound_state_def new_task_def split: if_splits\<close>)

lemma loop_step_keeps:
  assumes "loop_step H envr requests x y" and "\<And>p. requests p \<Longrightarrow> issues ok G p" and "sound_state x"
  shows "sound_state y"
proof -
  have w: "I (lp_world x)" and m: "boot_ok ok G (lp_main x)" and ts: "\<forall>t \<in> set (lp_tasks x). issues ok G (tk_body t)"
    using assms(3) by (simp_all add: sound_state_def)
  from assms(1) show ?thesis
  proof cases
    case (task i t c k r x')
    then have c: "issues ok G (Call c k)" using ts nth_mem by metis
    then have "I (lp_world x') \<and> G c r"
      using task_command_keeps [OF task(5) w] issues_next by blast
    moreover have "lp_main x' = lp_main x" using task_command_simps [of H "tk_name t" c x] task(5) by simp
    ultimately show ?thesis
      using issues_next [OF c] m ts by (auto simp: task(1) sound_state_def set_body_def elim!: body_kept)
  next
    case (cancelled i t c k w')
    then have c: "issues ok G (Call c k)" using ts nth_mem by metis
    then have "I w'" using cancelled(8) w issues_next [OF c] keeps [OF w _ prod.collapse [symmetric]] by auto
    with issues_next [OF c] cancellation [OF cancelled(7)] m ts show ?thesis
      by (auto simp: cancelled(1) sound_state_def set_body_def elim!: body_kept)
  next
    case (unstarted i t)
    with w m ts show ?thesis by (auto simp: sound_state_def set_body_def issues_pure elim!: body_kept)
  next
    case (spent i t b)
    with w m ts show ?thesis by (auto simp: sound_state_def set_body_def issues_pure elim!: body_kept)
  next
    case (timeout ids s k i t)
    with w m ts show ?thesis by (auto simp: sound_state_def elim!: body_kept)
  next
    case (request k p)
    with w m ts assms(2) show ?thesis by (auto simp: sound_state_def new_task_def)
  next
    case (main c k r x')
    from main_command_keeps [OF main(3) assms(3) main(2)] m main(2) show ?thesis
      by (simp add: main(1) sound_state_def)
  next
    case (main_fails c k e)
    with w m ts show ?thesis by (simp add: sound_state_def)
  next
    case (environ w')
    with w m ts show ?thesis by (auto simp: sound_state_def intro: environs)
  qed (use w m ts in \<open>auto simp: sound_state_def\<close>)
qed

text \<open>The invariant holds in every state the loop reaches.\<close>

lemma loop_keeps:
  assumes "loop_run H envr requests (new_loop w l m) x" and "\<And>p. requests p \<Longrightarrow> issues ok G p"
    and "I w" and "boot_ok ok G m"
  shows "I (lp_world x)"
proof -
  have "sound_state (new_loop w l m)" using assms(3,4) by (simp add: sound_state_def new_loop_def)
  with assms(1) have "sound_state x"
    by (induction rule: rtranclp_induct) (auto intro: loop_step_keeps [OF _ assms(2)])
  then show ?thesis by (simp add: sound_state_def)
qed

end

text \<open>A server invariant is such a contract: a cancellation is a fault, and the loop answers no command of Redis.\<close>

sublocale server_invariant \<subseteq> loop_guarantee H "\<lambda>s s'. expires (view s) (view s')"
  "\<lambda>s. I (view s)" "harmless I" "replying I"
  by unfold_locales (auto simp: replying_def fault_iff)

context server_invariant
begin

lemma loop_invariant:
  assumes "loop_run H (\<lambda>s s'. expires (view s) (view s')) requests (new_loop w l m) x"
    and "\<And>p. requests p \<Longrightarrow> issues (harmless I) (replying I) p"
    and "I (view w)" and "boot_ok (harmless I) (replying I) m"
  shows "I (view (lp_world x))"
  by (rule loop_keeps [OF assms])

end

subsection \<open>The programs of the application\<close>

lemma boot_ok_bind: "boot_ok ok G m \<Longrightarrow> (\<And>a. boot_ok ok G (f a)) \<Longrightarrow> boot_ok ok G (bind m f)"
  by (induction m) auto

lemma boot_ok_pure: "boot_ok ok G (return a)" "boot_ok ok G (raise e)" "boot_ok ok G (Ret x)"
  by (simp_all add: return_def raise_def)

lemma boot_ok_andThen: "boot_ok ok G m \<Longrightarrow> (\<And>a. boot_ok ok G (f a)) \<Longrightarrow> boot_ok ok G (andThen m f)"
  unfolding andThen_def by (rule boot_ok_bind) (auto split: sum.splits)

lemma boot_ok_finally: "boot_ok ok G m \<Longrightarrow> boot_ok ok G f \<Longrightarrow> boot_ok ok G (finally_do m f)"
  unfolding finally_do_def by (intro boot_ok_bind boot_ok_andThen) auto

lemma boot_ok_do: "(\<And>d. c \<noteq> Await d) \<Longrightarrow> (\<And>n b. c \<noteq> Create_Task n b) \<Longrightarrow> boot_ok ok G (boot_do c)"
  by (cases c) (auto simp: boot_do_def boot_call_def intro!: boot_ok_andThen boot_ok_pure)

lemma boot_ok_wait: "boot_ok ok G (boot_call (Wait_For ids t))" "boot_ok ok G (boot_call (Wait_Writer t))"
  by (simp_all add: boot_call_def)

lemma boot_ok_io: "issues ok (\<lambda>_ _. True) m \<Longrightarrow> boot_ok ok G (boot_io m)"
  by (induction m) (auto simp: issues_def)

lemma boot_ok_start: "issues ok G body \<Longrightarrow> boot_ok ok G (start_service sv body)"
  by (auto simp: start_service_def boot_call_def intro!: boot_ok_andThen boot_ok_pure)

lemmas boot_oks = boot_ok_andThen boot_ok_finally boot_ok_pure boot_ok_do boot_ok_wait boot_ok_start

lemma boot_ok_after_wait: "boot_ok ok G (after_wait i w)"
  by (cases w) (auto simp: after_wait_def intro!: boot_oks)

lemma boot_ok_stop_service: "boot_ok ok G (stop_service sv)"
  unfolding stop_service_def by (auto intro!: boot_oks boot_ok_after_wait split: option.splits)

lemma boot_ok_finish_stops: "boot_ok ok G (finish_stops ids r n)"
  by (induction ids arbitrary: n) (auto intro!: boot_oks boot_ok_after_wait split: waited.splits)

lemma boot_ok_shutdown: "boot_ok ok G (shutdown_app st)"
  unfolding shutdown_app_def classes stop_workers_def Let_def stop_logger_def stop_forwarder_def
  by (auto intro!: boot_oks boot_ok_stop_service boot_ok_finish_stops split: option.splits waited.splits)

text \<open>The requests, as tasks of the loop; the scripts may be loaded under any digests.\<close>

definition as_task :: "'a io \<Rightarrow> unit option io" where
  "as_task m = bind m (\<lambda>_. return (Some ()))"

inductive app_request :: "ctx \<Rightarrow> unit option io \<Rightarrow> bool" for cx where
  chat: "app_request cx (as_task (chat_completions (cx\<lparr>lua := l\<rparr>) rq n))"
| submit: "app_request cx (as_task (submit_job (cx\<lparr>lua := l\<rparr>) sq))"
| status: "app_request cx (as_task (get_job j))"
| cancel: "app_request cx (as_task (cancel_job (cx\<lparr>lua := l\<rparr>) j))"
| queues: "app_request cx (as_task (get_queues (cx\<lparr>lua := l\<rparr>)))"
| healths: "app_request cx (as_task (health f ws))"

lemma as_task_issues: "issues ok G m \<Longrightarrow> issues ok G (as_task m)"
  unfolding as_task_def by (intro issues_bind issue_rules)

text \<open>Besides what its programs need, start-up sets the capacities and seeds the counters.\<close>

locale allowed_life = allowed_app +
  assumes capacity_ok: "distinct (all_model_names (config cx)) \<Longrightarrow> (n, mc) \<in> set (models (config cx)) \<Longrightarrow>
      ok (Redis (SET (slots_capacity_key n) (Str (show_int (max_concurrency mc))) None False))"
    and seed_ok: "ok (Redis (SETNX (slots_in_use_key n) (Str (show_int 0))))"
begin

lemma any_scripts: "allowed_app ok G (cx\<lparr>lua := l\<rparr>)"
  by unfold_locales (simp_all add: enqueue_ok claim_ok post_ok drift_ok)

lemma request_allowed:
  assumes "app_request cx p"
  shows "issues ok G p"
  using assms
  by cases (auto intro!: as_task_issues issue_rules allowed_app.chat_allowed [OF any_scripts]
      allowed_app.submit_allowed [OF any_scripts])

lemma startup_allowed:
  assumes "distinct (all_model_names (config cx))"
  shows "boot_ok ok G (startup_app cx hex8 fuel)"
proof -
  have init: "issues ok (\<lambda>_ _. True) (init_models ms)" if "set ms \<subseteq> set (models (config cx))" for ms
    using that by (induction ms)
      (auto intro!: issue_rules allowed.metrics_allowed [OF allowed.intro] routine_ok capacity_ok [OF assms] seed_ok)
  have connect: "issues ok (\<lambda>_ _. True) (connect_redis cx)"
    by (auto simp: connect_redis_def intro!: issue_rules routine_ok)
  have load: "issues ok (\<lambda>_ _. True) load_all"
    by (auto simp: load_all_def script_load_def issues_def routine_ok)
  have workers: "boot_ok ok G (start_workers (cx\<lparr>lua := l\<rparr>) f hex8 fuel ms)" for l f ms
    by (induction ms) (auto simp: start_worker_def intro!: boot_oks allowed_app.run_worker_allowed [OF any_scripts])
  show ?thesis
    unfolding startup_app_def Let_def start_logger_def start_watcher_def start_checker_def
    by (intro boot_oks boot_ok_io connect load init workers run_watcher_allowed
        allowed_app.run_integrity_allowed [OF any_scripts] allowed.run_watcher_allowed [OF allowed.intro]) (auto intro: routine_ok)
qed

lemma lifespan_allowed:
  "distinct (all_model_names (config cx)) \<Longrightarrow> boot_ok ok G (lifespan cx hex8 fuel)"
  unfolding lifespan_def
  by (intro boot_oks startup_allowed boot_ok_shutdown) auto

end

subsection \<open>The bounds, for the application\<close>

lemma slot_capacity:
  assumes "distinct (map fst (models cfg))" and "(n, mc) \<in> set (models cfg)" and "slot_inv cfg d"
  shows "slot_inv cfg (snd (redis_call (SET (slots_capacity_key n) (Str (show_int (max_concurrency mc))) None False) d))"
proof -
  have "slot_ok (snd (redis_call (SET (slots_capacity_key n) (Str (show_int (max_concurrency mc))) None False) d)) nm"
    if "slot_ok d nm" "nm \<in> set (models cfg)" for nm
  proof (cases "fst nm = n")
    case True
    with assms(1,2) that(2) have "nm = (n, mc)" by (metis eq_key_imp_eq_value prod.collapse)
    with that(1) show ?thesis by (simp add: slot_ok_def counter_def)
  next
    case False
    with that(1) show ?thesis by (simp add: slot_ok_def counter_def)
  qed
  with assms(3) show ?thesis by (simp add: slot_inv_def list_all_iff del: redis_call.simps)
qed

lemma slot_seed:
  assumes "slot_inv cfg d"
  shows "slot_inv cfg (snd (redis_call (SETNX (slots_in_use_key n) (Str (show_int 0))) d))"
proof (cases "key_exists d (slots_in_use_key n)")
  case True
  with assms show ?thesis by simp
next
  case False
  show ?thesis
    by (rule slot_inv_lower [OF assms, where n' = 0 and m = n]) (use False in \<open>simp_all add: in_int64_def\<close>)
qed

interpretation slots_life: allowed_life "harmless (slot_inv (config cx))" "replying (slot_inv (config cx))" cx for cx
proof unfold_locales
  fix n mc
  assume "distinct (all_model_names (config cx))" "(n, mc) \<in> set (models (config cx))"
  then show "harmless (slot_inv (config cx)) (Redis (SET (slots_capacity_key n) (Str (show_int (max_concurrency mc))) None False))"
    unfolding harmless_simps all_model_names_def by (intro allI impI slot_capacity)
next
  fix n
  show "harmless (slot_inv (config cx)) (Redis (SETNX (slots_in_use_key n) (Str (show_int 0))))"
    unfolding harmless_simps by (intro allI impI slot_seed)
qed

interpretation queues_life: allowed_life "harmless (queue_inv (config cx))" "replying (queue_inv (config cx))" cx for cx
proof unfold_locales
  fix n mc
  show "harmless (queue_inv (config cx)) (Redis (SET (slots_capacity_key n) (Str (show_int (max_concurrency mc))) None False))"
    "harmless (queue_inv (config cx)) (Redis (SETNX (slots_in_use_key n) (Str (show_int 0))))"
    unfolding harmless_simps by (intro allI impI queue_call; simp)+
qed

lemma load_config_valid: "load_config file = Inr cfg \<Longrightarrow> valid_config cfg"
  using validate_models_valid by (fastforce simp: load_config_def valid_config_def split: option.splits sum.splits)



end
