(* ===== verification/Shutdown.thy ===== *)
theory Shutdown
  imports Lifecycle
begin

text \<open>
  The application can always come to its end: from every state the event loop reaches, some run leads to the end of the
  lifespan. The wait for a task can be left because its stop flag was set before; the sentinel of
  the logger can be queued because its writer is still at work then.
\<close>

subsection \<open>A main program that cannot block for ever\<close>

text \<open>
  \<open>closes P g S m Q\<close>: of a main program \<open>m\<close> that has created the tasks \<open>P\<close> (with their names), set the stop flags
  \<open>S\<close>, and whose log writer is at stage \<open>g\<close>. It waits only for tasks whose flag is set, and puts the sentinel
  only once and for a writer that runs; the result satisfies \<open>Q\<close>.
\<close>

datatype stage_of_log = Unstarted | Started | Finishing

primrec closes ::
  "(nat \<times> string) set \<Rightarrow> stage_of_log \<Rightarrow> string set \<Rightarrow> (bcmd, breply, 'a) tree \<Rightarrow>
   ('a \<Rightarrow> (nat \<times> string) set \<Rightarrow> stage_of_log \<Rightarrow> string set \<Rightarrow> bool) \<Rightarrow> bool" where
  "closes P g S (Ret a) Q = Q a P g S"
| "closes P g S (Call c k) Q =
     (case c of
        Create_Task name body \<Rightarrow> \<forall>i. closes (insert (i, name) P) g S (k (BTask i)) Q
      | Set_Stop names \<Rightarrow> closes P g (S \<union> set names) (k BUnit) Q
      | Start_Writer \<Rightarrow> g = Unstarted \<and> closes P Started S (k BUnit) Q
      | Wait_For ids t \<Rightarrow> (\<forall>i \<in> set ids. \<exists>name \<in> S. (i, name) \<in> P) \<and> (\<forall>r. closes P g S (k r) Q)
      | Put_Sentinel \<Rightarrow> g = Started \<and> closes P Finishing S (k BUnit) Q
      | Wait_Writer t \<Rightarrow> g = Finishing \<and> (\<forall>r. closes P g S (k r) Q)
      | _ \<Rightarrow> \<forall>r. closes P g S (k r) Q)"

lemma closes_bind [simp]:
  "closes P g S (bind m f) Q = closes P g S m (\<lambda>a P g S. closes P g S (f a) Q)"
  by (induction m arbitrary: P g S) (auto split: bcmd.splits)

lemma closes_mono:
  "closes P g S m Q \<Longrightarrow> (\<And>a P g S. Q a P g S \<Longrightarrow> R a P g S) \<Longrightarrow> closes P g S m R"
  by (induction m arbitrary: P g S) (auto split: bcmd.splits)

lemma closes_pure [simp]:
  "closes P g S (return a) Q = Q (Inr a) P g S" "closes P g S (raise e) Q = Q (Inl e) P g S"
  by (simp_all add: return_def raise_def)

lemma closes_andThen [simp]:
  "closes P g S (andThen m f) Q = closes P g S m (\<lambda>x P g S.
     case x of Inl e \<Rightarrow> Q (Inl e) P g S | Inr a \<Rightarrow> closes P g S (f a) Q)"
proof -
  have "(\<lambda>a P g S. closes P g S (case a of Inl e \<Rightarrow> Ret (Inl e) | Inr a \<Rightarrow> f a) Q) =
      (\<lambda>x P g S. case x of Inl e \<Rightarrow> Q (Inl e) P g S | Inr a \<Rightarrow> closes P g S (f a) Q)"
    by (auto simp: fun_eq_iff split: sum.splits)
  then show ?thesis by (simp add: andThen_def)
qed

lemma closes_finally [simp]:
  "closes P g S (finally_do m f) Q = closes P g S m (\<lambda>x P g S. closes P g S f (\<lambda>y P g S.
     case y of Inl e \<Rightarrow> Q (Inl e) P g S | Inr _ \<Rightarrow> Q x P g S))"
proof -
  have "(\<lambda>x P g S. closes P g S f (\<lambda>y P g S.
      case y of Inl e \<Rightarrow> Q (Inl e) P g S | Inr (_ :: unit) \<Rightarrow> closes P g S (Ret x) Q)) =
      (\<lambda>x P g S. closes P g S f (\<lambda>y P g S. case y of Inl e \<Rightarrow> Q (Inl e) P g S | Inr _ \<Rightarrow> Q x P g S))"
    by (intro ext arg_cong [where f = "closes _ _ _ f"]) (auto simp: fun_eq_iff split: sum.splits)
  then show ?thesis by (simp add: finally_do_def)
qed

subsection \<open>The invariant of the loop\<close>

definition log_stage :: "stage_of_log \<Rightarrow> 's loop \<Rightarrow> bool" where
  "log_stage g x \<longleftrightarrow>
     (case g of
        Unstarted \<Rightarrow> lp_writer x = Absent \<and> None \<notin> set (lg_queue (lp_log x))
      | Started \<Rightarrow> lp_writer x = Writing \<and> None \<notin> set (lg_queue (lp_log x))
      | Finishing \<Rightarrow> lp_writer x \<noteq> Absent)"

definition closing_state :: "'s loop \<Rightarrow> (nat \<times> string) set \<Rightarrow> stage_of_log \<Rightarrow> string set \<Rightarrow> bool" where
  "closing_state x P g S \<longleftrightarrow>
     closes P g S (lp_main x) (\<lambda>_ _ _ _. True) \<and> log_stage g x \<and> S \<subseteq> set (lp_stops x) \<and>
     (\<forall>(i, name) \<in> P. i < length (lp_tasks x) \<and> tk_name (lp_tasks x ! i) = name)"

text \<open>A change of the loop that no program sees but through its tasks and its log.\<close>

definition quiet :: "'s loop \<Rightarrow> 's loop \<Rightarrow> bool" where
  "quiet x y \<longleftrightarrow> lp_main y = lp_main x \<and> lp_stops y = lp_stops x \<and> (\<forall>g. log_stage g x \<longrightarrow> log_stage g y) \<and>
     length (lp_tasks x) \<le> length (lp_tasks y) \<and>
     (\<forall>i < length (lp_tasks x). tk_name (lp_tasks y ! i) = tk_name (lp_tasks x ! i))"

lemma quiet_refl: "quiet x x"
  by (simp add: quiet_def)

lemma quiet_trans: "quiet x y \<Longrightarrow> quiet y z \<Longrightarrow> quiet x z"
  by (auto simp: quiet_def)

lemma quiet_closing: "quiet x y \<Longrightarrow> closing_state x P g S \<Longrightarrow> closing_state y P g S"
  unfolding quiet_def closing_state_def by fastforce

lemma log_stage_main [simp]: "log_stage g (x\<lparr>lp_main := m\<rparr>) = log_stage g x"
  by (cases g) (simp_all add: log_stage_def)

lemma log_stage_task [simp]: "log_stage g (snd (task_command H n c x)) = log_stage g x"
  by (cases g) (auto simp: log_stage_def)

lemma log_stage_set_body [simp]: "log_stage g (set_body x i t b x') = log_stage g x'"
  by (cases g) (auto simp: log_stage_def set_body_def)

lemma quiet_set_body:
  assumes "i < length (lp_tasks x)" and "tk_name t = tk_name (lp_tasks x ! i)" and "lp_main x' = lp_main x"
    and "lp_stops x' = lp_stops x" and "\<And>g. log_stage g x' = log_stage g x"
  shows "quiet x (set_body x i t b x')"
  using assms by (simp add: quiet_def nth_list_update) (simp add: set_body_def nth_list_update)

lemma request_cancel_name [simp]: "tk_name (request_cancel t) = tk_name t"
  by (simp add: request_cancel_def)

lemma cancelled_name [simp]: "a < length ts \<Longrightarrow> tk_name (ts[j := request_cancel (ts ! j)] ! a) = tk_name (ts ! a)"
  by (cases "a = j") simp_all

subsection \<open>Every step keeps it\<close>

lemma task_quiet:
  assumes "i < length (lp_tasks x)" and "t = lp_tasks x ! i"
  shows "quiet x (set_body x i (t\<lparr>tk_started := True\<rparr>) b (snd (task_command H (tk_name t) c x)))"
  using assms by (intro quiet_set_body) simp_all

lemma closing_main:
  assumes "main_command H c x = Some (r, x')" and "lp_main x = Call c k" and "closing_state x P g S"
  shows "\<exists>P g S. closing_state (x'\<lparr>lp_main := k r\<rparr>) P g S"
proof -
  have cl: "closes P g S (Call c k) (\<lambda>_ _ _ _. True)" and l: "log_stage g x" and s: "S \<subseteq> set (lp_stops x)"
    and P: "\<forall>(i, name) \<in> P. i < length (lp_tasks x) \<and> tk_name (lp_tasks x ! i) = name"
    using assms(2,3) by (simp_all add: closing_state_def)
  have keep: ?thesis
    if "closes P g' S (k r) (\<lambda>_ _ _ _. True)" "log_stage g' x'" "lp_stops x' = lp_stops x" "lp_tasks x' = lp_tasks x" for g'
    using that s P by (intro exI [of _ P] exI [of _ g'] exI [of _ S]) (simp add: closing_state_def)
  show ?thesis
  proof (cases c)
    case (Await d)
    with main_command_await [of H d x r x'] assms(1) cl l show ?thesis by (intro keep [of g]) simp_all
  next
    case (Create_Task name body)
    with assms(1) cl l s P show ?thesis
      by (intro exI [of _ "insert (length (lp_tasks x), name) P"] exI [of _ g] exI [of _ S])
        (auto simp: closing_state_def log_stage_def nth_append new_task_def split: stage_of_log.splits)
  next
    case (Set_Stop names)
    with assms(1) cl l s P show ?thesis
      by (intro exI [of _ P] exI [of _ g] exI [of _ "S \<union> set names"])
        (auto simp: closing_state_def log_stage_def split: stage_of_log.splits)
  next
    case (Cancel_Task j)
    with assms(1) cl l s P show ?thesis
      by (intro exI [of _ P] exI [of _ g] exI [of _ S])
        (auto simp: closing_state_def log_stage_def split: stage_of_log.splits)
  next
    case Start_Writer
    with assms(1) cl l show ?thesis by (intro keep [of Started]) (auto simp: log_stage_def)
  next
    case Put_Sentinel
    with assms(1) cl l show ?thesis by (intro keep [of Finishing]) (auto simp: log_stage_def split: if_splits)
  qed (use assms(1) cl l in \<open>intro keep [of g]; auto simp: log_stage_def split: if_splits stage_of_log.splits\<close>)+
qed

lemma closing_failure:
  "may_fail c \<Longrightarrow> closes P g S (Call c k) Q \<Longrightarrow> closes P g S (k (BFail e)) Q"
  by (cases c) auto

lemma closing_kept:
  assumes "loop_step H envr requests x y" and "closing_state x P g S"
  shows "\<exists>P g S. closing_state y P g S"
proof -
  have q: ?thesis if "quiet x y" using quiet_closing [OF that assms(2)] by blast
  from assms(1) show ?thesis
  proof cases
    case (task i t c k r x')
    then have "x' = snd (task_command H (tk_name t) c x)" by (metis snd_conv)
    with task_quiet [of i x t "k r" H c] task show ?thesis by (intro q) simp
  next
    case (main c k r x')
    with closing_main [OF main(3,2) assms(2)] show ?thesis by simp
  next
    case (main_fails c k e)
    with assms(2) closing_failure [of c P g S k _ e] show ?thesis
      by (intro exI [of _ P] exI [of _ g] exI [of _ S]) (simp add: closing_state_def)
  next
    case (drain q)
    with assms(2) have "g = Finishing" by (cases g) (auto simp: closing_state_def log_stage_def)
    with assms(2) drain show ?thesis
      by (intro exI [of _ P] exI [of _ g] exI [of _ S]) (simp add: closing_state_def log_stage_def)
  next
    case (writer_timeout s k)
    with assms(2) have "g = Finishing" by (simp add: closing_state_def)
    with assms(2) writer_timeout show ?thesis
      by (intro exI [of _ P] exI [of _ g] exI [of _ S]) (simp add: closing_state_def log_stage_def)
  qed (intro q; auto simp: quiet_def set_body_def log_stage_def nth_list_update nth_append split: stage_of_log.splits)+
qed

lemma closing_run:
  assumes "loop_run H envr requests x y" and "closing_state x P g S"
  shows "\<exists>P g S. closing_state y P g S"
  using assms by (induction rule: rtranclp_induct) (blast intro: closing_kept)+

subsection \<open>Every wait can be left\<close>

lemma done_stays_run:
  assumes "loop_run H envr requests x y" and "i < length (lp_tasks x)" and "tk_done (lp_tasks x ! i)"
  shows "i < length (lp_tasks y) \<and> tk_done (lp_tasks y ! i)"
  using assms(1) by (induction rule: rtranclp_induct) (use assms(2,3) done_stays in blast)+

text \<open>A task whose flag is set can run to its end.\<close>

lemma task_can_end:
  assumes "i < length (lp_tasks x)" and "tk_name (lp_tasks x ! i) \<in> set (lp_stops x)"
  shows "\<exists>y. loop_run H envr requests x y \<and> quiet x y \<and> tk_done (lp_tasks y ! i)"
  using assms
proof (induction "tk_body (lp_tasks x ! i)" arbitrary: x)
  case (Ret v)
  let ?t = "lp_tasks x ! i"
  show ?case
  proof (cases "v = Inr None")
    case True
    let ?y = "set_body x i ?t (return (Some ())) x"
    have "loop_step H envr requests x ?y"
      using Ret True by (intro loop_step.spent) auto
    moreover have "quiet x ?y" using Ret.prems by (intro quiet_set_body) simp_all
    moreover have "tk_done (lp_tasks ?y ! i)"
      using Ret.prems by (simp add: set_body_def tk_done_def return_def)
    ultimately show ?thesis by blast
  next
    case False
    then have "tk_done ?t" by (auto simp: tk_done_def Ret.hyps [symmetric] split: sum.splits option.splits)
    then show ?thesis using quiet_refl by blast
  qed
next
  case (Call c k)
  let ?t = "lp_tasks x ! i" and ?r = "task_command H (tk_name (lp_tasks x ! i)) c x"
  let ?y = "set_body x i (?t\<lparr>tk_started := True\<rparr>) (k (fst ?r)) (snd ?r)"
  have step: "loop_step H envr requests x ?y"
    using Call.prems Call.hyps(2) by (intro loop_step.task) auto
  have q: "quiet x ?y" using Call.prems by (intro task_quiet) simp_all
  have "\<exists>z. loop_run H envr requests ?y z \<and> quiet ?y z \<and> tk_done (lp_tasks z ! i)"
    by (rule Call.hyps(1)) (use Call.prems q in \<open>auto simp: set_body_def quiet_def\<close>)
  with step q quiet_trans show ?case by (meson converse_rtranclp_into_rtranclp)
qed

lemma tasks_can_end:
  assumes "\<forall>i \<in> set ids. i < length (lp_tasks x) \<and> tk_name (lp_tasks x ! i) \<in> set (lp_stops x)"
  shows "\<exists>y. loop_run H envr requests x y \<and> quiet x y \<and>
    list_all (\<lambda>i. i < length (lp_tasks y) \<and> tk_done (lp_tasks y ! i)) ids"
  using assms
proof (induction ids arbitrary: x)
  case Nil
  show ?case using quiet_refl by fastforce
next
  case (Cons i ids)
  obtain y where y: "loop_run H envr requests x y" "quiet x y" "tk_done (lp_tasks y ! i)"
    using task_can_end [of i x H envr requests] Cons.prems by auto
  have "\<forall>j \<in> set ids. j < length (lp_tasks y) \<and> tk_name (lp_tasks y ! j) \<in> set (lp_stops y)"
    using Cons.prems y(2) by (fastforce simp: quiet_def)
  from Cons.IH [OF this] obtain z where z: "loop_run H envr requests y z" "quiet y z"
    "list_all (\<lambda>i. i < length (lp_tasks z) \<and> tk_done (lp_tasks z ! i)) ids" by blast
  have "i < length (lp_tasks y)" using Cons.prems y(2) by (auto simp: quiet_def)
  from done_stays_run [OF z(1) this y(3)] z y show ?case
    by (intro exI [of _ z]) (auto intro: rtranclp_trans quiet_trans)
qed

text \<open>A writer at work can make room in its queue.\<close>

lemma queue_can_empty:
  assumes "lp_writer x = Writing" and "None \<notin> set (lg_queue (lp_log x))"
  shows "\<exists>y. loop_run H envr requests x y \<and> quiet x y \<and> \<not> queue_full (lp_log y)"
  using assms
proof (induction "lg_queue (lp_log x)" arbitrary: x)
  case Nil
  then have "\<not> queue_full (lp_log x)" by (simp add: queue_full_def) linarith
  then show ?case using quiet_refl by blast
next
  case (Cons v q)
  then obtain ev where ev: "lg_queue (lp_log x) = Some ev # q" by (cases v) (auto simp: Cons.hyps(2) [symmetric])
  let ?dk = "\<lparr>open_ok = True, write_ok = True, flush_ok = True\<rparr>"
  let ?y = "x\<lparr>lp_log := write_event [] ?dk ev ((lp_log x)\<lparr>lg_queue := q\<rparr>)\<rparr>"
  have step: "loop_step H envr requests x ?y" by (rule loop_step.writes [OF Cons.prems(1) ev])
  have q: "quiet x ?y"
    using ev by (auto simp: quiet_def log_stage_def split: stage_of_log.splits)
  have "\<exists>z. loop_run H envr requests ?y z \<and> quiet ?y z \<and> \<not> queue_full (lp_log z)"
    by (rule Cons.hyps(1)) (use Cons.prems ev in auto)
  with step q quiet_trans show ?case by (meson converse_rtranclp_into_rtranclp)
qed

lemma main_can_move:
  assumes "lp_main x = Call c k" and "closing_state x P g S"
  shows "\<exists>y r. loop_run H envr requests x y \<and> lp_main y = k r"
proof -
  have cl: "closes P g S (Call c k) (\<lambda>_ _ _ _. True)" and l: "log_stage g x" and s: "S \<subseteq> set (lp_stops x)"
    and P: "\<forall>(i, name) \<in> P. i < length (lp_tasks x) \<and> tk_name (lp_tasks x ! i) = name"
    using assms by (simp_all add: closing_state_def)
  have go: ?thesis if "loop_run H envr requests x y" "lp_main y = Call c k" "main_command H c y = Some (r, z)" for y r z
    using that loop_step.main [OF that(2,3), of envr requests]
    by (intro exI [of _ "z\<lparr>lp_main := k r\<rparr>"] exI [of _ r]) auto
  show ?thesis
  proof (cases c)
    case (Await d)
    then show ?thesis
      by (intro go [OF rtranclp.rtrancl_refl assms(1), of "BReply (fst (task_command H [] d x))" "snd (task_command H [] d x)"])
        (simp add: split_def)
  next
    case (Wait_For ids t)
    have "\<forall>i \<in> set ids. i < length (lp_tasks x) \<and> tk_name (lp_tasks x ! i) \<in> set (lp_stops x)"
      using cl Wait_For P s by fastforce
    from tasks_can_end [OF this, of H envr requests] obtain y where y: "loop_run H envr requests x y" "quiet x y"
      "list_all (\<lambda>i. i < length (lp_tasks y) \<and> tk_done (lp_tasks y ! i)) ids" by blast
    with assms(1) Wait_For show ?thesis by (intro go [OF y(1)]) (simp_all add: quiet_def)
  next
    case Put_Sentinel
    then have "lp_writer x = Writing" "None \<notin> set (lg_queue (lp_log x))" using cl l by (auto simp: log_stage_def)
    from queue_can_empty [OF this, of H envr requests] obtain y where y: "loop_run H envr requests x y" "quiet x y"
      "\<not> queue_full (lp_log y)" by blast
    with assms(1) Put_Sentinel show ?thesis by (intro go [OF y(1)]) (simp_all add: quiet_def)
  next
    case (Wait_Writer t)
    show ?thesis
    proof (cases "lp_writer x = Writing")
      case True
      have step: "loop_step H envr requests x (x\<lparr>lp_writer := Stopped\<rparr>)"
        using assms(1) Wait_Writer True by (intro loop_step.writer_timeout) simp_all
      show ?thesis
        by (rule go [OF r_into_rtranclp [of "loop_step H envr requests", OF step]]) (simp_all add: assms(1) Wait_Writer)
    next
      case False
      then have "lp_writer x = Drained \<or> lp_writer x = Stopped"
        using cl l Wait_Writer by (cases "lp_writer x") (auto simp: log_stage_def)
      then obtain r where "main_command H c x = Some (r, x)" using Wait_Writer by auto
      then show ?thesis by (rule go [OF rtranclp.rtrancl_refl assms(1)])
    qed
  qed (rule go [OF rtranclp.rtrancl_refl assms(1)]; simp)+
qed

lemma main_can_end:
  assumes "closing_state x P g S"
  shows "\<exists>y v. loop_run H envr requests x y \<and> lp_main y = Ret v"
  using assms
proof (induction "lp_main x" arbitrary: x P g S)
  case (Ret v)
  then show ?case by (metis rtranclp.rtrancl_refl)
next
  case (Call c k)
  from main_can_move [OF Call.hyps(2) [symmetric] Call.prems, of H envr requests] obtain y r
    where y: "loop_run H envr requests x y" "lp_main y = k r" by blast
  obtain P' g' S' where "closing_state y P' g' S'" using closing_run [OF y(1) Call.prems] by blast
  moreover have "lp_main y \<in> range k" using y(2) by simp
  ultimately obtain z v where "loop_run H envr requests y z" "lp_main z = Ret v"
    using Call.hyps(1) by blast
  with y(1) show ?case by (meson rtranclp_trans)
qed

subsection \<open>The application is such a program\<close>

definition known :: "(nat \<times> string) set \<Rightarrow> service list \<Rightarrow> bool" where
  "known P svs \<longleftrightarrow> (\<forall>sv \<in> set svs. \<forall>i. sv_task sv = Some i \<longrightarrow> (i, sv_name sv) \<in> P)"

lemma closes_call [simp]:
  "closes P g S (boot_call c) Q = closes P g S (Call c (\<lambda>r. Ret (case r of BFail e \<Rightarrow> Inl e | _ \<Rightarrow> Inr r))) Q"
  by (simp add: boot_call_def)

lemma closes_io: "(\<And>a. Q a P g S) \<Longrightarrow> closes P g S (boot_io m) Q"
  by (induction m) auto

lemma closes_do:
  assumes "\<And>x. Q x P g S" and "c = Open_Redis u \<or> c = Make_Dir p \<or> c = Open_Http \<or> c = Serve \<or> c = Cancel_Task i \<or>
      c = Cancel_Writer \<or> c = Close_Log \<or> c = Close_Http \<or> c = Close_Redis"
  shows "closes P g S (boot_do c) Q"
  using assms by (auto simp: boot_do_def split: breply.splits)

lemma closes_after_wait: "(\<And>x. Q x P g S) \<Longrightarrow> closes P g S (after_wait i w) Q"
  by (auto simp: after_wait_def split: waited.splits intro!: closes_do)

lemma closes_stop_service:
  assumes "known P [sv]" and "\<And>x S. Q x P g S"
  shows "closes P g S (stop_service sv) Q"
  using assms by (auto simp: stop_service_def boot_do_def known_def split: option.splits breply.splits sum.splits
      intro!: closes_after_wait)

lemma closes_finish_stops: "(\<And>x. Q x P g S) \<Longrightarrow> closes P g S (finish_stops ids r n) Q"
  by (induction ids arbitrary: n) (auto split: waited.splits sum.splits intro!: closes_after_wait)

lemma closes_stop_workers:
  assumes "known P svs" and "\<And>x S. Q x P g S"
  shows "closes P g S (stop_workers svs) Q"
proof -
  have "\<forall>i \<in> set (List.map_filter sv_task svs). \<exists>name \<in> sv_name ` set svs. (i, name) \<in> P"
    using assms(1) by (fastforce simp: known_def List.map_filter_def)
  then show ?thesis
    using assms(2) by (fastforce simp: stop_workers_def Let_def boot_do_def split: breply.splits sum.splits
        intro!: closes_finish_stops)
qed

lemma closes_stop_logger: "(\<And>x. Q x P Finishing S) \<Longrightarrow> closes P Started S stop_logger Q"
  by (auto simp: stop_logger_def boot_do_def split: breply.splits sum.splits waited.splits)

abbreviation anything :: "'a \<Rightarrow> (nat \<times> string) set \<Rightarrow> stage_of_log \<Rightarrow> string set \<Rightarrow> bool" where
  "anything \<equiv> \<lambda>_ _ _ _. True"

lemma closes_part:
  assumes "closes P g S m (\<lambda>_ P' g' _. P' = P \<and> g' = g)" and "\<And>e S. Q (Inl e) P g S" and "\<And>a S. closes P g S (f a) Q"
  shows "closes P g S (andThen m f) Q"
  unfolding closes_andThen by (rule closes_mono [OF assms(1)]) (use assms(2,3) in \<open>auto split: sum.splits\<close>)

lemma part_io: "closes P g S (boot_io m) (\<lambda>_ P' g' _. P' = P \<and> g' = g)"
  by (rule closes_io) simp

lemma part_do:
  "c = Open_Redis u \<or> c = Open_Http \<or> c = Serve \<or> c = Close_Http \<or> c = Close_Redis \<Longrightarrow>
     closes P g S (boot_do c) (\<lambda>_ P' g' _. P' = P \<and> g' = g)"
  by (rule closes_do) auto

definition services :: "app_state \<Rightarrow> service list" where
  "services st = case_option [] (\<lambda>sv. [sv]) (st_checker st) @ case_option [] (\<lambda>sv. [sv]) (st_watcher st)
     @ case_option [] (map snd) (st_workers st)"

lemma known_simps [simp]:
  "known P []" "known P (sv # svs) \<longleftrightarrow> (\<forall>i. sv_task sv = Some i \<longrightarrow> (i, sv_name sv) \<in> P) \<and> known P svs"
  "known P (svs @ svs') \<longleftrightarrow> known P svs \<and> known P svs'"
  by (auto simp: known_def)

lemma known_insert [simp]: "known P svs \<Longrightarrow> known (insert a P) svs"
  by (simp add: known_def)

lemma closes_start_workers:
  assumes "\<And>x P'. P \<subseteq> P' \<Longrightarrow> (\<And>ws. x = Inr ws \<Longrightarrow> known P' (map snd ws)) \<Longrightarrow> Q x P' g S"
  shows "closes P g S (start_workers cx f hex8 fuel ms) Q"
  using assms
proof (induction ms arbitrary: P Q)
  case Nil
  from Nil [of P "Inr []"] show ?case by simp
next
  case (Cons m ms)
  show ?case
  proof (cases "new_worker cx m (hex8 m) f")
    case (Inl e)
    with Cons.prems [of P "Inl e"] show ?thesis by simp
  next
    case (Inr w)
    have "closes (insert (i, sv_name (worker_service w)) P) g S (start_workers cx f hex8 fuel ms) (\<lambda>x P g S. case x of
        Inl e \<Rightarrow> Q (Inl e) P g S
      | Inr rest \<Rightarrow> Q (Inr ((m, (worker_service w)\<lparr>sv_task := Some i\<rparr>) # rest)) P g S)" for i
    proof (rule Cons.IH)
      fix x :: "exn + (string \<times> service) list" and P'
      assume x: "insert (i, sv_name (worker_service w)) P \<subseteq> P'" "\<And>ws. x = Inr ws \<Longrightarrow> known P' (map snd ws)"
      then show "case x of Inl e \<Rightarrow> Q (Inl e) P' g S
          | Inr rest \<Rightarrow> Q (Inr ((m, (worker_service w)\<lparr>sv_task := Some i\<rparr>) # rest)) P' g S"
        by (cases x) (auto intro!: Cons.prems)
    qed
    then show ?thesis by (simp add: Inr start_worker_def start_service_def cong: sum.case_cong)
  qed
qed

lemma closes_startup:
  "closes {} Unstarted {} (startup_app cx hex8 fuel)
     (\<lambda>x P g _. \<forall>st. x = Inr st \<longrightarrow> known P (services st) \<and> g = Started)"
proof -
  let ?Q = "\<lambda>x P g _. \<forall>st. x = Inr st \<longrightarrow> known P (services st) \<and> g = Started"
  have tail: "closes P Started S (andThen (start_workers cx f hex8 fuel ms) (\<lambda>workers.
       andThen (start_service (new_service ''lease-watcher'') lw) (\<lambda>watcher.
       andThen (start_service (new_service ''integrity-checker'') ic) (\<lambda>checker.
       return \<lparr>st_redis = True, st_logger = True, st_forwarder = Some f, st_workers = Some workers,
              st_watcher = Some watcher, st_checker = Some checker\<rparr>)))) ?Q" for P S lw ic f cx ms
    unfolding closes_andThen
    by (rule closes_start_workers) (auto simp: start_service_def services_def split: sum.splits)
  have logger: "closes P Unstarted S (start_logger dir) (\<lambda>x P' g _. \<forall>u. x = Inr u \<longrightarrow> P' = P \<and> g = Started)" for dir P S
    by (auto simp: start_logger_def boot_do_def split: breply.splits)
  have rest: "closes P Unstarted S (andThen (start_logger dir) f) ?Q"
    if "\<And>u P S. closes P Started S (f u) ?Q" for dir f P S
    unfolding closes_andThen by (rule closes_mono [OF logger]) (use that in \<open>auto split: sum.splits\<close>)
  show ?thesis
    unfolding startup_app_def Let_def classes
    by (rule closes_part, rule part_do, simp, simp, (rule closes_part, rule part_io, simp)+, rule rest,
        rule closes_part, rule part_do, simp, simp, rule tail)
qed

text \<open>A stage of shutdown: whatever it meets, the next one finds the tasks and the log writer as they were.\<close>

lemma part_stop_service: "known P [sv] \<Longrightarrow> closes P g S (stop_service sv) (\<lambda>_ P' g' _. P' = P \<and> g' = g)"
  by (rule closes_stop_service) simp_all

lemma part_stop_workers: "known P svs \<Longrightarrow> closes P g S (stop_workers svs) (\<lambda>_ P' g' _. P' = P \<and> g' = g)"
  by (rule closes_stop_workers) simp_all

lemma closes_shutdown:
  assumes "known P (services st)" and "g = Started"
  shows "closes P g S (shutdown_app st) anything"
proof -
  have known: "known P (case_option [] (\<lambda>sv. [sv]) (st_checker st))" "known P (case_option [] (\<lambda>sv. [sv]) (st_watcher st))"
    "known P (case_option [] (map snd) (st_workers st))"
    using assms(1) by (simp_all add: services_def)
  have 1: "closes P g S (case st_checker st of None \<Rightarrow> return () | Some sv \<Rightarrow> stop_service sv) (\<lambda>_ P' g' _. P' = P \<and> g' = g)"
    "closes P g S (case st_watcher st of None \<Rightarrow> return () | Some sv \<Rightarrow> stop_service sv) (\<lambda>_ P' g' _. P' = P \<and> g' = g)"
    "closes P g S (case st_workers st of None \<Rightarrow> return () | Some ws \<Rightarrow> stop_workers (map snd ws)) (\<lambda>_ P' g' _. P' = P \<and> g' = g)"
    for S
    using known by (auto split: option.splits intro: part_stop_service part_stop_workers)
  have redis: "closes P g S (if st_redis st then boot_do Close_Redis else return ()) anything" for P g S
    by (auto intro: closes_do)
  have http: "closes P g S (andThen (case st_forwarder st of None \<Rightarrow> return () | Some f \<Rightarrow> stop_forwarder f)
      (\<lambda>_. if st_redis st then boot_do Close_Redis else return ())) anything" for P g S
    by (rule closes_part) (auto simp: redis stop_forwarder_def part_do split: option.splits)
  have log: "closes P g S (andThen (if st_logger st then stop_logger else return ()) f) anything"
    if "\<And>P g S. closes P g S (f ()) anything" for f S
    unfolding closes_andThen assms(2)
    by (cases "st_logger st") (use that in \<open>auto intro!: closes_stop_logger split: sum.splits\<close>)
  show ?thesis
    unfolding shutdown_app_def classes
    by (rule closes_part, rule 1, simp, rule closes_part, rule 1, simp, rule closes_part, rule 1, simp,
        rule log, rule http)
qed

lemma closes_lifespan: "closes {} Unstarted {} (lifespan cx hex8 fuel) anything"
proof -
  have "closes P Started S (finally_do (boot_do Serve) (shutdown_app st)) anything" if "known P (services st)" for P S st
    unfolding closes_finally
    by (rule closes_do, rule closes_mono [OF closes_shutdown [OF that]]) (auto split: sum.splits)
  then show ?thesis
    unfolding lifespan_def closes_andThen
    by (intro closes_mono [OF closes_startup]) (auto split: sum.splits)
qed

text \<open>
  C5. The application can always come to its end: from every state that the event loop reaches, whatever has
  timed out, was cancelled or failed before, some run leads on to the end of the lifespan. No deadlock is possible:
  shutdown waits for a task only after it has set the flag that ends the task's loop, and puts the sentinel in the
  log queue only while a writer is there to make room for it.
\<close>

theorem shutdown_can_complete:
  assumes "create_app file cx hex8 fuel = Inr life"
    and "loop_run H envr requests (new_loop w (new_logger n files) life) x"
  shows "\<exists>y v. loop_run H envr requests x y \<and> lp_main y = Ret v"
proof -
  obtain cfg where life: "life = lifespan (cx\<lparr>config := cfg\<rparr>) hex8 fuel"
    using assms(1) by (auto simp: create_app_def split: sum.splits)
  have "closing_state (new_loop w (new_logger n files) life) {} Unstarted {}"
    by (simp add: closing_state_def log_stage_def life new_loop_def new_logger_def closes_lifespan)
  from closing_run [OF assms(2) this] obtain P g S where "closing_state x P g S" by blast
  then show ?thesis by (rule main_can_end)
qed

text \<open>A state in the middle of shutdown: two of the three tasks have ended, the worker still waits for a job.\<close>

lemma demo_life_midway:
  "case moves scripted (take 27 demo_moves) demo_life of None \<Rightarrow> False
   | Some x \<Rightarrow> map tk_done (lp_tasks x) = [False, True, True]"
  by code_simp

theorem shutdown_can_complete_witness:
  "\<exists>x y v. loop_run scripted (\<lambda>_ _. False) (\<lambda>_. False) demo_life x \<and> map tk_done (lp_tasks x) = [False, True, True] \<and>
     loop_run scripted (\<lambda>_ _. False) (\<lambda>_. False) x y \<and> lp_main y = Ret v"
proof -
  obtain x where x: "moves scripted (take 27 demo_moves) demo_life = Some x" "map tk_done (lp_tasks x) = [False, True, True]"
    using demo_life_midway by (auto split: option.splits)
  note r = moves_run [OF x(1), of "\<lambda>_ _. False" "\<lambda>_. False"]
  from shutdown_can_complete [OF demo_app r [unfolded demo_life_def]] obtain y v
    where "loop_run scripted (\<lambda>_ _. False) (\<lambda>_. False) x y" "lp_main y = Ret v" by blast
  with r x(2) show ?thesis by (intro exI conjI)
qed

end
