(* ===== verification/Metering.thy ===== *)
theory Metering
  imports System
begin

text \<open>
  What is counted of the jobs: GET /metrics with the registry behind it, and how the metrics and the event log of a
  worker agree with what became of its jobs.
\<close>

subsection \<open>GET /metrics\<close>

text \<open>
  The registry is what was asked of the collectors so far, in order; its text form is made by \<open>prometheus_client\<close>
  (\<open>generate_latest\<close>), which also names its media type.
\<close>

type_synonym registry = "metric list"

definition metrics :: "(registry \<Rightarrow> string) \<Rightarrow> string \<Rightarrow> registry \<Rightarrow> http_reply" where
  "metrics generate_latest content_type reg =
     \<lparr>hr_status = 200, hr_headers = [(''content-type'', content_type)], hr_content = JStr (generate_latest reg)\<rparr>"

text \<open>A server together with the registry of its process.\<close>

definition with_registry :: "(cmd \<Rightarrow> 's \<Rightarrow> reply \<times> 's) \<Rightarrow> cmd \<Rightarrow> 's \<times> registry \<Rightarrow> reply \<times> ('s \<times> registry)" where
  "with_registry H c s =
     (let (r, s') = H c (fst s) in (r, (s', case c of Env (Metric m) \<Rightarrow> snd s @ [m] | _ \<Rightarrow> snd s)))"

definition metric_of :: "cmd \<Rightarrow> metric option" where
  "metric_of c = (case c of Env (Metric m) \<Rightarrow> Some m | _ \<Rightarrow> None)"

lemma registry_of_run:
  "run (with_registry H) p (s, reg) =
     (fst (run H p s), (snd (run H p s), reg @ List.map_filter metric_of (trace H p s)))"
proof (induction p arbitrary: s reg)
  case (Call c k)
  then show ?case
    by (auto simp: with_registry_def metric_of_def List.map_filter_simps split: prod.splits cmd.splits ecmd.splits option.splits)
qed (simp add: List.map_filter_simps)

text \<open>What a scrape of GET /metrics is made from: the calls of the program that ran before it, in their order.\<close>

lemma scrape_after_run:
  "metrics generate_latest ct (snd (snd (run (with_registry H) p (s, reg)))) =
     \<lparr>hr_status = 200, hr_headers = [(''content-type'', ct)],
      hr_content = JStr (generate_latest (reg @ List.map_filter metric_of (trace H p s)))\<rparr>"
  by (simp add: metrics_def registry_of_run)

subsection \<open>What is counted of a job\<close>

record tally =
  dispatched :: nat \<comment> \<open>events "dispatched"\<close>
  waits :: nat \<comment> \<open>observations of queue_wait_seconds\<close>
  completions :: nat \<comment> \<open>observations of request_duration_seconds\<close>
  failures :: nat
  cancels :: nat
  logged_completed :: nat
  logged_failed :: nat
  logged_cancelled :: nat

fun count_metric :: "metric \<Rightarrow> tally \<Rightarrow> tally" where
  "count_metric (Observe n ls v) t =
     (if n = ''queue_wait_seconds'' then t\<lparr>waits := Suc (waits t)\<rparr>
      else if n = ''request_duration_seconds'' then t\<lparr>completions := Suc (completions t)\<rparr>
      else t)"
| "count_metric (CounterInc n ls) t =
     (if n = ''failure_total'' then t\<lparr>failures := Suc (failures t)\<rparr>
      else if n = ''cancel_total'' then t\<lparr>cancels := Suc (cancels t)\<rparr>
      else t)"
| "count_metric (GaugeSet n ls v) t = t"

definition event_name :: "json \<Rightarrow> string option" where
  "event_name j = (case j of JObj kvs \<Rightarrow> (case map_of kvs ''event'' of Some (JStr e) \<Rightarrow> Some e | _ \<Rightarrow> None) | _ \<Rightarrow> None)"

definition count_event :: "json \<Rightarrow> tally \<Rightarrow> tally" where
  "count_event j t =
     (if event_name j = Some ''dispatched'' then t\<lparr>dispatched := Suc (dispatched t)\<rparr>
      else if event_name j = Some ''completed'' then t\<lparr>logged_completed := Suc (logged_completed t)\<rparr>
      else if event_name j = Some ''failed'' then t\<lparr>logged_failed := Suc (logged_failed t)\<rparr>
      else if event_name j = Some ''cancelled'' then t\<lparr>logged_cancelled := Suc (logged_cancelled t)\<rparr>
      else t)"

definition count_cmd :: "cmd \<Rightarrow> tally \<Rightarrow> tally" where
  "count_cmd c t = (case c of Env (Metric m) \<Rightarrow> count_metric m t | Env (Emit j) \<Rightarrow> count_event j t | _ \<Rightarrow> t)"

definition nothing_yet :: tally where
  "nothing_yet = \<lparr>dispatched = 0, waits = 0, completions = 0, failures = 0, cancels = 0, logged_completed = 0,
     logged_failed = 0, logged_cancelled = 0\<rparr>"

definition tally_of :: "cmd list \<Rightarrow> tally" where
  "tally_of cs = fold count_cmd cs nothing_yet"

subsection \<open>Counting in every run of a program\<close>

primrec tallies :: "tally \<Rightarrow> (cmd, reply, 'a) tree \<Rightarrow> ('a \<Rightarrow> tally \<Rightarrow> bool) \<Rightarrow> bool" where
  "tallies t (Ret a) Q = Q a t"
| "tallies t (Call c k) Q = (\<forall>r. tallies (count_cmd c t) (k r) Q)"

lemma tallies_run:
  "tallies t m Q \<Longrightarrow> Q (fst (run H m s)) (fold count_cmd (trace H m s) t)"
proof (induction m arbitrary: s t)
  case (Call c k)
  obtain r s' where h: "H c s = (r, s')" by (cases "H c s") auto
  from Call.prems have "tallies (count_cmd c t) (k r) Q" by simp
  from Call.IH [OF _ this, of s'] h show ?case by simp
qed simp

lemma tallies_bind [simp]: "tallies t (bind m f) Q = tallies t m (\<lambda>a t. tallies t (f a) Q)"
  by (induction m arbitrary: t) auto

lemma tallies_mono: "tallies t m P \<Longrightarrow> (\<And>a t. P a t \<Longrightarrow> Q a t) \<Longrightarrow> tallies t m Q"
  by (induction m arbitrary: t) auto

lemma tallies_pure [simp]:
  "tallies t (return a) Q = Q (Inr a) t" "tallies t (raise e) Q = Q (Inl e) t" "tallies t (lift x) Q = Q x t"
  by (simp_all add: return_def raise_def lift_def)

lemma tallies_andThen: 
  "tallies t (andThen m f) Q = tallies t m (\<lambda>x t. case x of Inl e \<Rightarrow> Q (Inl e) t | Inr a \<Rightarrow> tallies t (f a) Q)"
proof -
  have "(\<lambda>a t. tallies t (case a of Inl e \<Rightarrow> Ret (Inl e) | Inr a \<Rightarrow> f a) Q) =
      (\<lambda>x t. case x of Inl e \<Rightarrow> Q (Inl e) t | Inr a \<Rightarrow> tallies t (f a) Q)"
    by (auto simp: fun_eq_iff split: sum.splits)
  then show ?thesis by (simp add: andThen_def)
qed

lemma tallies_catch:
  "tallies t (catch m h) Q = tallies t m (\<lambda>x t. case x of Inl e \<Rightarrow> tallies t (h e) Q | Inr a \<Rightarrow> Q (Inr a) t)"
proof -
  have "(\<lambda>a t. tallies t (case a of Inl e \<Rightarrow> h e | Inr a \<Rightarrow> Ret (Inr a)) Q) =
      (\<lambda>x t. case x of Inl e \<Rightarrow> tallies t (h e) Q | Inr a \<Rightarrow> Q (Inr a) t)"
    by (auto simp: fun_eq_iff split: sum.splits)
  then show ?thesis by (simp add: catch_def)
qed

lemma tallies_finally:
  "tallies t (finally_do m f) Q = tallies t m (\<lambda>x t. tallies t f (\<lambda>y t. case y of Inl e \<Rightarrow> Q (Inl e) t | Inr _ \<Rightarrow> Q x t))"
proof -
  have "(\<lambda>y t. case y of Inl e \<Rightarrow> Q (Inl e) t | Inr a \<Rightarrow> tallies t (Ret x) Q) =
      (\<lambda>y t. case y of Inl e \<Rightarrow> Q (Inl e) t | Inr (_ :: unit) \<Rightarrow> Q x t)" for x
    by (auto simp: fun_eq_iff split: sum.splits)
  then show ?thesis by (simp add: finally_do_def tallies_andThen)
qed

text \<open>Most programs count nothing, and may raise anything.\<close>

definition silent :: "(cmd, reply, 'a) tree \<Rightarrow> bool" where
  "silent m \<longleftrightarrow> wp (\<lambda>c. \<forall>t. count_cmd c t = t) (\<lambda>_ _. True) m (\<lambda>_. True)"

lemma tallies_silent: "silent m \<Longrightarrow> (\<And>x. Q x t) \<Longrightarrow> tallies t m Q"
  unfolding silent_def by (induction m) auto

lemma silent_rules:
  "silent m \<Longrightarrow> (\<And>a. silent (f a)) \<Longrightarrow> silent (andThen m f)" "silent m \<Longrightarrow> (\<And>e. silent (h e)) \<Longrightarrow> silent (catch m h)"
  "silent (return a)" "silent (raise e)" "silent (lift x)"
  "silent m \<Longrightarrow> silent k \<Longrightarrow> silent (catch_redis m k)" "silent (redis c)" "silent (evalsha b)" "silent (pipeline cs)"
  "silent (read_env Now)" "silent iso_now" "silent stop_is_set" "silent (sleep us)" "silent (http_post u j n)"
  "silent (record_redis_error opn)"
proof -
  have s: "silent n \<Longrightarrow> wp (\<lambda>c. \<forall>t. count_cmd c t = t) (\<lambda>_ _. True) n P" if "\<And>x. P x" for n :: "(cmd, reply, 'b) tree" and P
    unfolding silent_def by (erule wp_mono) (rule that)
  show "silent m \<Longrightarrow> (\<And>a. silent (f a)) \<Longrightarrow> silent (andThen m f)" "silent m \<Longrightarrow> (\<And>e. silent (h e)) \<Longrightarrow> silent (catch m h)"
    unfolding silent_def by (auto elim!: wp_mono split: sum.splits)
  show "silent m \<Longrightarrow> silent k \<Longrightarrow> silent (catch_redis m k)"
    unfolding catch_redis_def silent_def by (auto elim!: wp_mono split: sum.splits)
qed (simp_all add: silent_def io_defs metrics_defs lift_def http_post_def count_cmd_def)

lemma silent_parts:
  "silent (publish j st)" "silent (release_slot w j)" "silent (cleanup_slot w j status ec)" "silent (write_terminal j vs opn)"
  "silent (set_lease w j ttl)" "silent (fetch_job w j)" "silent (cleanup_slot_minimal w j)"
  "silent (build_base_event ev j rq md cl mt pr)" "silent (forward cx f payload n)" "silent (pop_job w)"
  unfolding publish_def release_slot_def cleanup_slot_def write_terminal_def set_lease_def fetch_job_def
    cleanup_slot_minimal_def build_base_event_def forward_def Let_def raise_for_status_def response_json_def pop_job_def
  by (auto intro!: silent_rules split: reply.splits option.splits)

lemma silent_claim: "silent (claim_loop cx w j n)"
  by (induction n) (auto intro!: silent_rules simp: evalsha_claim_slot_def require_sha_def split: option.splits)

lemma tallies_after:
  "silent m \<Longrightarrow> (\<And>e. Q (Inl e) t) \<Longrightarrow> (\<And>a. tallies t (f a) Q) \<Longrightarrow> tallies t (andThen m f) Q"
  unfolding tallies_andThen by (erule tallies_silent) (auto split: sum.splits)

lemma tallies_counted:
  "tallies t (andThen (metric m) f) Q = tallies (count_metric m t) (f ()) Q"
  "tallies t (andThen (emit j) f) Q = tallies (count_event j t) (f ()) Q"
  "tallies t (emit j) Q = Q (Inr ()) (count_event j t)"
  by (simp_all add: tallies_andThen io_defs count_cmd_def)

subsection \<open>The end of a job\<close>

definition begun :: "tally \<Rightarrow> tally" where
  "begun t = t\<lparr>dispatched := Suc (dispatched t), waits := Suc (waits t)\<rparr>"

text \<open>What marking a job as completed, failed or cancelled counts: a completion is one more observation of its wait.\<close>

definition counted :: "job_status \<Rightarrow> tally \<Rightarrow> tally" where
  "counted st t =
     (case st of
        COMPLETED \<Rightarrow> t\<lparr>waits := Suc (waits t), completions := Suc (completions t), logged_completed := Suc (logged_completed t)\<rparr>
      | FAILED \<Rightarrow> t\<lparr>failures := Suc (failures t), logged_failed := Suc (logged_failed t)\<rparr>
      | CANCELLED \<Rightarrow> t\<lparr>cancels := Suc (cancels t), logged_cancelled := Suc (logged_cancelled t)\<rparr>
      | _ \<Rightarrow> t)"

lemma tallies_iso: "(\<And>ts. tallies t (f ts) Q) \<Longrightarrow> tallies t (andThen iso_now f) Q"
  by (simp add: tallies_andThen iso_now_def count_cmd_def)

lemma tallies_base:
  assumes "\<And>base. (\<And>xs. event_name (JObj (base @ xs)) = Some ev) \<Longrightarrow> tallies t (f base) Q"
  shows "tallies t (andThen (build_base_event ev j rq md cl mt pr) f) Q"
  using assms by (simp add: build_base_event_def tallies_andThen iso_now_def count_cmd_def event_name_def)

lemma tallies_events:
  "(\<And>ev. event_name ev = Some ''dispatched'' \<Longrightarrow> tallies t (f ev) Q) \<Longrightarrow>
     tallies t (andThen (build_dispatched_event j rq md cl mt pr n tg hint) f) Q"
  "(\<And>ev. event_name ev = Some ''completed'' \<Longrightarrow> tallies t (f ev) Q) \<Longrightarrow>
     tallies t (andThen (build_completed_event j rq md cl mt pr n m tp tc tg) f) Q"
  by (simp_all add: build_dispatched_event_def build_completed_event_def build_base_event_def tallies_andThen iso_now_def
      count_cmd_def event_name_def)

lemma tallies_completed:
  assumes "\<And>e. Q (Inl e) t" and "Q (Inr ()) (counted COMPLETED t)"
  shows "tallies t (mark_completed j rq md cl pr resp w b tg) Q"
proof -
  have tail: "tallies t (andThen (record_completion md w b b) (\<lambda>_.
      andThen (build_completed_event j rq md cl mt pj n m tp tc tg) (\<lambda>ev. emit ev))) Q" for mt pj n m tp tc
    using assms(2) by (simp add: record_completion_def tallies_andThen io_defs count_cmd_def counted_def count_event_def
        build_completed_event_def build_base_event_def event_name_def)
  show ?thesis
    unfolding mark_completed_def Let_def
    by (rule tallies_iso, (rule tallies_after, rule silent_rules silent_parts, rule assms(1))+, rule tail)
qed

lemma tallies_failed:
  assumes "\<And>e. Q (Inl e) t" and "Q (Inr ()) (counted FAILED t)"
  shows "tallies t (mark_failed j rq md cl pr ec msg st) Q"
proof -
  have tail: "tallies t (andThen (record_failure md v) (\<lambda>_.
      andThen (build_base_event (event_value EV_FAILED) j rq md cl mt pj) (\<lambda>base. emit (JObj (base @ xs))))) Q"
    for v mt pj xs
    using assms(2) by (simp add: record_failure_def tallies_andThen io_defs count_cmd_def counted_def count_event_def
        build_base_event_def event_name_def)
  show ?thesis
    unfolding mark_failed_def
    by (rule tallies_iso, (rule tallies_after, rule silent_parts, rule assms(1))+, rule tail)
qed

lemma tallies_cancelled:
  assumes "\<And>e. Q (Inl e) t" and "Q (Inr ()) (counted CANCELLED t)"
  shows "tallies t (mark_cancelled_dispatched j rq md cl pr) Q"
proof -
  have tail: "tallies t (andThen (record_cancel md) (\<lambda>_.
      andThen (build_base_event (event_value EV_CANCELLED) j rq md cl mt pj) (\<lambda>base. emit (JObj (base @ xs))))) Q"
    for mt pj xs
    using assms(2) by (simp add: record_cancel_def tallies_andThen io_defs count_cmd_def counted_def count_event_def
        build_base_event_def event_name_def)
  show ?thesis
    unfolding mark_cancelled_dispatched_def
    by (rule tallies_iso, (rule tallies_after, rule silent_parts, rule assms(1))+, rule tail)
qed

text \<open>
  A job that a worker has claimed: nothing is counted of it (it is gone, its hash cannot be read or its
  priority is no number), or its start and one end; the end is left out only when an exception goes on.
\<close>

definition closed :: "tally \<Rightarrow> exn + unit \<Rightarrow> tally \<Rightarrow> bool" where
  "closed t x u \<longleftrightarrow> u \<in> {counted COMPLETED t, counted FAILED t, counted CANCELLED t} \<or> (u = t \<and> (\<exists>e. x = Inl e))"

definition accounted :: "tally \<Rightarrow> exn + unit \<Rightarrow> tally \<Rightarrow> bool" where
  "accounted t x u \<longleftrightarrow> u = t \<or> closed (begun t) x u"

lemma tallies_forward: "tallies t (forward_and_mark cx w j rq md cl pr n pl) (closed t)"
proof -
  have handler: "tallies t (andThen (mark_cancelled_dispatched j rq md cl pr) (\<lambda>_. raise CancelledError)) (closed t)"
    "tallies t (mark_failed j rq md cl pr ec msg st) (closed t)" for ec msg st
    by (auto simp: tallies_andThen closed_def intro!: tallies_failed tallies_cancelled)
  have sent: "tallies t (andThen (forward cx (wk_forwarder w) pl k) (\<lambda>(response, backend_target).
      andThen (read_env Now) (\<lambda>now. mark_completed j rq md cl pr response n (now - start) backend_target)))
      (\<lambda>x u. u = (case x of Inl _ \<Rightarrow> t | Inr _ \<Rightarrow> counted COMPLETED t))" for start k
    by (rule tallies_after, rule silent_parts, simp, clarify, rule tallies_after, rule silent_rules, simp,
        rule tallies_completed) simp_all
  have release: "tallies u (release_slot w j) (\<lambda>y u. case y of Inl e \<Rightarrow> closed t (Inl e) u | Inr _ \<Rightarrow> closed t x u)"
    if "closed t x u" for x u
    by (rule tallies_silent, rule silent_parts) (use that in \<open>auto simp: closed_def split: sum.split\<close>)
  have caught: "tallies t (catch (andThen (forward cx (wk_forwarder w) pl k) (\<lambda>(response, backend_target).
        andThen (read_env Now) (\<lambda>now. mark_completed j rq md cl pr response n (now - start) backend_target)))
      (\<lambda>e. if e = CancelledError
           then andThen (mark_cancelled_dispatched j rq md cl pr) (\<lambda>_. raise CancelledError)
           else mark_failed j rq md cl pr (fst (forward_error e)) (exn_str e) (snd (forward_error e)))) (closed t)" for start k
    unfolding tallies_catch
    by (rule tallies_mono [OF sent]) (auto simp: closed_def [of _ "Inr _"] split: sum.splits intro: handler)
  show ?thesis
    unfolding forward_and_mark_def
    by (rule tallies_after, rule silent_rules, simp add: closed_def, unfold tallies_finally,
        rule tallies_mono [OF caught], erule release)
qed

lemma tallies_job: "tallies t (dispatch_claimed cx w j ttl) (accounted t)"
proof -
  have start: "tallies t (andThen (build_dispatched_event j rq md cl mt pj n tg hint) (\<lambda>ev. andThen (emit ev) (\<lambda>_.
      andThen (metric (Observe ''queue_wait_seconds'' ls v)) (\<lambda>_. forward_and_mark cx w j rq md cl pr v pl)))) (accounted t)"
    for rq md cl mt pj n tg hint ls v pr pl
  proof (rule tallies_events)
    fix ev assume "event_name ev = Some ''dispatched''"
    then have "count_metric (Observe ''queue_wait_seconds'' ls v) (count_event ev t) = begun t"
      by (simp add: count_event_def begun_def)
    then show "tallies t (andThen (emit ev) (\<lambda>_. andThen (metric (Observe ''queue_wait_seconds'' ls v))
        (\<lambda>_. forward_and_mark cx w j rq md cl pr v pl))) (accounted t)"
      unfolding tallies_counted by (simp only:) (rule tallies_mono [OF tallies_forward], simp add: accounted_def)
  qed
  have enq: "silent (enqueued_at ts)" for ts
    unfolding enqueued_at_def by (auto intro!: silent_rules split: option.split)
  have process: "tallies t (process_job cx w j h) (accounted t)" for h
    unfolding process_job_def Let_def
    by (rule tallies_after, rule silent_rules, simp add: accounted_def, rule tallies_after, rule enq, simp add: accounted_def,
        rule tallies_after, rule silent_rules, simp add: accounted_def, rule start)
  show ?thesis
    unfolding dispatch_claimed_def
    by (rule tallies_after, rule silent_parts, simp add: accounted_def, rule tallies_after, rule silent_parts, simp add: accounted_def)
      (auto simp: accounted_def [of _ "Inr _"] accounted_def [of t _ t] intro!: tallies_silent [OF silent_parts(7)] process
        split: option.split list.split)
qed

subsection \<open>The life of a worker\<close>

text \<open>
  Between two jobs: the log and the metrics agree, the wait of a completed job has been observed twice, and no job is open
  that has not ended.
\<close>

definition agrees :: "tally \<Rightarrow> bool" where
  "agrees t \<longleftrightarrow> logged_completed t = completions t \<and> logged_failed t = failures t \<and> logged_cancelled t = cancels t \<and>
     waits t = dispatched t + completions t"

definition all_ended :: "tally \<Rightarrow> bool" where
  "all_ended t \<longleftrightarrow> agrees t \<and> completions t + failures t + cancels t = dispatched t"

definition one_open :: "tally \<Rightarrow> bool" where
  "one_open t \<longleftrightarrow> agrees t \<and> dispatched t = Suc (completions t + failures t + cancels t)"

lemma accounted_ends:
  "accounted t x u \<Longrightarrow> all_ended t \<Longrightarrow> all_ended u \<or> (one_open u \<and> (\<exists>e. x = Inl e))"
  by (auto simp: accounted_def closed_def begun_def counted_def all_ended_def one_open_def agrees_def)

lemma tallies_worker:
  "all_ended t \<Longrightarrow> tallies t (run_worker cx w fuel n) (\<lambda>x u. all_ended u \<or> (one_open u \<and> (\<exists>e. x = Inl e)))"
proof (induction n arbitrary: t)
  case (Suc n)
  let ?Q = "\<lambda>x u. all_ended u \<or> (one_open u \<and> (\<exists>e. x = Inl e))"
  have claim: "tallies t (wait_for_slot_and_claim cx w j ttl fuel) ?Q" for j ttl
    unfolding wait_for_slot_and_claim_def
    by (rule tallies_after, rule silent_claim, simp add: Suc.prems)
      (auto simp: Suc.prems tallies_andThen split: option.split bool.split sum.splits
         intro!: tallies_mono [OF tallies_job] dest!: accounted_ends [OF _ Suc.prems])
  have round: "tallies t (andThen (wait_for_slot_and_claim cx w j ttl fuel) (\<lambda>r.
      case r of None \<Rightarrow> return None | Some _ \<Rightarrow> run_worker cx w fuel n)) ?Q" for j ttl
    unfolding tallies_andThen
    by (rule tallies_mono [OF claim]) (auto intro: Suc.IH split: sum.splits option.splits)
  show ?case
    unfolding run_worker.simps
    by (rule tallies_after, rule silent_rules, simp add: Suc.prems)
      (auto intro!: tallies_after [OF silent_parts(10)] round Suc.IH simp: Suc.prems split: option.split)
qed (simp add: nothing_yet_def)


text \<open>One job that completes: the histogram of the waits counts two.\<close>

lemma one_completion_two_waits:
  "let t = tally_of (trace scripted (dispatch_claimed demo_ctx demo_worker ''j'' 90)
     (demo_claimed ''3'', [RInt 5, RInt 6, RInt 6, RInt 7, RResponse 200 [] (Some (JObj []))])) in
   completions t = 1 \<and> dispatched t = 1 \<and> waits t = 2"
  by code_simp

text \<open>
  A claimed job whose hash cannot be read is written down as failed, but neither a metric nor an event says so,
  and its hash never expires.
\<close>

lemma unread_job_fails_unseen:
  "let p = dispatch_claimed demo_ctx demo_worker ''j'' 90; s = (demo_claimed ''3'', [True, False]) in
   hs (fst (snd (run flaky p s))) (job_key ''j'') \<noteq> [] \<and>
   map_of (hs (fst (snd (run flaky p s))) (job_key ''j'')) ''status'' = Some (Str ''failed'') \<and>
   ttls (fst (snd (run flaky p s))) (job_key ''j'') = None \<and> tally_of (trace flaky p s) = nothing_yet"
  by code_simp

end
