(* ===== verification/Journey.thy ===== *)
theory Journey
  imports System
begin

text \<open>
  The way of one job through the components: POST /jobs, the worker of its model, GET /jobs/{id}.
  What the backend and the stop flag answer is fixed beforehand: \<open>fixed\<close> puts the given replies
  into a program, so that the rule \<open>alone\<close> speaks of the rest.
\<close>

subsection \<open>Fixing replies\<close>


primrec fixed :: "('c \<Rightarrow> 'r option) \<Rightarrow> ('c, 'r, 'a) tree \<Rightarrow> ('c, 'r, 'a) tree" where
  "fixed a (Ret x) = Ret x"
| "fixed a (Call c k) = (case a c of Some r \<Rightarrow> fixed a (k r) | None \<Rightarrow> Call c (\<lambda>r. fixed a (k r)))"

lemma fixed_bind [simp]: "fixed a (bind m f) = bind (fixed a m) (\<lambda>x. fixed a (f x))"
  by (induction m) (auto split: option.splits)

lemma fixed_pure [simp]:
  "fixed a (return x) = return x" "fixed a (raise e) = raise e" "fixed a (lift y) = lift y"
  by (simp_all add: return_def raise_def lift_def)

lemma fixed_andThen [simp]: "fixed a (andThen m f) = andThen (fixed a m) (\<lambda>x. fixed a (f x))"
  by (auto simp: andThen_def intro!: arg_cong [where f = "bind _"] split: sum.splits)

lemma fixed_catch [simp]: "fixed a (catch m h) = catch (fixed a m) (\<lambda>e. fixed a (h e))"
  by (auto simp: catch_def intro!: arg_cong [where f = "bind _"] split: sum.splits)

lemma fixed_catch_redis [simp]: "fixed a (catch_redis m h) = catch_redis (fixed a m) (fixed a h)"
  by (simp add: catch_redis_def if_distrib [of "fixed a"] cong: if_cong)

lemma fixed_finally [simp]: "fixed a (finally_do m f) = finally_do (fixed a m) (fixed a f)"
  by (simp add: finally_do_def)

text \<open>A backend that answers 200 with this response, and a worker that is never told to stop.\<close>

definition obliging :: "(string \<times> string) list \<Rightarrow> json \<Rightarrow> cmd \<Rightarrow> reply option" where
  "obliging headers response c =
     (case c of
        Env (HttpPost u b t) \<Rightarrow> Some (RResponse 200 headers (Some response))
      | Env StopIsSet \<Rightarrow> Some (RBool False)
      | _ \<Rightarrow> None)"

lemma fixed_calls [simp]:
  "fixed (obliging hdr rs) (redis c) = redis c"
  "fixed (obliging hdr rs) (pipeline cs) = pipeline cs"
  "fixed (obliging hdr rs) (evalsha t) = evalsha t"
  "fixed (obliging hdr rs) (read_env Now) = read_env Now"
  "fixed (obliging hdr rs) iso_now = iso_now"
  "fixed (obliging hdr rs) (sleep us) = sleep us"
  "fixed (obliging hdr rs) (metric m) = metric m"
  "fixed (obliging hdr rs) (emit v) = emit v"
  "fixed (obliging hdr rs) stop_is_set = return False"
  "fixed (obliging hdr rs) (http_post u b tm) = return (RResponse 200 hdr (Some rs))"
  by (simp_all add: io_defs obliging_def http_post_def)

lemma andThen_return [simp]: "andThen (return x) f = f x"
  by (simp add: andThen_def return_def)

lemma fixed_sound:
  assumes "exact_server H view" and "\<And>c r s. a c = Some r \<Longrightarrow> fst (H c s) = r \<and> \<not> is_redis c"
    and "alone (fixed a m) (view s) Q"
  shows "case run H m s of (x, s') \<Rightarrow> Q x (view s')"
  using assms(3)
proof (induction m arbitrary: s)
  case (Ret x)
  then show ?case by simp
next
  case (Call c k)
  obtain r s' where h: "H c s = (r, s')" by (cases "H c s") auto
  note exact = exact_server.exact [OF assms(1)] and env_replies = exact_server.env_replies [OF assms(1)]
    and env_frame = redis_server.env_frame [OF exact_server.axioms(1) [OF assms(1)]]
  have "alone (fixed a (k r)) (view s') Q"
  proof (cases "a c")
    case (Some r')
    with assms(2) [of c r' s] h have "r = r'" "\<not> is_redis c" by auto
    with Some Call.prems env_frame [OF _ h] show ?thesis by simp
  next
    case None
    show ?thesis
    proof (cases "is_redis c")
      case True
      from exact [OF this h] Call.prems None True show ?thesis by (cases c) (auto simp: prod_eq_iff)
    next
      case False
      then obtain e where "c = Env e" by (cases c) auto
      with Call.prems None h env_replies [of e s r s'] env_frame [of c s r s'] show ?thesis by simp
    qed
  qed
  with Call.IH h show ?case by simp
qed


subsection \<open>The parts of a dispatch\<close>

lemma fixed_metrics [simp]:
  "fixed (obliging hdr rs) (record_redis_error e) = record_redis_error e"
  "fixed (obliging hdr rs) (record_completion m i j k) = record_completion m i j k"
  "fixed (obliging hdr rs) (record_failure m e) = record_failure m e"
  "fixed (obliging hdr rs) (record_cancel m) = record_cancel m"
  by (simp_all add: metrics_defs)

lemma fixed_events [simp]:
  "fixed (obliging hdr rs) (build_base_event ev j rid m c cm p) = build_base_event ev j rid m c cm p"
  "fixed (obliging hdr rs) (build_completed_event j rid m c cm p i i' tp tc bt) =
     build_completed_event j rid m c cm p i i' tp tc bt"
  "fixed (obliging hdr rs) (build_dispatched_event j rid m c cm p i bt kv') =
     build_dispatched_event j rid m c cm p i bt kv'"
  by (simp_all add: build_base_event_def build_completed_event_def build_dispatched_event_def)

lemma fixed_marks [simp]:
  "fixed (obliging hdr rs) (publish j st) = publish j st"
  "fixed (obliging hdr rs) (release_slot w j) = release_slot w j"
  "fixed (obliging hdr rs) (write_terminal j vs opn) = write_terminal j vs opn"
  "fixed (obliging hdr rs) (set_lease w j ttl) = set_lease w j ttl"
  by (simp_all add: publish_def release_slot_def write_terminal_def set_lease_def)

lemma fixed_ends [simp]:
  "fixed (obliging hdr rs) (mark_completed j rid m c p resp i i' bt) = mark_completed j rid m c p resp i i' bt"
  "fixed (obliging hdr rs) (mark_failed j rid m c p ec msg st) = mark_failed j rid m c p ec msg st"
  "fixed (obliging hdr rs) (mark_cancelled_dispatched j rid m c p) = mark_cancelled_dispatched j rid m c p"
  "fixed (obliging hdr rs) (cleanup_slot w j st' ec) = cleanup_slot w j st' ec"
  "fixed (obliging hdr rs) (enqueued_at t) = enqueued_at t"
  by (simp_all add: mark_completed_def mark_failed_def mark_cancelled_dispatched_def cleanup_slot_def
      enqueued_at_def Let_def split: option.splits)

lemma fixed_claim [simp]:
  "fixed (obliging hdr rs) (evalsha_claim_slot l i c j ts) = evalsha_claim_slot l i c j ts"
  by (simp add: evalsha_claim_slot_def require_sha_def split: option.splits)

lemma fixed_steps [simp]:
  "fixed (obliging hdr rs) (fetch_job w j) = fetch_job w j"
  "fixed (obliging hdr rs) (pop_job w) = pop_job w"
  by (simp_all add: fetch_job_def pop_job_def if_distrib [of "fixed _"] cong: if_cong)

subsection \<open>A dispatch that succeeds\<close>

text \<open>A response whose token counts can be read: an object, with "usage" an object or falsy.\<close>

definition usable :: "json \<Rightarrow> bool" where
  "usable response \<longleftrightarrow> (\<exists>kvs. response = JObj kvs \<and>
     (case map_of kvs ''usage'' of None \<Rightarrow> True | Some u \<Rightarrow> truthy u \<longrightarrow> (\<exists>us. u = JObj us)))"

lemma alone_mark_completed_usable:
  assumes "usable response"
    and "\<And>ts. clean ts \<Longrightarrow> Q (Inr ()) (terminal_write j (completed_fields ts response) (status_value COMPLETED) d)"
  shows "alone (mark_completed j rid model caller prio response wait_us backend_us target) d Q"
  using assms
  by (auto simp: mark_completed_def Let_def alone_write_terminal terminal_write_def completed_fields_def
      build_completed_event_def usable_def split: sum.splits option.splits)

lemma alone_forward_obliging:
  assumes "usable response" and "started (wk_forwarder w)" and "dict_of payload = Inr kvs"
    and "counter d (slots_in_use_key (wk_model w)) = Some n" and "in_int64 (n - 1)"
    and "\<And>ts. clean ts \<Longrightarrow> Q (Inr ()) (released (wk_model w) j (n - 1)
      (terminal_write j (completed_fields ts response) (status_value COMPLETED) d))"
  shows "alone (fixed (obliging hdr response) (forward_and_mark cx w j rid model caller prio wait_us payload)) d Q"
proof -
  have rel: "alone (release_slot w j) (terminal_write j ps st d) P =
      P (Inr ()) (released (wk_model w) j (n - 1) (terminal_write j ps st d))" for ps st P
    by (rule alone_release_slot) (use assms(4,5) in simp_all)
  show ?thesis
    unfolding forward_and_mark_def forward_def
    by (auto simp: assms(2,3) Let_def raise_for_status_def response_json_def rel simp del: status_value.simps
        intro!: alone_mark_completed_usable [OF assms(1)] assms(6))
qed


definition ran_to_completion :: "worker \<Rightarrow> string \<Rightarrow> int \<Rightarrow> int \<Rightarrow> json \<Rightarrow> db \<Rightarrow> db \<Rightarrow> bool" where
  "ran_to_completion w j ttl n response d d' \<longleftrightarrow>
     (\<exists>ts t. d' = released (wk_model w) j (n - 1)
        (terminal_write j (completed_fields ts response) (status_value COMPLETED) (leased w j ttl t d)))"

lemma ran_to_completionI [simp]:
  "ran_to_completion w j ttl n response d (released (wk_model w) j (n - 1)
     (terminal_write j (completed_fields ts response) (status_value COMPLETED) (leased w j ttl t d)))"
  by (auto simp: ran_to_completion_def)

lemma alone_dispatch_obliging:
  assumes "usable response" and "started (wk_forwarder w)"
    and "counter d (slots_in_use_key (wk_model w)) = Some n" and "in_int64 (n - 1)"
    and "hs d (job_key j) = h" and "h \<noteq> []" and "job_priority (job_field h ''priority'') = Inr pr"
    and "dict_of (job_payload cx h) = Inr kvs"
    and Q: "\<And>d'. ran_to_completion w j ttl n response d d' \<Longrightarrow> Q (Inr ()) d'"
  shows "alone (fixed (obliging hdr response) (dispatch_claimed cx w j ttl)) d Q"
proof -
  obtain p ps where h: "h = p # ps" using assms(6) by (cases h) auto
  have "alone (fixed (obliging hdr response) (process_job cx w j (p # ps))) (leased w j ttl t d) Q" for t
    unfolding process_job_def
    by (auto simp: Let_def assms(7) [unfolded h] enqueued_at_def build_dispatched_event_def
        intro!: alone_forward_obliging [OF assms(1,2) assms(8) [unfolded h]] assms(3,4) Q
        simp del: status_value.simps split: option.splits)
  then show ?thesis by (simp add: dispatch_claimed_def assms(5) h)
qed

lemma alone_take_obliging:
  assumes "usable response" and "started (wk_forwarder w)" and "lua_loaded (lua cx)"
    and "counter d (slots_in_use_key (wk_model w)) = Some n"
    and "kv d (slots_capacity_key (wk_model w)) = Some (Str (show_int cap))"
    and "n < cap" and "in_int64 n" and "in_int64 (n + 1)"
    and "job_priority (job_field (hs d (job_key j)) ''priority'') = Inr pr"
    and "dict_of (job_payload cx (hs d (job_key j))) = Inr kvs"
    and Q: "\<And>ts d'. ran_to_completion w j ttl (n + 1) response (claimed (slots_in_use_key (wk_model w)) (n + 1) j ts d) d' \<Longrightarrow>
      Q (Inr (Some ())) d'"
  shows "alone (fixed (obliging hdr response) (wait_for_slot_and_claim cx w j ttl (Suc k))) d Q"
proof -
  have "alone (fixed (obliging hdr response) (dispatch_claimed cx w j ttl))
      (claimed (slots_in_use_key (wk_model w)) (n + 1) j ts d)
      (\<lambda>x d. case x of Inl e \<Rightarrow> Q (Inl e) d | Inr _ \<Rightarrow> alone (return (Some ())) d Q)" for ts
    by (rule alone_dispatch_obliging [OF assms(1,2) _ _ refl])
      (use assms(4-10) Q [of ts] in \<open>auto simp: claimed_def counter_def job_field_def job_payload_def\<close>)
  then show ?thesis
    using assms(6)
    by (simp add: wait_for_slot_and_claim_def alone_claim_slot [OF assms(3-5,8)] del: alone_evalsha)
qed

lemma idle_worker:
  "zs d (queue_key (wk_model w)) = [] \<Longrightarrow> Q (Inr None) d \<Longrightarrow>
     alone (fixed (obliging hdr response) (run_worker cx w fuel k)) d Q"
  by (induction k) (simp_all add: pop_job_def)

lemma ran_to_completion_zs: "ran_to_completion w j ttl n response d d' \<Longrightarrow> zs d' (queue_key m) = zs d (queue_key m)"
  by (auto simp: ran_to_completion_def)

lemma alone_turn_obliging:
  assumes "usable response" and "started (wk_forwarder w)" and "lua_loaded (lua cx)"
    and "counter d (slots_in_use_key (wk_model w)) = Some n"
    and "kv d (slots_capacity_key (wk_model w)) = Some (Str (show_int cap))"
    and "n < cap" and "in_int64 n" and "in_int64 (n + 1)"
    and "zs d (queue_key (wk_model w)) = [ZEntry sc j]"
    and "job_priority (job_field (hs d (job_key j)) ''priority'') = Inr pr"
    and "dict_of (job_payload cx (hs d (job_key j))) = Inr kvs"
    and Q: "\<And>ts d'. ran_to_completion w j (lease_ttl (wk_cfg w)) (n + 1) response
        (claimed (slots_in_use_key (wk_model w)) (n + 1) j ts (d\<lparr>zs := (zs d)(queue_key (wk_model w) := [])\<rparr>)) d' \<Longrightarrow>
      Q (Inr None) d'"
  shows "alone (fixed (obliging hdr response) (run_worker cx w (Suc k) (Suc m))) d Q"
proof -
  let ?d = "d\<lparr>zs := (zs d)(queue_key (wk_model w) := [])\<rparr>"
  let ?d2 = "\<lambda>ts. claimed (slots_in_use_key (wk_model w)) (n + 1) j ts ?d"
  have go_on: "alone (fixed (obliging hdr response) (run_worker cx w (Suc k) m)) d' Q"
    if "ran_to_completion w j (lease_ttl (wk_cfg w)) (n + 1) response (?d2 ts) d'" for ts d'
    by (rule idle_worker) (use that ran_to_completion_zs [OF that] in \<open>auto simp: claimed_def intro: Q\<close>)
  have "alone (fixed (obliging hdr response) (wait_for_slot_and_claim cx w j (lease_ttl (wk_cfg w)) (Suc k))) ?d
      (\<lambda>x d. case x of Inl e \<Rightarrow> Q (Inl e) d
         | Inr r \<Rightarrow> alone (fixed (obliging hdr response) (case r of None \<Rightarrow> return None | Some _ \<Rightarrow> run_worker cx w (Suc k) m)) d Q)"
    by (rule alone_take_obliging [OF assms(1-3) _ _ assms(6-8)])
      (use assms(4,5,10,11) in \<open>auto simp: counter_def intro: go_on\<close>)
  then show ?thesis by (simp add: pop_job_def assms(9))
qed


subsection \<open>The journey of a job\<close>

text \<open>What POST /jobs leaves: the job alone in its queue, with its priority and payload.\<close>

definition waiting :: "submit_request \<Rightarrow> int \<Rightarrow> db \<Rightarrow> db \<Rightarrow> string \<Rightarrow> bool" where
  "waiting rq p d d' j \<longleftrightarrow>
     (\<exists>sc. zs d' (queue_key (sq_model rq)) = [ZEntry sc j]) \<and>
     map_field d' j ''priority'' = Some (Str (show_int p)) \<and>
     map_field d' j ''payload_json'' = Some (JsonText (sq_dump rq)) \<and>
     map_field d' j ''http_status'' = map_field d j ''http_status'' \<and>
     (\<forall>m. kv d' (slots_in_use_key m) = kv d (slots_in_use_key m) \<and>
        kv d' (slots_capacity_key m) = kv d (slots_capacity_key m))"

lemma alone_submit_waiting:
  assumes "admit_ready cx d (sq_model rq) (opt_int (sq_priority rq)) (nonempty_or ''unknown'' (sq_caller rq))
      (sq_idempotency_key rq) mc p q"
    and "0 < max_queue_depth mc" and "zs d (queue_key (sq_model rq)) = []"
  shows "alone (submit_job cx rq) d (\<lambda>res d'. \<exists>sr. res = Inr sr \<and> sr_status sr = ''queued'' \<and>
    waiting rq p d d' (sr_job_id sr))"
proof -
  have prio: "effective_priority (opt_int (sq_priority rq)) mc = JNum p"
    using assms(1) by (auto simp: admit_ready_def effective_priority_def opt_int_def split: option.splits if_splits)
  have kvs: "kv (queued_state cx m key jid sc ps q d) (slots_in_use_key m') = kv d (slots_in_use_key m') \<and>
      kv (queued_state cx m key jid sc ps q d) (slots_capacity_key m') = kv d (slots_capacity_key m')"
    for m key jid sc ps q m'
    by (auto simp: queued_state_def Let_def split: option.splits)
  show ?thesis
    unfolding submit_job_def Let_def alone_andThen
    by (rule alone_admit_queued [OF assms(1)])
      (use assms(2,3) in \<open>simp_all add: store_payload_def waiting_def map_field_def admission_fields_stored kvs prio
        zadd_list_def\<close>, simp add: admission_fields_def)
qed


text \<open>What a turn of the worker leaves.\<close>

definition answered :: "submit_request \<Rightarrow> int \<Rightarrow> json \<Rightarrow> int \<Rightarrow> db \<Rightarrow> string \<Rightarrow> bool" where
  "answered rq p response n d j \<longleftrightarrow>
     map_field d j ''status'' = Some (Str ''completed'') \<and>
     map_field d j ''response_blob'' = Some (GzipJson response) \<and>
     map_field d j ''priority'' = Some (Str (show_int p)) \<and> map_field d j ''http_status'' = None \<and>
     ttls d (job_key j) = Some 3600 \<and> counter d (slots_in_use_key (sq_model rq)) = Some n \<and>
     zs d (queue_key (sq_model rq)) = []"

lemma alone_turn_answers:
  assumes "usable response" and "started (wk_forwarder w)" and "lua_loaded (lua cx)"
    and "wk_model w = sq_model rq" and "sq_dump rq = JObj kvs"
    and "counter d0 (slots_in_use_key (wk_model w)) = Some n"
    and "kv d0 (slots_capacity_key (wk_model w)) = Some (Str (show_int cap))"
    and "n < cap" and "in_int64 n" and "in_int64 (n + 1)"
    and "waiting rq p d0 d j" and "map_field d0 j ''http_status'' = None"
  shows "alone (fixed (obliging hdr response) (run_worker cx w (Suc k) (Suc m))) d
    (\<lambda>_ d'. answered rq p response n d' j)"
proof -
  obtain sc where z: "zs d (queue_key (wk_model w)) = [ZEntry sc j]"
    using assms(4,11) by (auto simp: waiting_def)
  have "counter d (slots_in_use_key (wk_model w)) = Some n"
    "kv d (slots_capacity_key (wk_model w)) = Some (Str (show_int cap))"
    using assms(6,7,11) by (simp_all add: waiting_def counter_def)
  note turn = alone_turn_obliging [OF assms(1-3) this assms(8-10) z]
  show ?thesis
  proof (rule turn)
    show "job_priority (job_field (hs d (job_key j)) ''priority'') = Inr p"
      and "dict_of (job_payload cx (hs d (job_key j))) = Inr kvs"
      using assms(5,11) by (simp_all add: waiting_def map_field_def job_field_def job_payload_def)
  next
    fix ts d'
    assume "ran_to_completion w j (lease_ttl (wk_cfg w)) (n + 1) response
      (claimed (slots_in_use_key (wk_model w)) (n + 1) j ts (d\<lparr>zs := (zs d)(queue_key (wk_model w) := [])\<rparr>)) d'"
    then show "answered rq p response n d' j"
      using assms(4,9,11,12)
      by (auto simp: ran_to_completion_def answered_def claimed_def map_field_def waiting_def completed_fields_def
          counter_def)
  qed
qed

lemma alone_get_answered:
  assumes "answered rq p response n d j"
  shows "alone (get_job j) d (\<lambda>res d'. d' = d \<and> (\<exists>r. res = Inr r \<and> js_job_id r = j \<and>
    js_status r = ''completed'' \<and> js_priority r = p \<and> js_result r = Some response))"
proof -
  let ?f = "field_opt (hs d (job_key j))"
  have f: "?f ''status'' = Some ''completed''" "?f ''priority'' = Some (show_int p)" "?f ''http_status'' = None"
    "map_of (hs d (job_key j)) ''response_blob'' = Some (GzipJson response)" "hs d (job_key j) \<noteq> []"
    "fst (redis_call (TTL (job_key j)) d) \<noteq> RInt (-2)"
    using assms by (auto simp: answered_def map_field_def field_opt_def key_exists_def)
  then show ?thesis
    by (simp add: get_job_def Let_def nonempty_or_def load_blob_def nonempty_def int_or_raise_def
        split del: if_split split: prod.split)
qed


text \<open>Redis as documented, with a backend that answers every job.\<close>

definition kind_server :: "json \<Rightarrow> cmd \<Rightarrow> db \<Rightarrow> reply \<times> db" where
  "kind_server response c d =
     (case c of
        Env (HttpPost u b t) \<Rightarrow> (RResponse 200 [] (Some response), d)
      | Env e \<Rightarrow> (default_reply e, d)
      | _ \<Rightarrow> redis_exec c d)"

interpretation kind: exact_server "kind_server response" "\<lambda>d. d" for response
  by unfold_locales
    (auto simp: kind_server_def env_reply_default env_reply_def clean_def split: cmd.splits ecmd.splits)


subsection \<open>A cancellation that comes late\<close>

text \<open>
  Redis as documented, but the task is cancelled while it waits for the first PUBLISH; the backend answers. The
  second component says that the cancellation is still to come.
\<close>

definition cut_server :: "json \<Rightarrow> cmd \<Rightarrow> db \<times> bool \<Rightarrow> reply \<times> (db \<times> bool)" where
  "cut_server response c s =
     (case c of
        Redis (PUBLISH ch m) \<Rightarrow>
          if snd s then (RErr CancelledError, (fst s, False))
          else (fst (redis_exec c (fst s)), (snd (redis_exec c (fst s)), False))
      | Env e \<Rightarrow> (fst (kind_server response c (fst s)), s)
      | _ \<Rightarrow> (fst (redis_exec c (fst s)), (snd (redis_exec c (fst s)), snd s)))"

lemma cut_simps [simp]:
  "cut_server response (Redis (PUBLISH ch m)) (d, True) = (RErr CancelledError, (d, False))"
  "cut_server response (Redis (PUBLISH ch m)) (d, False) =
     (fst (redis_call (PUBLISH ch m) d), (snd (redis_call (PUBLISH ch m) d), False))"
  "cut_server response (Multi cs) (d, b) = (RList (fst (redis_multi cs d)), (snd (redis_multi cs d), b))"
  "cut_server response (Env (HttpPost u j t)) s = (RResponse 200 [] (Some response), s)"
  "cut_server response (Env Now) s = (RInt 0, s)"
  "cut_server response (Env IsoNow) s = (default_reply IsoNow, s)"
  "cut_server response (Env (Metric mt)) s = (RNil, s)" "cut_server response (Env (Emit v)) s = (RNil, s)"
  by (simp_all add: cut_server_def kind_server_def)

interpretation cut: redis_server "cut_server response" fst for response
proof unfold_locales
  fix c s r s'
  assume h: "cut_server response c s = (r, s')"
  show "\<not> is_redis c \<Longrightarrow> fst s' = fst s"
    using h by (cases c) (auto simp: cut_server_def)
  show "is_redis c \<Longrightarrow> (r, fst s') = redis_exec c (fst s) \<or>
      fault r \<and> (fst s' = fst s \<or> fst s' = snd (redis_exec c (fst s)))"
  proof (cases c)
    case (Redis rc)
    with h show ?thesis
      by (cases "\<exists>ch m. rc = PUBLISH ch m") (auto simp: cut_server_def fault_iff prod_eq_iff split: rcmd.splits if_splits)
  qed (use h in \<open>auto simp: cut_server_def\<close>)
qed

lemma run_commands:
  "run H (redis c) s = (checked (fst (H (Redis c) s)), snd (H (Redis c) s))"
  "run H (read_env e) s = (Inr (reply_int (fst (H (Env e) s))), snd (H (Env e) s))"
  "run H (metric m) s = (Inr (), snd (H (Env (Metric m)) s))"
  "run H (emit ev) s = (Inr (), snd (H (Env (Emit ev)) s))"
  "run H (http_post u b t) s = (checked (fst (H (Env (HttpPost u b t)) s)), snd (H (Env (HttpPost u b t)) s))"
  "run H (lift x) s = (x, s)"
  "run H iso_now s = (Inr (case fst (H (Env IsoNow) s) of RText t \<Rightarrow> t | _ \<Rightarrow> []), snd (H (Env IsoNow) s))"
  "run H (pipeline cs) s = ((case fst (H (Multi cs) s) of
      RErr e \<Rightarrow> Inl e
    | RList rs \<Rightarrow> (case List.find is_err rs of Some (RErr e) \<Rightarrow> Inl e | _ \<Rightarrow> Inr ())
    | _ \<Rightarrow> Inr ()), snd (H (Multi cs) s))"
  by (simp_all add: redis_def read_env_def metric_def emit_def http_post_def lift_def iso_now_def pipeline_def)

lemma run_catch_redis:
  "run H (catch_redis m h) s = (case run H m s of (Inl e, s') \<Rightarrow> if is_redis_error e then run H h s' else (Inl e, s')
     | (Inr a, s') \<Rightarrow> (Inr a, s'))"
  by (auto simp: catch_redis_def run_catch split: prod.splits sum.splits)

lemma cut_completed:
  assumes "usable response"
  shows "run (cut_server response) (mark_completed j rid model caller prio response wait_us backend_us target) (d, True) =
    (Inl CancelledError,
     (d\<lparr>hs := (hs d)(job_key j := put_fields (completed_fields (''2026-05-26T09:12:03.441000+00:00'') response)
          (hs d (job_key j))),
        ttls := (ttls d)(job_key j := Some 3600)\<rparr>, False))"
proof -
  obtain us where r: "json_get response ''usage'' JNull = Inr us" "truthy us \<longrightarrow> (\<exists>uv. us = JObj uv)"
    using assms by (auto simp: usable_def split: option.splits)
  obtain a b where ab: "json_get (if truthy us then us else JObj []) ''prompt_tokens'' (JNum 0) = Inr a"
      "json_get (if truthy us then us else JObj []) ''completion_tokens'' (JNum 0) = Inr b"
    using r(2) by (cases "truthy us") auto
  show ?thesis
    by (simp add: mark_completed_def Let_def r(1) ab write_terminal_def publish_def run_andThen run_catch_redis run_commands
        completed_fields_def key_exists_def del: json_get.simps)
qed

lemma cut_cancelled:
  "run (cut_server response) (mark_cancelled_dispatched j rid model caller prio) (d, False) =
     (Inr (), (terminal_write j (cancelled_fields ''2026-05-26T09:12:03.441000+00:00'') (status_value CANCELLED) d, False))"
  by (simp add: mark_cancelled_dispatched_def write_terminal_def publish_def run_andThen run_catch_redis run_commands
      cancelled_fields_def terminal_write_def key_exists_def record_cancel_def build_base_event_def)

lemma cut_release:
  assumes "counter d (slots_in_use_key (wk_model w)) = Some n" and "in_int64 (n - 1)"
  shows "run (cut_server response) (release_slot w j) (d, b) = (Inr (), (released (wk_model w) j (n - 1) d, b))"
  using assms by (simp add: release_slot_def run_catch_redis run_commands counter_def released_def)

text \<open>
  C39. A completed job can end as cancelled: when shutdown cancels the worker after it has stored the response and
  before it has published the end, the handler of the cancellation writes the status "cancelled" over
  "completed". The response stays in the hash, but GET /jobs/{id} no longer gives it.
\<close>

theorem late_cancel_overwrites_completed:
  assumes "usable response" and "started (wk_forwarder w)" and "counter d (slots_in_use_key (wk_model w)) = Some n"
    and "in_int64 (n - 1)"
  shows "case run (cut_server response) (forward_and_mark cx w j rid model caller prio wait_us (JObj kvs)) (d, True) of
    (res, (d', _)) \<Rightarrow> res = Inl CancelledError \<and> map_field d' j ''status'' = Some (Str ''cancelled'') \<and>
      map_field d' j ''response_blob'' = Some (GzipJson response)"
proof -
  let ?d = "d\<lparr>hs := (hs d)(job_key j := put_fields (completed_fields (''2026-05-26T09:12:03.441000+00:00'') response)
          (hs d (job_key j))), ttls := (ttls d)(job_key j := Some 3600)\<rparr>"
  let ?d' = "terminal_write j (cancelled_fields ''2026-05-26T09:12:03.441000+00:00'') (status_value CANCELLED) ?d"
  have rel: "run (cut_server response) (release_slot w j) (?d', False) = (Inr (), (released (wk_model w) j (n - 1) ?d', False))"
    by (rule cut_release) (use assms(3,4) in \<open>simp_all add: counter_def\<close>)
  have fwd: "run (cut_server response) (forward cx (wk_forwarder w) (JObj kvs) t) (d, True) =
      (Inr (response, extract_backend_target [] (Some response)), (d, True))" for t
    by (simp add: forward_def assms(2) Let_def raise_for_status_def response_json_def run_andThen run_commands)
  show ?thesis
    by (simp add: forward_and_mark_def run_andThen run_finally run_catch run_commands fwd cut_completed [OF assms(1)]
        cut_cancelled rel del: status_value.simps)
      (simp add: map_field_def cancelled_fields_def completed_fields_def)
qed

theorem late_cancel_overwrites_completed_witness:
  "case run (cut_server (JObj [])) (forward_and_mark demo_ctx demo_worker ''j'' ''r'' ''code'' ''me'' 3 0 (JObj []))
      (demo_claimed ''3'', True) of
    (res, (d', _)) \<Rightarrow> res = Inl CancelledError \<and> map_field d' ''j'' ''status'' = Some (Str ''cancelled'') \<and>
      map_field d' ''j'' ''response_blob'' = Some (GzipJson (JObj []))"
  by (rule late_cancel_overwrites_completed [where n = 1]) (simp_all add: usable_def in_int64_def)

end
