(* ===== verification/Sync_Wait.thy ===== *)
theory Sync_Wait
  imports Journey
begin

text \<open>
  The client that waits: a synchronous chat completion from its subscription to its answer, while the rest of the system
  changes Redis between any two of its commands.
\<close>

subsection \<open>A server that others use as well\<close>

text \<open>
  Redis as documented, but before each command of the program the next of a list of changes is made by others. The
  environment answers from a list, as in \<open>scripted\<close>.
\<close>

type_synonym shared = "db \<times> (db \<Rightarrow> db) list \<times> reply list"

definition noisy :: "cmd \<Rightarrow> shared \<Rightarrow> reply \<times> shared" where
  "noisy c x =
     (case x of (d, fs, rs) \<Rightarrow>
        let d' = (case fs of [] \<Rightarrow> d | f # _ \<Rightarrow> f d) in
        case scripted c (d', rs) of (r, (d'', rs')) \<Rightarrow> (r, (d'', tl fs, rs')))"

text \<open>
  \<open>amid E R m d Q\<close>: with others changing the database between the commands as \<open>R\<close> allows, and the environment replying as
  \<open>E\<close> says, \<open>m\<close> ends with a result and a database that satisfy \<open>Q\<close>.
\<close>

primrec amid :: "(ecmd \<Rightarrow> reply \<Rightarrow> bool) \<Rightarrow> (db \<Rightarrow> db \<Rightarrow> bool) \<Rightarrow> (cmd, reply, 'a) tree \<Rightarrow> db \<Rightarrow> ('a \<Rightarrow> db \<Rightarrow> bool) \<Rightarrow> bool" where
  "amid E R (Ret a) d Q = Q a d"
| "amid E R (Call c k) d Q =
     (\<forall>d'. R d d' \<longrightarrow>
        (case c of
           Env e \<Rightarrow> (\<forall>r. E e r \<longrightarrow> amid E R (k r) d' Q)
         | _ \<Rightarrow> amid E R (k (fst (redis_exec c d'))) (snd (redis_exec c d')) Q))"

lemma scripted_replies:
  "scripted c (d, rs) = (r, (d', rs')) \<Longrightarrow> set rs' \<subseteq> set rs \<and> (\<forall>e. c = Env e \<longrightarrow> r \<in> set rs \<or> r = default_reply e)"
  by (auto simp: scripted_def split: cmd.splits list.splits if_splits)

lemma amid_run:
  assumes "amid E R m d Q" and "\<forall>f \<in> set fs. \<forall>d. R d (f d)" and "\<And>d. R d d"
    and "\<forall>e r. env_reply e r \<longrightarrow> r \<in> set rs \<or> r = default_reply e \<longrightarrow> E e r"
  shows "Q (fst (run noisy m (d, fs, rs))) (fst (snd (run noisy m (d, fs, rs))))"
  using assms
proof (induction m arbitrary: d fs rs)
  case (Call c k)
  let ?d = "case fs of [] \<Rightarrow> d | f # _ \<Rightarrow> f d"
  obtain r d'' rs' where s: "scripted c (?d, rs) = (r, (d'', rs'))" by (cases "scripted c (?d, rs)") auto
  have R: "R d ?d" using Call.prems(2,3) by (cases fs) auto
  have "amid E R (k r) d'' Q"
  proof (cases "\<exists>e. c = Env e")
    case True
    then obtain e where e: "c = Env e" by blast
    have "env_reply e r" "d'' = ?d"
      using scripted.env_replies [of e "(?d, rs)" r "(d'', rs')"] scripted.env_frame [of c "(?d, rs)" r "(d'', rs')"] s e by auto
    with Call.prems(4) scripted_replies [OF s] e have "E e r" by blast
    with Call.prems(1) R e \<open>d'' = ?d\<close> show ?thesis by simp
  next
    case False
    then have "is_redis c" by (cases c) auto
    from scripted.exact [OF this s] have "r = fst (redis_exec c ?d)" "d'' = snd (redis_exec c ?d)" by (auto simp: prod_eq_iff)
    with Call.prems(1) R False show ?thesis by (cases c) auto
  qed
  moreover have "\<forall>e r. env_reply e r \<longrightarrow> r \<in> set rs' \<or> r = default_reply e \<longrightarrow> E e r"
    using Call.prems(4) scripted_replies [OF s] by blast
  moreover have "\<forall>f \<in> set (tl fs). \<forall>d. R d (f d)" using Call.prems(2) by (cases fs) auto
  ultimately show ?case
    using Call.IH [OF rangeI, of r d'' "tl fs" rs'] Call.prems(3) by (simp add: noisy_def s Let_def)
qed simp

lemma amid_mono: "amid E R m d P \<Longrightarrow> (\<And>a d. P a d \<Longrightarrow> Q a d) \<Longrightarrow> amid E R m d Q"
  by (induction m arbitrary: d) (auto split: cmd.splits)

lemma amid_bind [simp]: "amid E R (bind m f) d Q = amid E R m d (\<lambda>a d. amid E R (f a) d Q)"
  by (induction m arbitrary: d) (auto split: cmd.splits)

lemma amid_pure [simp]: "amid E R (return a) d Q = Q (Inr a) d" "amid E R (raise e) d Q = Q (Inl e) d"
  by (simp_all add: return_def raise_def)

lemma amid_andThen [simp]:
  "amid E R (andThen m f) d Q = amid E R m d (\<lambda>x d. case x of Inl e \<Rightarrow> Q (Inl e) d | Inr a \<Rightarrow> amid E R (f a) d Q)"
  by (auto simp: andThen_def intro!: arg_cong [where f = "amid E R m d"] split: sum.splits)

lemma amid_catch [simp]:
  "amid E R (catch m h) d Q = amid E R m d (\<lambda>x d. case x of Inl e \<Rightarrow> amid E R (h e) d Q | Inr a \<Rightarrow> Q (Inr a) d)"
  by (auto simp: catch_def intro!: arg_cong [where f = "amid E R m d"] split: sum.splits)

lemma amid_finally [simp]:
  "amid E R (finally_do m f) d Q =
     amid E R m d (\<lambda>x d. amid E R f d (\<lambda>y d. case y of Inl e \<Rightarrow> Q (Inl e) d | Inr _ \<Rightarrow> Q x d))"
  by (auto simp: finally_do_def intro!: arg_cong [where f = "amid E R m d"] arg_cong [where f = "amid E R f _"] split: sum.splits)

lemma amid_calls [simp]:
  "amid E R (redis c) d Q = (\<forall>d'. R d d' \<longrightarrow> Q (checked (fst (redis_call c d'))) (snd (redis_call c d')))"
  "amid E R (read_env e) d Q' = (\<forall>d'. R d d' \<longrightarrow> (\<forall>r. E e r \<longrightarrow> Q' (Inr (reply_int r)) d'))"
  "amid E R (metric m) d Q'' = (\<forall>d'. R d d' \<longrightarrow> (\<forall>r. E (Metric m) r \<longrightarrow> Q'' (Inr ()) d'))"
  by (auto simp: redis_def read_env_def metric_def)

subsection \<open>The end of a job, as others see it\<close>

text \<open>
  \<open>under_way\<close>: the job is in no terminal state, and nothing has been published of it. \<open>over\<close>: it has ended with this
  status, and with this response when it completed; what was published of it says the same.
\<close>

definition under_way :: "string \<Rightarrow> db \<Rightarrow> bool" where
  "under_way j d \<longleftrightarrow> (case map_field d j ''status'' of None \<Rightarrow> True | Some v \<Rightarrow> \<not> is_terminal (rval_text v)) \<and>
     (\<forall>(ch, m) \<in> set (pubs d). ch \<noteq> job_done_channel j)"

definition over :: "string \<Rightarrow> job_status \<Rightarrow> json \<Rightarrow> db \<Rightarrow> bool" where
  "over j st response d \<longleftrightarrow> is_terminal (status_value st) \<and> map_field d j ''status'' = Some (Str (status_value st)) \<and>
     (st = COMPLETED \<longrightarrow> map_field d j ''response_blob'' = Some (GzipJson response)) \<and>
     (\<forall>(ch, m) \<in> set (pubs d). ch = job_done_channel j \<longrightarrow> m = status_value st)"

text \<open>What others may do meanwhile: anything that ends the job at most once, with that status and response.\<close>

definition ends_once :: "string \<Rightarrow> job_status \<Rightarrow> json \<Rightarrow> db \<Rightarrow> db \<Rightarrow> bool" where
  "ends_once j st response d d' \<longleftrightarrow>
     (under_way j d \<longrightarrow> under_way j d' \<or> over j st response d') \<and> (over j st response d \<longrightarrow> over j st response d')"

lemma ends_once_refl: "ends_once j st response d d"
  by (simp add: ends_once_def)

text \<open>The steps of the worker that runs the job are such changes.\<close>

lemma worker_ends_once:
  "ends_once j COMPLETED response d (claimed (slots_in_use_key m) n j ts d) \<or> over j COMPLETED response d"
  "ends_once j COMPLETED response d (leased w j ttl t d)"
  "ends_once j COMPLETED response d (terminal_write j (completed_fields ts response) (status_value COMPLETED) d)"
  "ends_once j COMPLETED response d (released m j n d)"
  by (auto simp: ends_once_def under_way_def over_def map_field_def claimed_def completed_fields_def is_terminal_def
      terminal_statuses_def)

lemma index_from_in: "index_from ch n ps = Some (i, m) \<Longrightarrow> (ch, m) \<in> set ps"
  by (induction ch n ps rule: index_from.induct) (auto split: if_splits)

subsection \<open>The wait\<close>

definition known_end :: "string \<Rightarrow> job_status \<Rightarrow> json \<Rightarrow> db \<Rightarrow> bool" where
  "known_end j st response d \<longleftrightarrow> under_way j d \<or> over j st response d"

lemma known_end_step: "ends_once j st response d d' \<Longrightarrow> known_end j st response d \<Longrightarrow> known_end j st response d'"
  by (auto simp: known_end_def ends_once_def)

text \<open>What the wait reports is the end of the job, or that the time is over, or that it goes on.\<close>

definition reported :: "string \<Rightarrow> job_status \<Rightarrow> json \<Rightarrow> exn + string option option \<Rightarrow> db \<Rightarrow> bool" where
  "reported j st response x d \<longleftrightarrow> known_end j st response d \<and>
     (x = Inr None \<or> x = Inr (Some None) \<or> (x = Inr (Some (Some (status_value st))) \<and> over j st response d))"

lemma message_read:
  assumes "known_end j st response d" and "index_from (job_done_channel j) n (drop n (pubs d)) = Some (i, m)"
  shows "m = status_value st \<and> over j st response d"
  using assms(1) index_from_in [OF assms(2)] by (auto simp: known_end_def under_way_def over_def dest: in_set_dropD)

lemma status_read:
  assumes "known_end j st response d" and "t = text_or_empty (fst (redis_call (HGET (job_key j) ''status'') d))" and "is_terminal t"
    and "t \<noteq> []"
  shows "t = status_value st \<and> over j st response d"
  using assms
  by (auto simp: text_or_empty_def known_end_def under_way_def over_def map_field_def simp del: status_value.simps
      split: option.splits)

lemma amid_wait_loop:
  "known_end j st response d \<Longrightarrow>
    amid E (ends_once j st response) (wait_loop j deadline pos n) d (reported j st response)"
proof (induction n arbitrary: d)
  case (Suc n)
  let ?R = "ends_once j st response" and ?Q = "reported j st response"
  have status: "amid E ?R (andThen (redis (HGET (job_key j) ''status'')) (\<lambda>status_raw.
      let status_str = text_or_empty status_raw in
      if status_str \<noteq> [] \<and> is_terminal status_str then return (Some (Some status_str))
      else wait_loop j deadline pos n)) d ?Q" if d: "known_end j st response d" for d
    unfolding amid_andThen amid_calls
  proof (intro allI impI)
    fix d' assume "?R d d'"
    then have k: "known_end j st response d'" using known_end_step d by blast
    let ?r = "fst (redis_call (HGET (job_key j) ''status'') d')"
    have "checked ?r = Inr ?r" "snd (redis_call (HGET (job_key j) ''status'') d') = d'"
      by (simp_all add: checked_def split: option.split)
    then show "case checked ?r of Inl e \<Rightarrow> ?Q (Inl e) (snd (redis_call (HGET (job_key j) ''status'') d'))
      | Inr a \<Rightarrow> amid E ?R (let status_str = text_or_empty a in
          if status_str \<noteq> [] \<and> is_terminal status_str then return (Some (Some status_str)) else wait_loop j deadline pos n)
          (snd (redis_call (HGET (job_key j) ''status'') d')) ?Q"
      using Suc.IH [OF k] status_read [OF k refl] k
      by (simp add: Let_def reported_def [of _ _ _ "Inr _"] del: redis_call.simps)
  qed
  have message: "amid E ?R (andThen (redis (GETMESSAGE (job_done_channel j) pos)) (\<lambda>message. case message of
      RMessage i data \<Rightarrow> return (Some (Some data))
    | _ \<Rightarrow> andThen (redis (HGET (job_key j) ''status'')) (\<lambda>status_raw.
        let status_str = text_or_empty status_raw in
        if status_str \<noteq> [] \<and> is_terminal status_str then return (Some (Some status_str))
        else wait_loop j deadline pos n))) d ?Q" if d: "known_end j st response d" for d
    unfolding amid_andThen [of _ _ "redis (GETMESSAGE _ _)"] amid_calls
  proof (intro allI impI)
    fix d' assume "?R d d'"
    then have k: "known_end j st response d'" using known_end_step d by blast
    show "case checked (fst (redis_call (GETMESSAGE (job_done_channel j) pos) d')) of
        Inl e \<Rightarrow> ?Q (Inl e) (snd (redis_call (GETMESSAGE (job_done_channel j) pos) d'))
      | Inr a \<Rightarrow> amid E ?R (case a of RMessage i data \<Rightarrow> return (Some (Some data))
          | _ \<Rightarrow> andThen (redis (HGET (job_key j) ''status'')) (\<lambda>status_raw.
              let status_str = text_or_empty status_raw in
              if status_str \<noteq> [] \<and> is_terminal status_str then return (Some (Some status_str))
              else wait_loop j deadline pos n)) (snd (redis_call (GETMESSAGE (job_done_channel j) pos) d')) ?Q"
    proof (cases "index_from (job_done_channel j) pos (drop pos (pubs d'))")
      case None
      with status [OF k] show ?thesis by (simp add: checked_def del: amid_andThen)
    next
      case (Some im)
      with message_read [OF k, of pos "fst im" "snd im"] k show ?thesis
        by (cases im) (simp add: checked_def reported_def)
    qed
  qed
  show ?case
    using message known_end_step [OF _ Suc.prems]
    unfolding wait_loop.simps amid_andThen [of _ _ "read_env _"] amid_calls by (simp add: reported_def del: amid_andThen)
qed (simp add: reported_def)

lemma amid_wait:
  assumes "known_end j st response d"
  shows "amid E (ends_once j st response) (wait_for_completion j timeout_s fuel) d (reported j st response)"
proof -
  let ?R = "ends_once j st response" and ?Q = "reported j st response"
  have sub: "known_end j st response (d\<lparr>subs := x\<rparr>) = known_end j st response d"
    "reported j st response v (d\<lparr>subs := x\<rparr>) = reported j st response v d" for d x v
    by (simp_all add: known_end_def under_way_def over_def map_field_def reported_def)
  have kept: "reported j st response v d \<Longrightarrow> ?R d d' \<Longrightarrow> reported j st response v d'" for v d d'
    using known_end_step [of j st response d d'] by (auto simp: reported_def ends_once_def)
  have leave: "amid E ?R (catch (andThen (redis (UNSUBSCRIBE (job_done_channel j))) (\<lambda>_. return ()))
      (\<lambda>e. if is_exception e then return () else raise e)) d
      (\<lambda>y d. case y of Inl e \<Rightarrow> ?Q (Inl e) d | Inr _ \<Rightarrow> ?Q v d)" if "?Q v d" for v d
    using kept [OF that] by (simp add: checked_def sub)
  have main: "amid E ?R (andThen (read_env Monotonic) (\<lambda>t. wait_loop j (t + timeout_s * 1000000) n fuel)) d ?Q"
    if "known_end j st response d" for n d
    using amid_wait_loop known_end_step [OF _ that] by simp
  show ?thesis
    unfolding wait_for_completion_def amid_andThen [of _ _ "redis (SUBSCRIBE _)"] amid_calls amid_finally
    using amid_mono [OF main leave] known_end_step [OF _ assms] by (simp add: checked_def sub del: amid_andThen amid_catch)
qed

subsection \<open>An end that is not missed\<close>

text \<open>
  A subscriber gets only what is published after it has subscribed, so the handler looks at the status as well. A job
  that has ended before is therefore answered in the first round: no later change of others, and no message missed,
  keeps the client waiting, unless the time is up before the second look at the clock.
\<close>

lemma amid_first_round:
  assumes "over j st response d" and "t1 < deadline"
  shows "amid E (ends_once j st response)
    (if deadline - t1 \<le> 0 then return (Some None)
     else andThen (redis (GETMESSAGE (job_done_channel j) pos)) (\<lambda>message. case message of
      RMessage i data \<Rightarrow> return (Some (Some data))
    | _ \<Rightarrow> andThen (redis (HGET (job_key j) ''status'')) (\<lambda>status_raw.
        let status_str = text_or_empty status_raw in
        if status_str \<noteq> [] \<and> is_terminal status_str then return (Some (Some status_str))
        else wait_loop j deadline pos n))) d (\<lambda>x d. x = Inr (Some (Some (status_value st))) \<and> over j st response d)"
proof -
  let ?R = "ends_once j st response" and ?Q = "\<lambda>x d. x = Inr (Some (Some (status_value st))) \<and> over j st response d"
  have later: "over j st response d'" if "?R d d'" "over j st response d" for d d' using that by (simp add: ends_once_def)
  have ne: "status_value st \<noteq> []" by (cases st) simp_all
  have status: "amid E ?R (andThen (redis (HGET (job_key j) ''status'')) (\<lambda>status_raw.
        let status_str = text_or_empty status_raw in
        if status_str \<noteq> [] \<and> is_terminal status_str then return (Some (Some status_str))
        else wait_loop j deadline pos n)) d ?Q" if "over j st response d" for d
    using later [OF _ that] ne
    by (auto simp: checked_def over_def map_field_def text_or_empty_def Let_def simp del: status_value.simps is_terminal_value)
  have "amid E ?R (case r of RMessage i data \<Rightarrow> return (Some (Some data))
    | _ \<Rightarrow> andThen (redis (HGET (job_key j) ''status'')) (\<lambda>status_raw.
        let status_str = text_or_empty status_raw in
        if status_str \<noteq> [] \<and> is_terminal status_str then return (Some (Some status_str))
        else wait_loop j deadline pos n)) d ?Q"
    if o: "over j st response d" and r: "r = fst (redis_call (GETMESSAGE (job_done_channel j) pos) d)" for d r
  proof (cases "index_from (job_done_channel j) pos (drop pos (pubs d))")
    case None
    with status [OF o] r show ?thesis by (simp del: amid_andThen)
  next
    case (Some im)
    with message_read [of j st response d pos "fst im" "snd im"] o r show ?thesis by (cases im) (simp add: known_end_def)
  qed
  note first = this
  have ok: "checked (fst (redis_call (GETMESSAGE ch pos) d)) = Inr (fst (redis_call (GETMESSAGE ch pos) d))"
    "snd (redis_call (GETMESSAGE ch pos) d) = d" for ch d
    by (simp_all add: checked_def split: option.split)
  show ?thesis
    unfolding amid_andThen [of _ _ "redis (GETMESSAGE _ _)"] amid_calls
    using assms(2) first [OF later [OF _ assms(1)] refl]
    by (simp add: ok amid_andThen [of _ _ "redis (GETMESSAGE _ _)"] del: amid_andThen redis_call.simps)
qed

text \<open>The clock stays below the time-out while the client waits.\<close>

definition in_time :: "int \<Rightarrow> ecmd \<Rightarrow> reply \<Rightarrow> bool" where
  "in_time timeout_s e r \<longleftrightarrow> env_reply e r \<and> (e = Monotonic \<longrightarrow> reply_int r < timeout_s * 1000000)"

lemma amid_wait_ended:
  assumes "over j st response d"
  shows "amid (in_time t) (ends_once j st response) (wait_for_completion j t (Suc fuel)) d
    (\<lambda>x d. x = Inr (Some (Some (status_value st))) \<and> over j st response d)"
proof -
  let ?E = "in_time t" and ?R = "ends_once j st response"
  let ?Q = "\<lambda>x d. x = Inr (Some (Some (status_value st))) \<and> over j st response d"
  have sub: "over j st response (d\<lparr>subs := x\<rparr>) = over j st response d" for d x
    by (simp add: over_def map_field_def)
  have later: "over j st response d'" if "?R d d'" "over j st response d" for d d' using that by (simp add: ends_once_def)
  have leave: "amid ?E ?R (catch (andThen (redis (UNSUBSCRIBE (job_done_channel j))) (\<lambda>_. return ()))
      (\<lambda>e. if is_exception e then return () else raise e)) d
      (\<lambda>y d. case y of Inl e \<Rightarrow> ?Q (Inl e) d | Inr _ \<Rightarrow> ?Q v d)" if "?Q v d" for v d
    using later [OF _ conjunct2 [OF that]] that by (simp add: checked_def sub)
  have clock: "reply_int u < reply_int r + t * 1000000" if "?E Monotonic r" "?E Monotonic u" for r u
    using that by (auto simp: in_time_def env_reply_def split: reply.splits)
  have main: "amid ?E ?R (andThen (read_env Monotonic) (\<lambda>c. wait_loop j (c + t * 1000000) n (Suc fuel))) d ?Q"
    if o: "over j st response d" for n d
  proof -
    have "amid ?E ?R (wait_loop j (reply_int r + t * 1000000) n (Suc fuel)) d' ?Q" if r: "?E Monotonic r" and d': "over j st response d'"
      for r d'
      unfolding wait_loop.simps amid_andThen [of _ _ "read_env _"] amid_calls
      using amid_first_round [OF later [OF _ d'] clock [OF r]] by (simp del: amid_andThen)
    with later [OF _ o] show ?thesis
      unfolding amid_andThen [of _ _ "read_env _"] amid_calls by (simp del: amid_andThen wait_loop.simps)
  qed
  have whole: "amid ?E ?R (andThen (read_env Monotonic) (\<lambda>c. wait_loop j (c + t * 1000000) n (Suc fuel))) d (\<lambda>x d.
      amid ?E ?R (catch (andThen (redis (UNSUBSCRIBE (job_done_channel j))) (\<lambda>_. return ()))
        (\<lambda>e. if is_exception e then return () else raise e)) d
        (\<lambda>y d. case y of Inl e \<Rightarrow> ?Q (Inl e) d | Inr _ \<Rightarrow> ?Q x d))" if "over j st response d" for n d
    by (rule amid_mono [OF main [OF that]]) (rule leave)
  show ?thesis
    unfolding wait_for_completion_def amid_andThen [of _ _ "redis (SUBSCRIBE _)"] amid_calls amid_finally
    using whole later [OF _ assms]
    by (simp add: checked_def sub del: amid_andThen amid_catch wait_loop.simps)
qed

subsection \<open>The answer\<close>

definition own_answer :: "string \<Rightarrow> job_status \<Rightarrow> json \<Rightarrow> http_reply" where
  "own_answer j st response =
     (if st = COMPLETED \<and> truthy response
      then \<lparr>hr_status = 200, hr_headers = [(''X-Job-Id'', j)], hr_content = response\<rparr>
      else \<lparr>hr_status = status_to_http (status_value st), hr_headers = [(''X-Job-Id'', j)], hr_content = JObj
        [(''error'', JStr ''failed''), (''job_id'', JStr j), (''status'', JStr (status_value st))]\<rparr>)"

definition says_timeout :: "string \<Rightarrow> http_reply \<Rightarrow> bool" where
  "says_timeout j rep \<longleftrightarrow> hr_status rep = 504 \<and> hr_headers rep = [(''X-Job-Id'', j)] \<and>
     (\<exists>m. hr_content rep = JObj [(''error'', JStr ''sync_timeout''), (''job_id'', JStr j), (''message'', JStr m)])"

definition waits_and_answers :: "string \<Rightarrow> string \<Rightarrow> int \<Rightarrow> nat \<Rightarrow> http_reply option io" where
  "waits_and_answers model j sync_timeout fuel =
     andThen (wait_for_completion j sync_timeout fuel) (\<lambda>result.
     case result of
       None \<Rightarrow> return None
     | Some res \<Rightarrow> andThen (wait_result model j sync_timeout res) (\<lambda>rep. return (Some rep)))"

text \<open>This is how a synchronous request whose job is queued goes on.\<close>

lemma chat_completions_waits:
  assumes "\<not> cq_async rq" and "lower (nonempty_or [] (cq_submit_async rq)) \<noteq> ''true''"
  shows "\<exists>prio rejected hit. chat_completions cx rq fuel = andThen (lift prio) (\<lambda>prio.
    andThen (admit cx (cq_model rq) (cq_dump rq) prio (nonempty_or ''unknown'' (cq_caller rq)) (cq_metadata rq)
      (cq_idempotency_key rq)) (\<lambda>(outcome, job_req).
    case ao_result outcome of
      AR_REJECTED \<Rightarrow> return (Some (rejected outcome))
    | AR_IDEMPOTENT_HIT \<Rightarrow> return (Some (hit outcome))
    | _ \<Rightarrow> andThen (if job_req \<noteq> None then store_payload (ao_job_id outcome) (cq_dump rq) else return ()) (\<lambda>_.
        andThen (lift (model_config_for (config cx) (cq_model rq))) (\<lambda>mc.
        waits_and_answers (cq_model rq) (ao_job_id outcome) (sync_timeout_seconds mc) fuel))))"
  unfolding chat_completions_def Let_def waits_and_answers_def 
  by (simp only: assms simp_thms if_False, (rule exI)+, rule refl)

lemma status_value_COMPLETED: "status_value st = status_value COMPLETED \<longleftrightarrow> st = COMPLETED"
  by (cases st) simp_all

lemma amid_result:
  assumes "reported j st response (Inr (Some res)) d"
  shows "amid E (ends_once j st response) (wait_result model j t res) d
    (\<lambda>x d. \<exists>rep. x = Inr rep \<and> (res = None \<and> says_timeout j rep \<or> rep = own_answer j st response \<and> over j st response d))"
proof (cases res)
  case None
  then show ?thesis by (simp add: wait_result_def record_timeout_def says_timeout_def)
next
  case (Some status)
  then have status: "status = status_value st" and o: "over j st response d" using assms by (auto simp: reported_def)
  have later: "over j st response d'" if "ends_once j st response d d'" for d' using that o by (simp add: ends_once_def)
  show ?thesis
  proof (cases "st = COMPLETED")
    case True
    then show ?thesis
      using later o
      by (simp add: Some status wait_result_def Let_def load_blob_def own_answer_def checked_def)
        (auto simp: over_def map_field_def)
  next
    case False
    with o show ?thesis
      by (simp add: Some status wait_result_def Let_def own_answer_def status_value_COMPLETED del: status_value.simps)
  qed
qed

lemma amid_answer:
  assumes "known_end j st response d"
  shows "amid E (ends_once j st response) (waits_and_answers model j t fuel) d (\<lambda>x d. x = Inr None \<or>
    (\<exists>rep. x = Inr (Some rep) \<and> (says_timeout j rep \<or> rep = own_answer j st response \<and> over j st response d)))"
    (is "amid E ?R _ d ?P")
proof -
  have "amid E ?R (case result of None \<Rightarrow> return None
      | Some res \<Rightarrow> andThen (wait_result model j t res) (\<lambda>rep. return (Some rep))) d ?P"
    if "reported j st response (Inr result) d" for result d
  proof (cases result)
    case (Some res)
    have "amid E ?R (wait_result model j t res) d (\<lambda>x d. case x of Inl e \<Rightarrow> ?P (Inl e) d
        | Inr rep \<Rightarrow> amid E ?R (return (Some rep)) d ?P)"
      by (rule amid_mono [OF amid_result [OF that [unfolded Some]]]) auto
    then show ?thesis by (simp add: Some)
  qed simp
  then show ?thesis
    unfolding waits_and_answers_def amid_andThen
    by (intro amid_mono [OF amid_wait [OF assms]]) (auto simp: reported_def split: sum.splits)
qed

lemma amid_answer_ended:
  assumes "over j st response d"
  shows "amid (in_time t) (ends_once j st response) (waits_and_answers model j t (Suc fuel)) d
    (\<lambda>x d. x = Inr (Some (own_answer j st response)))" (is "amid ?E ?R _ d ?Q")
proof -
  have "amid ?E ?R (wait_result model j t (Some (status_value st))) d (\<lambda>x d. case x of Inl e \<Rightarrow> ?Q (Inl e) d
      | Inr rep \<Rightarrow> amid ?E ?R (return (Some rep)) d ?Q)" if "over j st response d" for d
    by (rule amid_mono [OF amid_result [of j st response]]) (use that in \<open>auto simp: reported_def known_end_def\<close>)
  then show ?thesis
    unfolding waits_and_answers_def amid_andThen
    by (intro amid_mono [OF amid_wait_ended [OF assms]]) auto
qed

lemma in_time_replies:
  assumes "0 < t" and "\<forall>n. RInt n \<in> set rs \<longrightarrow> n < t * 1000000"
  shows "\<forall>e r. env_reply e r \<longrightarrow> r \<in> set rs \<or> r = default_reply e \<longrightarrow> in_time t e r"
  using assms by (auto simp: in_time_def env_reply_def split: reply.splits)


text \<open>The worker writes the end of the job between the handler's first look at the channel and its look at the status.\<close>

definition demo_noise :: "(db \<Rightarrow> db) list" where
  "demo_noise = [\<lambda>d. d, \<lambda>d. d, \<lambda>d. d, \<lambda>d. d,
     terminal_write ''j'' (completed_fields ''2026-05-26T09:12:03+00:00'' (JNum 7)) (status_value COMPLETED)]"

lemma demo_wait_ends:
  "fst (run noisy (waits_and_answers ''code'' ''j'' 300 2) (demo_claimed ''3'', demo_noise, [])) =
     Inr (Some (own_answer ''j'' COMPLETED (JNum 7)))"
  by code_simp


end
