(* ===== verification/Schemas.thy ===== *)
theory Schemas
  imports Journey
begin

text \<open>
  The request models of \<open>app/api/schemas.py\<close>, and the endpoints from the parsed JSON of a body on. Pydantic
  is outside the model: its lax conversions of a JSON value to a number or a truth value are parameters. What is
  modelled is what the classes declare (the fields with their types, defaults and order, and whether
  unknown fields are kept) and \<open>model_dump(exclude_none=True)\<close>, which leaves out the fields that are None. A
  body that does not fit is answered by FastAPI with 422.
\<close>

record conversions =
  to_int :: "json \<Rightarrow> int option"
  to_float :: "json \<Rightarrow> json option"
  to_bool :: "json \<Rightarrow> bool option"

fun to_str :: "json \<Rightarrow> string option" where
  "to_str (JStr s) = Some s"
| "to_str _ = None"

fun to_dict :: "json \<Rightarrow> json option" where
  "to_dict (JObj kvs) = Some (JObj kvs)"
| "to_dict _ = None"

text \<open>A required field; and a field \<open>T | None = None\<close>: Some None when it is absent or null.\<close>

definition required :: "(json \<Rightarrow> 'a option) \<Rightarrow> string \<Rightarrow> (string \<times> json) list \<Rightarrow> 'a option" where
  "required conv f kvs = Option.bind (map_of kvs f) conv"

definition optional :: "(json \<Rightarrow> 'a option) \<Rightarrow> string \<Rightarrow> (string \<times> json) list \<Rightarrow> 'a option option" where
  "optional conv f kvs =
     (case map_of kvs f of
        None \<Rightarrow> Some None
      | Some JNull \<Rightarrow> Some None
      | Some v \<Rightarrow> map_option Some (conv v))"

subsection \<open>Messages\<close>

text \<open>\<open>ChatMessage\<close> keeps its two fields; the configuration of the class does not allow others.\<close>

record chat_message =
  cm_role :: string
  cm_content :: json

fun to_content :: "json \<Rightarrow> json option" where
  "to_content (JStr s) = Some (JStr s)"
| "to_content (JList l) = Some (JList l)"
| "to_content _ = None"

fun to_message :: "json \<Rightarrow> chat_message option" where
  "to_message (JObj kvs) =
     Option.bind (required to_str ''role'' kvs) (\<lambda>r.
     Option.bind (required to_content ''content'' kvs) (\<lambda>c. Some \<lparr>cm_role = r, cm_content = c\<rparr>))"
| "to_message _ = None"

definition dump_message :: "chat_message \<Rightarrow> json" where
  "dump_message m = JObj [(''role'', JStr (cm_role m)), (''content'', cm_content m)]"

fun to_messages :: "json \<Rightarrow> chat_message list option" where
  "to_messages (JList l) = those (map to_message l)"
| "to_messages _ = None"

subsection \<open>The two request bodies\<close>

text \<open>\<open>extra = "allow"\<close>: fields that are not declared are kept as they are.\<close>

record chat_body =
  cb_model :: string
  cb_messages :: "chat_message list"
  cb_temperature :: "json option"
  cb_max_tokens :: "int option"
  cb_stream :: bool
  cb_metadata :: "json option"
  cb_extra :: "(string \<times> json) list"

record submit_body =
  sb_model :: string
  sb_messages :: "chat_message list"
  sb_temperature :: "json option"
  sb_max_tokens :: "int option"
  sb_metadata :: "json option"
  sb_priority :: "int option"
  sb_extra :: "(string \<times> json) list"

definition chat_fields :: "string list" where
  "chat_fields = [''model'', ''messages'', ''temperature'', ''max_tokens'', ''stream'', ''metadata'']"

definition submit_fields :: "string list" where
  "submit_fields = [''model'', ''messages'', ''temperature'', ''max_tokens'', ''metadata'', ''priority'']"

definition extra_fields :: "string list \<Rightarrow> (string \<times> json) list \<Rightarrow> (string \<times> json) list" where
  "extra_fields names kvs = filter (\<lambda>(f, _). f \<notin> set names) kvs"

text \<open>\<open>stream: bool = False\<close>: a null is not a truth value.\<close>

definition stream_field :: "conversions \<Rightarrow> (string \<times> json) list \<Rightarrow> bool option" where
  "stream_field vx kvs = (case map_of kvs ''stream'' of None \<Rightarrow> Some False | Some v \<Rightarrow> to_bool vx v)"

fun parse_chat :: "conversions \<Rightarrow> json \<Rightarrow> chat_body option" where
  "parse_chat vx (JObj kvs) =
     Option.bind (required to_str ''model'' kvs) (\<lambda>m.
     Option.bind (required to_messages ''messages'' kvs) (\<lambda>ms.
     Option.bind (optional (to_float vx) ''temperature'' kvs) (\<lambda>t.
     Option.bind (optional (to_int vx) ''max_tokens'' kvs) (\<lambda>mt.
     Option.bind (stream_field vx kvs) (\<lambda>s.
     Option.bind (optional to_dict ''metadata'' kvs) (\<lambda>md.
     Some \<lparr>cb_model = m, cb_messages = ms, cb_temperature = t, cb_max_tokens = mt, cb_stream = s,
           cb_metadata = md, cb_extra = extra_fields chat_fields kvs\<rparr>))))))"
| "parse_chat vx _ = None"

fun parse_submit :: "conversions \<Rightarrow> json \<Rightarrow> submit_body option" where
  "parse_submit vx (JObj kvs) =
     Option.bind (required to_str ''model'' kvs) (\<lambda>m.
     Option.bind (required to_messages ''messages'' kvs) (\<lambda>ms.
     Option.bind (optional (to_float vx) ''temperature'' kvs) (\<lambda>t.
     Option.bind (optional (to_int vx) ''max_tokens'' kvs) (\<lambda>mt.
     Option.bind (optional to_dict ''metadata'' kvs) (\<lambda>md.
     Option.bind (optional (to_int vx) ''priority'' kvs) (\<lambda>p.
     Some \<lparr>sb_model = m, sb_messages = ms, sb_temperature = t, sb_max_tokens = mt, sb_metadata = md,
           sb_priority = p, sb_extra = extra_fields submit_fields kvs\<rparr>))))))"
| "parse_submit vx _ = None"

text \<open>\<open>model_dump(exclude_none=True)\<close>: the declared fields in their order, then the others.\<close>

definition present :: "string \<Rightarrow> json option \<Rightarrow> (string \<times> json) list" where
  "present f v = (case v of None \<Rightarrow> [] | Some j \<Rightarrow> [(f, j)])"

definition dump_extra :: "(string \<times> json) list \<Rightarrow> (string \<times> json) list" where
  "dump_extra kvs = filter (\<lambda>(_, v). v \<noteq> JNull) kvs"

definition dump_chat :: "chat_body \<Rightarrow> json" where
  "dump_chat b = JObj ([(''model'', JStr (cb_model b)), (''messages'', JList (map dump_message (cb_messages b)))]
     @ present ''temperature'' (cb_temperature b) @ present ''max_tokens'' (map_option JNum (cb_max_tokens b))
     @ [(''stream'', JBool (cb_stream b))] @ present ''metadata'' (cb_metadata b) @ dump_extra (cb_extra b))"

definition dump_submit :: "submit_body \<Rightarrow> json" where
  "dump_submit b = JObj ([(''model'', JStr (sb_model b)), (''messages'', JList (map dump_message (sb_messages b)))]
     @ present ''temperature'' (sb_temperature b) @ present ''max_tokens'' (map_option JNum (sb_max_tokens b))
     @ present ''metadata'' (sb_metadata b) @ present ''priority'' (map_option JNum (sb_priority b))
     @ dump_extra (sb_extra b))"

subsection \<open>The endpoints from the body on\<close>

record request_headers =
  rh_submit_async :: "string option"
  rh_caller :: "string option"
  rh_idempotency_key :: "string option"

definition chat_request_of :: "chat_body \<Rightarrow> request_headers \<Rightarrow> bool \<Rightarrow> chat_request" where
  "chat_request_of b h async_mode = \<lparr>cq_model = cb_model b,
     cq_metadata = (case cb_metadata b of None \<Rightarrow> JNull | Some m \<Rightarrow> m), cq_dump = dump_chat b,
     cq_submit_async = rh_submit_async h, cq_caller = rh_caller h,
     cq_idempotency_key = rh_idempotency_key h, cq_async = async_mode\<rparr>"

definition submit_request_of :: "submit_body \<Rightarrow> request_headers \<Rightarrow> submit_request" where
  "submit_request_of b h = \<lparr>sq_model = sb_model b, sq_priority = sb_priority b,
     sq_metadata = (case sb_metadata b of None \<Rightarrow> JNull | Some m \<Rightarrow> m), sq_dump = dump_submit b,
     sq_caller = rh_caller h, sq_idempotency_key = rh_idempotency_key h\<rparr>"

definition unprocessable :: exn where
  "unprocessable = HTTPException 422 (JStr ''Unprocessable Entity'')"

definition post_chat :: "ctx \<Rightarrow> conversions \<Rightarrow> json \<Rightarrow> request_headers \<Rightarrow> bool \<Rightarrow> nat \<Rightarrow> http_reply option io" where
  "post_chat cx vx body h async_mode fuel =
     (case parse_chat vx body of
        None \<Rightarrow> raise unprocessable
      | Some b \<Rightarrow> chat_completions cx (chat_request_of b h async_mode) fuel)"

definition post_job :: "ctx \<Rightarrow> conversions \<Rightarrow> json \<Rightarrow> request_headers \<Rightarrow> submit_response io" where
  "post_job cx vx body h =
     (case parse_submit vx body of
        None \<Rightarrow> raise unprocessable
      | Some b \<Rightarrow> submit_job cx (submit_request_of b h))"

subsection \<open>What is kept of a request\<close>

lemma map_of_filter_key: "map_of (filter (\<lambda>(f, _). P f) kvs) f = (if P f then map_of kvs f else None)"
  by (induction kvs) auto

lemma map_of_dump_extra:
  "distinct (map fst kvs) \<Longrightarrow> map_of (dump_extra kvs) f = (case map_of kvs f of Some JNull \<Rightarrow> None | v \<Rightarrow> v)"
proof (induction kvs)
  case Nil
  then show ?case by (simp add: dump_extra_def)
next
  case (Cons kv kvs)
  obtain k v where kv: "kv = (k, v)" by (cases kv)
  have "k = f \<Longrightarrow> map_of kvs f = None"
    using Cons.prems kv by (auto simp: map_of_eq_None_iff)
  with Cons show ?case
    by (cases v) (auto simp: kv dump_extra_def split: option.splits json.splits)
qed

lemma present_simps [simp]:
  "map_of (present f v) g = (if g = f then v else None)"
  "fst ` set (present f v) = (if v = None then {} else {f})"
  by (auto simp: present_def split: option.splits)

lemma bind_Some_iff: "Option.bind m f = Some b \<longleftrightarrow> (\<exists>a. m = Some a \<and> f a = Some b)"
  by (cases m) auto

lemmas field_defs = required_def optional_def bind_Some_iff

text \<open>
  What is kept of the body of POST /jobs: the model, and every field that is not declared and not null.
\<close>

lemma submit_keeps:
  assumes "parse_submit vx (JObj kvs) = Some b" and "distinct (map fst kvs)"
    and "f \<notin> set submit_fields" and "map_of kvs f = Some v" and "v \<noteq> JNull"
  shows "\<exists>out. dump_submit b = JObj out \<and> map_of out f = Some v \<and> map_of out ''model'' = map_of kvs ''model''"
proof -
  have ex: "sb_extra b = extra_fields submit_fields kvs" and m: "map_of kvs ''model'' = Some (JStr (sb_model b))"
    using assms(1) by (auto simp: field_defs elim!: to_str.elims)
  have "distinct (map fst (sb_extra b))"
    using assms(2) by (simp add: ex extra_fields_def distinct_map_filter)
  moreover have "map_of (sb_extra b) f = Some v"
    using assms(3,4) by (simp add: ex extra_fields_def map_of_filter_key)
  ultimately have "map_of (dump_extra (sb_extra b)) f = Some v"
    using assms(5) by (simp add: map_of_dump_extra split: json.splits)
  with assms(3) m show ?thesis
    by (simp add: dump_submit_def submit_fields_def map_add_def)
qed

text \<open>Of a message only the role and the content are kept.\<close>

fun kept_message :: "json \<Rightarrow> json" where
  "kept_message (JObj kvs) = JObj (List.map_filter (\<lambda>f. map_option (Pair f) (map_of kvs f)) [''role'', ''content''])"
| "kept_message j = j"

lemma to_message_dump: "to_message j = Some m \<Longrightarrow> dump_message m = kept_message j"
  by (cases j) (auto simp: field_defs dump_message_def map_filter_simps elim!: to_str.elims to_content.elims)

lemma to_messages_dump:
  "to_messages j = Some ms \<Longrightarrow> \<exists>l. j = JList l \<and> map dump_message ms = map kept_message l"
proof (induction j arbitrary: ms rule: to_messages.induct)
  case (1 l)
  then have "those (map to_message l) = Some ms" by simp
  then have "map dump_message ms = map kept_message l"
    by (induction l arbitrary: ms) (auto split: option.splits dest: to_message_dump)
  then show ?case by simp
qed simp_all


text \<open>Conversions that take only what is a number or a truth value already.\<close>

definition strict :: conversions where
  "strict = \<lparr>to_int = (\<lambda>j. case j of JNum n \<Rightarrow> Some n | _ \<Rightarrow> None),
     to_float = (\<lambda>j. case j of JNum n \<Rightarrow> Some (JNum n) | _ \<Rightarrow> None),
     to_bool = (\<lambda>j. case j of JBool b \<Rightarrow> Some b | _ \<Rightarrow> None)\<rparr>"

definition sample_fields :: "(string \<times> json) list" where
  "sample_fields = [(''model'', JStr ''code''),
     (''messages'', JList [JObj [(''role'', JStr ''user''), (''name'', JStr ''ann''), (''content'', JStr ''hi'')]]),
     (''top_p'', JNum 1), (''priority'', JNum 2)]"

definition sample_body :: submit_body where
  "sample_body = \<lparr>sb_model = ''code'', sb_messages = [\<lparr>cm_role = ''user'', cm_content = JStr ''hi''\<rparr>],
     sb_temperature = None, sb_max_tokens = None, sb_metadata = None, sb_priority = Some 2,
     sb_extra = [(''top_p'', JNum 1)]\<rparr>"

lemma parse_sample: "parse_submit strict (JObj sample_fields) = Some sample_body"
  by code_simp


subsection \<open>Reading a dump back\<close>

lemma optional_of_dump:
  assumes "map_of out f = map_option g v" and "\<And>x. v = Some x \<Longrightarrow> g x \<noteq> JNull \<and> conv (g x) = Some x"
  shows "optional conv f out = Some v"
  using assms by (cases v) (auto simp: optional_def split: json.splits)

lemma optional_result:
  "optional conv f kvs = Some (Some x) \<Longrightarrow> \<exists>j. conv j = Some x"
  by (auto simp: optional_def split: option.splits json.splits)

lemma to_dict_result: "to_dict j = Some d \<Longrightarrow> d \<noteq> JNull \<and> to_dict d = Some d"
  by (cases j) auto

lemma to_content_again: "to_content j = Some c \<Longrightarrow> to_content c = Some c"
  by (cases j) auto

lemma to_message_again: "to_message j = Some m \<Longrightarrow> to_message (dump_message m) = Some m"
  by (cases j) (auto simp: field_defs dump_message_def dest: to_content_again)

lemma those_again:
  "those (map f xs) = Some ys \<Longrightarrow> (\<And>x y. f x = Some y \<Longrightarrow> f (g y) = Some y) \<Longrightarrow> those (map f (map g ys)) = Some ys"
  by (induction xs arbitrary: ys) (auto split: option.splits)

lemma to_messages_again: "to_messages j = Some ms \<Longrightarrow> to_messages (JList (map dump_message ms)) = Some ms"
  by (cases j) (auto intro: those_again [where f = to_message, simplified] to_message_again)

lemma extra_fields_parts:
  "extra_fields fs [] = []"
  "extra_fields fs ((f, v) # kvs) = (if f \<in> set fs then extra_fields fs kvs else (f, v) # extra_fields fs kvs)"
  "extra_fields fs (kvs @ kvs') = extra_fields fs kvs @ extra_fields fs kvs'"
  "extra_fields fs (present f v') = (if f \<in> set fs then [] else present f v')"
  "extra_fields fs (extra_fields fs kvs) = extra_fields fs kvs"
  by (auto simp: extra_fields_def present_def split: option.splits)

lemma dump_submit_lookup:
  assumes "dump_submit b = JObj out" and "dump_extra (sb_extra b) = sb_extra b"
    and "list_all (\<lambda>f. map_of (sb_extra b) f = None) submit_fields"
  shows "map_of out ''model'' = Some (JStr (sb_model b))"
    "map_of out ''messages'' = Some (JList (map dump_message (sb_messages b)))"
    "map_of out ''temperature'' = map_option id (sb_temperature b)"
    "map_of out ''max_tokens'' = map_option JNum (sb_max_tokens b)"
    "map_of out ''metadata'' = map_option id (sb_metadata b)"
    "map_of out ''priority'' = map_option JNum (sb_priority b)"
  using assms by (auto simp: dump_submit_def submit_fields_def map_add_def split: option.splits)

text \<open>
  C40. A body of POST /jobs that has no null among its other fields survives the dump: parsing
  \<open>model_dump(exclude_none=True)\<close> again gives the same request, so the
  stored payload loses none of what the model kept.
\<close>

theorem submit_body_roundtrip:
  assumes "parse_submit vx body = Some b" and "list_all (\<lambda>(_, v). v \<noteq> JNull) (sb_extra b)"
    and "\<And>n. to_int vx (JNum n) = Some n" and "\<And>j t. to_float vx j = Some t \<Longrightarrow> t \<noteq> JNull \<and> to_float vx t = Some t"
  shows "parse_submit vx (dump_submit b) = Some b"
proof -
  obtain kvs where kvs: "body = JObj kvs" using assms(1) by (cases body) auto
  obtain out where out: "dump_submit b = JObj out" by (simp add: dump_submit_def)
  have ms: "to_messages (JList (map dump_message (sb_messages b))) = Some (sb_messages b)"
    using assms(1) by (auto simp: kvs field_defs simp del: to_messages.simps dest: to_messages_again)
  have extra: "dump_extra (sb_extra b) = sb_extra b"
    using assms(2) by (simp add: dump_extra_def list_all_iff filter_id_conv)
  have names: "sb_extra b = extra_fields submit_fields kvs"
    using assms(1) by (auto simp: kvs field_defs)
  have other: "list_all (\<lambda>f. map_of (sb_extra b) f = None) submit_fields"
    by (simp add: names extra_fields_def map_of_filter_key submit_fields_def)
  note outs = dump_submit_lookup [OF out extra other]
  have rest: "extra_fields submit_fields out = sb_extra b"
  proof -
    have "extra_fields submit_fields (sb_extra b) = sb_extra b"
      by (simp add: names extra_fields_parts)
    then show ?thesis
      using out by (auto simp: dump_submit_def extra extra_fields_parts submit_fields_def)
  qed
  have fields: "optional (to_float vx) ''temperature'' kvs = Some (sb_temperature b)"
    "optional to_dict ''metadata'' kvs = Some (sb_metadata b)"
    using assms(1) by (auto simp: kvs bind_Some_iff)
  have float: "sb_temperature b = Some t \<Longrightarrow> t \<noteq> JNull \<and> to_float vx t = Some t" for t
    using optional_result [of "to_float vx"] fields(1) assms(4) by metis
  have dict: "sb_metadata b = Some d \<Longrightarrow> d \<noteq> JNull \<and> to_dict d = Some d" for d
    using optional_result [of to_dict] fields(2) by (metis to_dict_result)
  have "optional (to_float vx) ''temperature'' out = Some (sb_temperature b)"
    "optional (to_int vx) ''max_tokens'' out = Some (sb_max_tokens b)"
    "optional to_dict ''metadata'' out = Some (sb_metadata b)"
    "optional (to_int vx) ''priority'' out = Some (sb_priority b)"
    using float dict assms(3)
    by (auto intro!: optional_of_dump [OF outs(3)] optional_of_dump [OF outs(4)] optional_of_dump [OF outs(5)]
        optional_of_dump [OF outs(6)])
  then show ?thesis
    using ms by (simp add: out required_def outs rest del: to_messages.simps)
qed

theorem submit_body_roundtrip_witness:
  "parse_submit strict (dump_submit sample_body) = Some sample_body"
  by (rule submit_body_roundtrip [OF parse_sample])
    (auto simp: sample_body_def strict_def split: json.splits)

end
