(* ===== verification/Recovery.thy ===== *)
theory Recovery
  imports Journey
begin

text \<open>
  What becomes of the jobs of a process that was killed: the next one starts, its lease watcher scans, and the slots
  are free again.
\<close>

text \<open>
  An inflight set as a killed process leaves it: its jobs hold their slots, and their leases, given at \<open>now\<close> minus the
  lease time or before, have run out.
\<close>

definition abandoned :: "string \<Rightarrow> int \<Rightarrow> db \<Rightarrow> bool" where
  "abandoned m cutoff d \<longleftrightarrow>
     zwf (zs d (inflight_key m)) \<and>
     counter d (slots_in_use_key m) = Some (int (length (zs d (inflight_key m)))) \<and>
     in_int64 (int (length (zs d (inflight_key m)))) \<and>
     list_all (\<lambda>e. 0 \<le> zscore e \<and> zscore e \<le> cutoff \<and> \<not> key_exists d (lease_key (zmember e))) (zs d (inflight_key m))"

lemma run_scan_model:
  assumes "exact_server H view" and "model_config_for (config cx) m = Inr mc"
    and "H (Env Now) s = (RInt now, s1)" and "abandoned m (now - lease_ttl mc * 1000000) (view s)"
  shows "case run H (scan_model cx m) s of (res, s') \<Rightarrow> res = Inr () \<and> scan_frame m (view s) (view s') \<and>
    all_reclaimed m (map zmember (zs (view s) (inflight_key m))) (int (length (zs (view s) (inflight_key m)))) (view s) (view s')"
proof -
  let ?z = "zs (view s) (inflight_key m)" and ?cut = "now - lease_ttl mc * 1000000"
  let ?rest = "andThen
       (catch_redis
          (andThen (redis (ZRANGEBYSCORE (inflight_key m) 0 ?cut)) (\<lambda>r.
           return (case r of RMembers ms \<Rightarrow> ms | _ \<Rightarrow> [])))
          (andThen (record_redis_error ''zrangebyscore_inflight'') (\<lambda>_. return [])))
       (\<lambda>candidates. reclaim_all m candidates now)"
  have same: "view s1 = view s"
    using redis_server.env_frame [OF exact_server.axioms(1) [OF assms(1)] _ assms(3)] by simp
  have e: "run H (scan_model cx m) s = run H ?rest s1"
    by (simp add: scan_model_def assms(2,3) run_andThen read_env_def Let_def)
  have a: "alone ?rest (view s1) (\<lambda>res d'. res = Inr () \<and> scan_frame m (view s) d' \<and>
      all_reclaimed m (map zmember ?z) (int (length ?z)) (view s) d')"
  proof -
    have all: "filter (\<lambda>e. 0 \<le> zscore e \<and> zscore e \<le> ?cut) ?z = ?z"
      using assms(4) by (auto simp: abandoned_def list_all_iff filter_id_conv)
    have a: "alone (reclaim_all m (map zmember ?z) now) (view s) (\<lambda>res d'. res = Inr () \<and>
        all_reclaimed m (map zmember ?z) (int (length ?z)) (view s) d' \<and>
        (\<forall>j. j \<notin> set (map zmember ?z) \<longrightarrow> hs d' (job_key j) = hs (view s) (job_key j)) \<and>
        set (ss (view s) (dlq_key m)) \<subseteq> set (ss d' (dlq_key m)) \<and> scan_frame m (view s) d')"
      by (rule alone_reclaim_all)
        (use assms(4) in \<open>auto simp: abandoned_def zwf_def in_int64_def\<close>)
    show ?thesis
      by (simp add: same all) (rule alone_mono [OF a], auto)
  qed
  show ?thesis unfolding e by (rule alone_sound [OF assms(1) a])
qed


text \<open>Redis as documented, and a clock that stands still.\<close>

definition clock_server :: "int \<Rightarrow> cmd \<Rightarrow> db \<Rightarrow> reply \<times> db" where
  "clock_server now c d =
     (case c of
        Env Now \<Rightarrow> (RInt (max 0 now), d)
      | Env e \<Rightarrow> (default_reply e, d)
      | _ \<Rightarrow> redis_exec c d)"

interpretation clock: exact_server "clock_server now" "\<lambda>d. d" for now
  by unfold_locales
    (auto simp: clock_server_def env_reply_default env_reply_def clean_def split: cmd.splits ecmd.splits)


end
