(* ===== verification/Charter_Rules.thy ===== *)
theory Charter_Rules
  imports Prelude
begin

text \<open>
  \<open>orchestrator/charter_rules.py\<close>: the rules by which a pull request is merged or closed without
  a human. A pull request, a file of one and the status of its checks are the JSON the GitHub API gave,
  so a missing or odd field raises as it does in Python.
\<close>

subsection \<open>Python on JSON values\<close>

definition ebind :: "exn + 'a \<Rightarrow> ('a \<Rightarrow> exn + 'b) \<Rightarrow> exn + 'b" where
  "ebind x f = (case x of Inl e \<Rightarrow> Inl e | Inr a \<Rightarrow> f a)"

lemma ebind_simps [simp]: "ebind (Inl e) f = Inl e" "ebind (Inr a) f = f a"
  by (simp_all add: ebind_def)

lemma ebind_Inr: "ebind x f = Inr b \<longleftrightarrow> (\<exists>a. x = Inr a \<and> f a = Inr b)"
  by (cases x) simp_all

fun json_index :: "json \<Rightarrow> string \<Rightarrow> exn + json" where
  "json_index (JObj kvs) k = (case map_of kvs k of None \<Rightarrow> Inl (KeyError k) | Some v \<Rightarrow> Inr v)"
| "json_index _ k = Inl (TypeError ''indices must be integers'')"

fun elements :: "json \<Rightarrow> exn + json list" where
  "elements (JList l) = Inr l"
| "elements (JObj kvs) = Inr (map (\<lambda>(k, _). JStr k) kvs)"
| "elements (JStr s) = Inr (map (\<lambda>c. JStr [c]) s)"
| "elements _ = Inl (TypeError ''object is not iterable'')"

text \<open>\<open>v.method()\<close> of a text method, and a function that insists on a text.\<close>

fun text_method :: "json \<Rightarrow> exn + string" where
  "text_method (JStr s) = Inr s"
| "text_method _ = Inl (AttributeError ''object has no such attribute'')"

fun text_arg :: "json \<Rightarrow> exn + string" where
  "text_arg (JStr s) = Inr s"
| "text_arg _ = Inl (TypeError ''expected a text'')"

fun number_arg :: "json \<Rightarrow> exn + int" where
  "number_arg (JNum n) = Inr n"
| "number_arg (JBool b) = Inr (if b then 1 else 0)"
| "number_arg _ = Inl (TypeError ''unsupported operand type(s) for +'')"

fun has_prefix :: "string \<Rightarrow> string \<Rightarrow> bool" where
  "has_prefix [] s = True"
| "has_prefix (c # cs) [] = False"
| "has_prefix (c # cs) (d # ds) = (c = d \<and> has_prefix cs ds)"

definition has_suffix :: "string \<Rightarrow> string \<Rightarrow> bool" where
  "has_suffix p s = has_prefix (rev p) (rev s)"

fun suffixes :: "'a list \<Rightarrow> 'a list list" where
  "suffixes [] = [[]]"
| "suffixes (c # cs) = (c # cs) # suffixes cs"

definition contains :: "string \<Rightarrow> string \<Rightarrow> bool" where
  "contains p s = list_ex (has_prefix p) (suffixes s)"

text \<open>\<open>s in v\<close> for a text s.\<close>

fun text_in :: "string \<Rightarrow> json \<Rightarrow> exn + bool" where
  "text_in s (JStr t) = Inr (contains s t)"
| "text_in s (JList l) = Inr (JStr s \<in> set l)"
| "text_in s (JObj kvs) = Inr (s \<in> fst ` set kvs)"
| "text_in s _ = Inl (TypeError ''argument is not iterable'')"

lemma has_prefix_iff: "has_prefix p s \<longleftrightarrow> (\<exists>t. s = p @ t)"
  by (induction p s rule: has_prefix.induct) auto

lemma has_suffix_iff: "has_suffix p s \<longleftrightarrow> (\<exists>t. s = t @ p)"
  unfolding has_suffix_def has_prefix_iff by (metis rev_append rev_rev_ident)

lemma set_suffixes: "t \<in> set (suffixes s) \<longleftrightarrow> (\<exists>r. s = r @ t)"
proof (induction s)
  case (Cons c s)
  have "(\<exists>r. c # s = r @ t) \<longleftrightarrow> t = c # s \<or> (\<exists>r. s = r @ t)"
    by (metis Cons_eq_append_conv append_Cons)
  with Cons show ?case by auto
qed auto

lemma contains_iff: "contains p s \<longleftrightarrow> (\<exists>a b. s = a @ p @ b)"
  unfolding contains_def list_ex_iff Bex_def set_suffixes has_prefix_iff by blast

text \<open>
  \<open>str.splitlines()\<close>: a line ends at a line feed, a carriage return (with a line feed after it), a
  vertical tab, a form feed, one of the separators 0x1c to 0x1e, or 0x85.
\<close>

definition line_break :: "char \<Rightarrow> bool" where
  "line_break c \<longleftrightarrow> (let n = of_char c :: nat in (10 \<le> n \<and> n \<le> 13) \<or> (28 \<le> n \<and> n \<le> 30) \<or> n = 133)"

fun lines_from :: "string \<Rightarrow> string \<Rightarrow> string list" where
  "lines_from cur [] = (if cur = [] then [] else [rev cur])"
| "lines_from cur (c # cs) =
     (if c = CHR 0x0D \<and> cs \<noteq> [] \<and> hd cs = CHR 0x0A then rev cur # lines_from [] (tl cs)
      else if line_break c then rev cur # lines_from [] cs
      else lines_from (c # cur) cs)"

definition splitlines :: "string \<Rightarrow> string list" where
  "splitlines s = lines_from [] s"

subsection \<open>Paths no agent may touch\<close>

text \<open>\<open>fnmatch.fnmatch\<close> for patterns of literals, \<open>*\<close> and \<open>?\<close>; no pattern of the rules has a bracket.\<close>

fun fnmatch :: "string \<Rightarrow> string \<Rightarrow> bool" where
  "fnmatch [] s = (s = [])"
| "fnmatch (p # ps) [] = (p = CHR ''*'' \<and> fnmatch ps [])"
| "fnmatch (p # ps) (c # cs) =
     (if p = CHR ''*'' then fnmatch ps (c # cs) \<or> fnmatch (p # ps) cs
      else (p = CHR ''?'' \<or> p = c) \<and> fnmatch ps cs)"

definition FORBIDDEN_PATTERNS :: "string list" where
  "FORBIDDEN_PATTERNS =
     [''.env'', ''.env.*'', ''*.env'',
      ''docker-compose*.yml'', ''Dockerfile*'', ''.dockerignore'',
      ''infra/docker/*'',
      ''.github/*'',
      ''apps/api/alembic.ini'', ''apps/api/alembic/versions/*'',
      ''alembic.ini'', ''alembic/versions/*'',
      ''apps/api/routers/auth*.py'', ''apps/api/routers/auth/*'',
      ''apps/api/services/aml_service*.py'',
      ''apps/api/services/kyc_service*.py'',
      ''apps/api/models.py'', ''apps/api/models/*'',
      ''apps/api/db.py'', ''apps/api/main.py'', ''apps/api/config*.py'',
      ''apps/web/next.config.*'', ''apps/web/tsconfig.json'',
      ''apps/web/package.json'', ''apps/web/middleware.ts'',
      ''apps/web/app/layout.tsx'',
      ''CODEOWNERS'']"

definition matches_forbidden :: "string \<Rightarrow> string option" where
  "matches_forbidden path = List.find (\<lambda>pat. fnmatch pat path) FORBIDDEN_PATTERNS"

subsection \<open>Who is an agent\<close>

text \<open>\<open>re.match\<close> anchors at the start; \<open>$\<close> also matches before a final line feed.\<close>

definition agent_names :: "string list" where
  "agent_names = [''ceo'', ''backend'', ''frontend'', ''qa'', ''doc'', ''triage'']"

definition agent_login :: "string \<Rightarrow> bool" where
  "agent_login s \<longleftrightarrow>
     list_ex (\<lambda>n. s = ''kola-'' @ n @ ''-agent'' \<or> s = ''kola-'' @ n @ ''-agent'' @ [CHR 0x0A]) agent_names \<or>
     has_prefix ''kola-team-bot'' s"

definition json_or :: "json \<Rightarrow> json \<Rightarrow> json" where
  "json_or v dflt = (if truthy v then v else dflt)"

definition is_agent_pr :: "json \<Rightarrow> exn + bool" where
  "is_agent_pr pr =
     ebind (json_get pr ''user'' JNull) (\<lambda>u.
     ebind (json_get (json_or u (JObj [])) ''login'' (JStr [])) (\<lambda>user.
     ebind (text_arg user) (\<lambda>s. Inr (agent_login s))))"

subsection \<open>What a line adds\<close>

definition added_line :: "string \<Rightarrow> bool" where
  "added_line l \<longleftrightarrow> has_prefix ''+'' l \<and> \<not> has_prefix ''+++'' l"

definition hex_lower :: "char \<Rightarrow> bool" where
  "hex_lower c \<longleftrightarrow> (let n = of_char c :: nat in (48 \<le> n \<and> n \<le> 57) \<or> (97 \<le> n \<and> n \<le> 102))"

definition ascii_alnum :: "char \<Rightarrow> bool" where
  "ascii_alnum c \<longleftrightarrow> (let n = of_char c :: nat in
     (48 \<le> n \<and> n \<le> 57) \<or> (65 \<le> n \<and> n \<le> 90) \<or> (97 \<le> n \<and> n \<le> 122))"

definition upper_alnum :: "char \<Rightarrow> bool" where
  "upper_alnum c \<longleftrightarrow> (let n = of_char c :: nat in (48 \<le> n \<and> n \<le> 57) \<or> (65 \<le> n \<and> n \<le> 90))"

definition run_of :: "(char \<Rightarrow> bool) \<Rightarrow> nat \<Rightarrow> string \<Rightarrow> bool" where
  "run_of P n s \<longleftrightarrow> n \<le> length s \<and> list_all P (take n s)"

text \<open>\<open>SECRET_REGEX\<close> at the start of a text; \<open>search\<close> tries every start.\<close>

definition secret_at :: "string \<Rightarrow> bool" where
  "secret_at s \<longleftrightarrow>
     (has_prefix ''sk-'' s \<and> run_of hex_lower 16 (drop 3 s)) \<or>
     (has_prefix ''ghp_'' s \<and> run_of ascii_alnum 20 (drop 4 s)) \<or>
     (has_prefix ''AKIA'' s \<and> run_of upper_alnum 16 (drop 4 s))"

definition secret_search :: "string \<Rightarrow> bool" where
  "secret_search s \<longleftrightarrow> list_ex secret_at (suffixes s)"

text \<open>A word character of \<open>re\<close>: alphanumeric, also beyond ASCII, or an underscore.\<close>

definition word_char :: "char \<Rightarrow> bool" where
  "word_char c \<longleftrightarrow> (let n = of_char c :: nat in
     ascii_alnum c \<or> n = 95 \<or> n \<in> {170, 178, 179, 181, 185, 186, 188, 189, 190} \<or>
     (192 \<le> n \<and> n \<noteq> 215 \<and> n \<noteq> 247))"

definition prod_words :: "string list" where
  "prod_words = [''prod'', ''production'', ''live'', ''mainnet'']"

definition word_here :: "string \<Rightarrow> string \<Rightarrow> bool" where
  "word_here s w \<longleftrightarrow> has_prefix w (lower s) \<and> (length s = length w \<or> \<not> word_char (s ! length w))"

fun prod_from :: "bool \<Rightarrow> string \<Rightarrow> bool" where
  "prod_from after_word [] = False"
| "prod_from after_word (c # cs) =
     ((\<not> after_word \<and> list_ex (word_here (c # cs)) prod_words) \<or> prod_from (word_char c) cs)"

definition bad_prod_search :: "string \<Rightarrow> bool" where
  "bad_prod_search s = prod_from False s"

subsection \<open>The checks\<close>

text \<open>
  The reason of a result, one constructor for each message of the source, with the values the message
  shows.
\<close>

datatype reason =
    No_Reason
  | Not_An_Agent
  | No_Status_Check
  | Check_Concluded json json
  | Forbidden_Zone string string
  | Diff_Too_Large int
  | Dependency_Changed string
  | Placeholder string string
  | Todo string
  | Section_Missing string
  | Closed_Forbidden string
  | Secret_Found string
  | Prod_Keyword string

record check_result =
  result_ok :: bool
  result_reason :: reason

definition accepted :: check_result where
  "accepted = \<lparr>result_ok = True, result_reason = No_Reason\<rparr>"

text \<open>
  The result of a run of checks: an exception, the first reason to refuse, or none. \<open>first_problem\<close> is a
  loop that returns at the first element with a reason.
\<close>

fun first_problem :: "('a \<Rightarrow> exn + reason option) \<Rightarrow> 'a list \<Rightarrow> exn + reason option" where
  "first_problem f [] = Inr None"
| "first_problem f (x # xs) =
     (case f x of Inl e \<Rightarrow> Inl e | Inr (Some r) \<Rightarrow> Inr (Some r) | Inr None \<Rightarrow> first_problem f xs)"

definition checks :: "(unit \<Rightarrow> exn + reason option) list \<Rightarrow> exn + check_result" where
  "checks fs =
     ebind (first_problem (\<lambda>f. f ()) fs) (\<lambda>r.
     Inr (case r of None \<Rightarrow> accepted | Some x \<Rightarrow> \<lparr>result_ok = False, result_reason = x\<rparr>))"

definition REQUIRED_PR_SECTIONS :: "string list" where
  "REQUIRED_PR_SECTIONS = [''## What'', ''## Why'', ''## Test'']"

definition MAX_PR_DIFF_LINES :: int where
  "MAX_PR_DIFF_LINES = 400"

definition DEP_FILENAMES :: "string list" where
  "DEP_FILENAMES = [''package.json'', ''requirements.txt'', ''pyproject.toml'']"

definition CONFIG_EXTS :: "string list" where
  "CONFIG_EXTS = [''.yaml'', ''.yml'', ''.toml'', ''.ini'', ''.env'']"

definition run_concluded :: "json \<Rightarrow> exn + reason option" where
  "run_concluded cr =
     ebind (json_get cr ''conclusion'' JNull) (\<lambda>c.
     if c \<in> {JStr ''success'', JStr ''skipped'', JStr ''neutral''} then Inr None
     else ebind (json_index cr ''name'') (\<lambda>n. Inr (Some (Check_Concluded n c))))"

definition ci_green :: "json \<Rightarrow> exn + reason option" where
  "ci_green status =
     ebind (json_get status ''check_runs'' (JList [])) (\<lambda>check_runs.
     if \<not> truthy check_runs then Inr (Some No_Status_Check)
     else ebind (elements check_runs) (first_problem run_concluded))"

definition not_forbidden :: "(string \<Rightarrow> string \<Rightarrow> reason) \<Rightarrow> json \<Rightarrow> exn + reason option" where
  "not_forbidden mk f =
     ebind (json_index f ''filename'') (\<lambda>v.
     ebind (text_arg v) (\<lambda>name.
     Inr (map_option (mk name) (matches_forbidden name))))"

fun diff_total :: "json list \<Rightarrow> exn + int" where
  "diff_total [] = Inr 0"
| "diff_total (f # fs) =
     ebind (json_get f ''additions'' (JNum 0)) (\<lambda>a.
     ebind (json_get f ''deletions'' (JNum 0)) (\<lambda>d.
     ebind (number_arg a) (\<lambda>a. ebind (number_arg d) (\<lambda>d.
     ebind (diff_total fs) (\<lambda>t. Inr (a + d + t))))))"

definition diff_small :: "json list \<Rightarrow> exn + reason option" where
  "diff_small files =
     ebind (diff_total files) (\<lambda>total.
     Inr (if total \<ge> MAX_PR_DIFF_LINES then Some (Diff_Too_Large total) else None))"

definition basename :: "string \<Rightarrow> string" where
  "basename s = rev (takeWhile (\<lambda>c. c \<noteq> CHR ''/'') (rev s))"

definition no_dependency :: "json \<Rightarrow> exn + reason option" where
  "no_dependency f =
     ebind (json_index f ''filename'') (\<lambda>v.
     ebind (text_method v) (\<lambda>name.
     if basename name \<notin> set DEP_FILENAMES then Inr None
     else ebind (json_get f ''status'' JNull) (\<lambda>st.
       Inr (if st \<in> {JStr ''added'', JStr ''modified''} then Some (Dependency_Changed name) else None))))"

definition patch_lines :: "json \<Rightarrow> exn + string list" where
  "patch_lines f =
     ebind (json_get f ''patch'' (JStr [])) (\<lambda>p.
     ebind (text_method (json_or p (JStr []))) (\<lambda>patch. Inr (splitlines patch)))"

text \<open>The name is read only where a reason shows it, as in the source.\<close>

definition line_reason :: "json \<Rightarrow> string \<Rightarrow> exn + reason option" where
  "line_reason f line =
     (if \<not> added_line line then Inr None
      else
        let stripped = strip (drop 1 line) in
        if stripped \<in> {''pass'', ''...''} then
          ebind (json_index f ''filename'') (\<lambda>v. ebind (text_arg v) (\<lambda>n. Inr (Some (Placeholder stripped n))))
        else if contains ''TODO'' stripped \<or> contains ''FIXME'' stripped then
          ebind (json_index f ''filename'') (\<lambda>v. ebind (text_arg v) (\<lambda>n. Inr (Some (Todo n))))
        else Inr None)"

definition no_placeholder :: "json \<Rightarrow> exn + reason option" where
  "no_placeholder f = ebind (patch_lines f) (first_problem (line_reason f))"

definition has_section :: "json \<Rightarrow> string \<Rightarrow> exn + reason option" where
  "has_section body sec =
     ebind (text_in sec body) (\<lambda>b. Inr (if b then None else Some (Section_Missing sec)))"

definition has_sections :: "json \<Rightarrow> exn + reason option" where
  "has_sections pr =
     ebind (json_get pr ''body'' JNull) (\<lambda>b.
     first_problem (has_section (json_or b (JStr []))) REQUIRED_PR_SECTIONS)"

definition check_charter_3 :: "json \<Rightarrow> json list \<Rightarrow> json \<Rightarrow> exn + check_result" where
  "check_charter_3 pr files status = checks
     [\<lambda>_. ebind (is_agent_pr pr) (\<lambda>a. Inr (if a then None else Some Not_An_Agent)),
      \<lambda>_. ci_green status,
      \<lambda>_. first_problem (not_forbidden Forbidden_Zone) files,
      \<lambda>_. diff_small files,
      \<lambda>_. first_problem no_dependency files,
      \<lambda>_. first_problem no_placeholder files,
      \<lambda>_. has_sections pr]"

text \<open>The reason is given for the first added line the test \<open>bad\<close> finds.\<close>

definition no_added :: "(string \<Rightarrow> bool) \<Rightarrow> (string \<Rightarrow> reason) \<Rightarrow> json \<Rightarrow> exn + reason option" where
  "no_added bad mk f =
     ebind (patch_lines f) (\<lambda>ls.
     if list_ex (\<lambda>l. added_line l \<and> bad l) ls
     then ebind (json_index f ''filename'') (\<lambda>v. ebind (text_arg v) (\<lambda>n. Inr (Some (mk n))))
     else Inr None)"

definition no_prod_keyword :: "json \<Rightarrow> exn + reason option" where
  "no_prod_keyword f =
     ebind (json_index f ''filename'') (\<lambda>v.
     ebind (text_method v) (\<lambda>name.
     if \<not> list_ex (\<lambda>ext. has_suffix ext name) CONFIG_EXTS then Inr None
     else no_added bad_prod_search Prod_Keyword f))"

definition check_charter_4 :: "json \<Rightarrow> json list \<Rightarrow> exn + check_result" where
  "check_charter_4 pr files = checks
     [\<lambda>_. first_problem (not_forbidden (\<lambda>name _. Closed_Forbidden name)) files,
      \<lambda>_. first_problem (no_added secret_search Secret_Found) files,
      \<lambda>_. first_problem no_prod_keyword files]"


subsection \<open>Facts about the searches\<close>

lemma fnmatch_literal:
  "\<forall>c \<in> set pre. c \<noteq> CHR ''*'' \<and> c \<noteq> CHR ''?'' \<Longrightarrow> fnmatch (pre @ post) s \<longleftrightarrow> (\<exists>t. s = pre @ t \<and> fnmatch post t)"
proof (induction pre arbitrary: s)
  case (Cons p pre)
  then show ?case by (cases s) auto
qed simp

lemma fnmatch_star: "fnmatch (CHR ''*'' # post) s \<longleftrightarrow> (\<exists>m t. s = m @ t \<and> fnmatch post t)"
proof (induction s)
  case (Cons c s)
  have "(\<exists>m t. c # s = m @ t \<and> fnmatch post t) \<longleftrightarrow> fnmatch post (c # s) \<or> (\<exists>m t. s = m @ t \<and> fnmatch post t)"
    by (metis Cons_eq_append_conv append_Cons)
  with Cons show ?case by simp
qed simp

lemma fnmatch_nil_post: "\<forall>c \<in> set pre. c \<noteq> CHR ''*'' \<and> c \<noteq> CHR ''?'' \<Longrightarrow> fnmatch pre s \<longleftrightarrow> s = pre"
  using fnmatch_literal [of pre "[]" s] by simp

text \<open>A pattern with one star: the text before it, and the text after it when there is one.\<close>

definition shape_of :: "string \<Rightarrow> string \<times> string option" where
  "shape_of pat = (takeWhile (\<lambda>c. c \<noteq> CHR ''*'') pat,
     case dropWhile (\<lambda>c. c \<noteq> CHR ''*'') pat of [] \<Rightarrow> None | _ # post \<Rightarrow> Some post)"

definition plain :: "string \<Rightarrow> bool" where
  "plain s \<longleftrightarrow> list_all (\<lambda>c. c \<noteq> CHR ''*'' \<and> c \<noteq> CHR ''?'') s"

fun shape_matches :: "string \<times> string option \<Rightarrow> string \<Rightarrow> bool" where
  "shape_matches (pre, None) s = (s = pre)"
| "shape_matches (pre, Some post) s = (\<exists>m. s = pre @ m @ post)"

lemma fnmatch_shape:
  assumes "plain (fst (shape_of pat))" and "case snd (shape_of pat) of None \<Rightarrow> True | Some post \<Rightarrow> plain post"
  shows "fnmatch pat s = shape_matches (shape_of pat) s"
proof -
  define pre where "pre = takeWhile (\<lambda>c. c \<noteq> CHR ''*'') pat"
  define rest where "rest = dropWhile (\<lambda>c. c \<noteq> CHR ''*'') pat"
  have pat: "pat = pre @ rest" by (simp add: pre_def rest_def)
  have pre: "\<forall>c \<in> set pre. c \<noteq> CHR ''*'' \<and> c \<noteq> CHR ''?''"
    using assms(1) by (simp add: shape_of_def plain_def list_all_iff pre_def)
  show ?thesis
  proof (cases rest)
    case Nil
    then have "shape_of pat = (pre, None)" unfolding shape_of_def pre_def [symmetric] rest_def [symmetric] by simp
    with Nil pat pre show ?thesis by (simp add: fnmatch_nil_post)
  next
    case (Cons c post)
    then have c: "c = CHR ''*''" using hd_dropWhile [of "\<lambda>c. c \<noteq> CHR ''*''" pat] by (simp add: rest_def)
    from Cons have sh: "shape_of pat = (pre, Some post)" unfolding shape_of_def pre_def [symmetric] rest_def [symmetric] by simp
    then have "\<forall>c \<in> set post. c \<noteq> CHR ''*'' \<and> c \<noteq> CHR ''?''"
      using assms(2) by (simp add: plain_def list_all_iff)
    note post = fnmatch_nil_post [OF this]
    have "fnmatch pat s \<longleftrightarrow> (\<exists>t. s = pre @ t \<and> (\<exists>m u. t = m @ u \<and> u = post))"
      unfolding pat Cons c fnmatch_literal [OF pre] fnmatch_star post ..
    then show ?thesis unfolding sh shape_matches.simps by blast
  qed
qed

lemma forbidden_shapes:
  "list_all (\<lambda>pat. plain (fst (shape_of pat)) \<and>
     (case snd (shape_of pat) of None \<Rightarrow> True | Some post \<Rightarrow> plain post)) FORBIDDEN_PATTERNS"
  by code_simp

text \<open>
  A path is forbidden exactly when it is one of the listed paths, or begins and ends as one of
  the listed patterns says, with anything between, also further directories.
\<close>

theorem forbidden_paths:
  "matches_forbidden path \<noteq> None \<longleftrightarrow> (\<exists>pat \<in> set FORBIDDEN_PATTERNS. shape_matches (shape_of pat) path)"
proof -
  have "fnmatch pat path = shape_matches (shape_of pat) path" if "pat \<in> set FORBIDDEN_PATTERNS" for pat
    using forbidden_shapes that by (intro fnmatch_shape) (auto simp: list_all_iff)
  then show ?thesis
    by (auto simp: matches_forbidden_def find_None_iff)
qed


subsection \<open>What the searches find\<close>

definition secret_text :: "string \<Rightarrow> bool" where
  "secret_text t \<longleftrightarrow>
     (\<exists>h. t = ''sk-'' @ h \<and> length h = 16 \<and> list_all hex_lower h) \<or>
     (\<exists>h. t = ''ghp_'' @ h \<and> length h = 20 \<and> list_all ascii_alnum h) \<or>
     (\<exists>h. t = ''AKIA'' @ h \<and> length h = 16 \<and> list_all upper_alnum h)"

lemma run_of_iff: "run_of P n s \<longleftrightarrow> (\<exists>h t. s = h @ t \<and> length h = n \<and> list_all P h)"
proof
  assume "run_of P n s"
  then have "s = take n s @ drop n s \<and> length (take n s) = n \<and> list_all P (take n s)"
    by (simp add: run_of_def)
  then show "\<exists>h t. s = h @ t \<and> length h = n \<and> list_all P h" by blast
qed (auto simp: run_of_def)

lemma prefix_run:
  "has_prefix p s \<and> run_of P n (drop (length p) s) \<longleftrightarrow>
     (\<exists>t u. s = t @ u \<and> (\<exists>h. t = p @ h \<and> length h = n \<and> list_all P h))"
proof
  assume "has_prefix p s \<and> run_of P n (drop (length p) s)"
  then obtain r where "s = p @ r" and "run_of P n r" by (auto simp: has_prefix_iff)
  then obtain h t where "s = (p @ h) @ t" "length h = n" "list_all P h" by (auto simp: run_of_iff)
  then show "\<exists>t u. s = t @ u \<and> (\<exists>h. t = p @ h \<and> length h = n \<and> list_all P h)" by blast
next
  assume "\<exists>t u. s = t @ u \<and> (\<exists>h. t = p @ h \<and> length h = n \<and> list_all P h)"
  then obtain h u where s: "s = p @ h @ u" and h: "length h = n" "list_all P h" by auto
  have "run_of P n (h @ u)" unfolding run_of_iff using h by blast
  with s show "has_prefix p s \<and> run_of P n (drop (length p) s)" by (auto simp: has_prefix_iff)
qed

lemma prefix_lengths: "length ''sk-'' = 3" "length ''ghp_'' = 4" "length ''AKIA'' = 4"
  by simp_all

lemma secret_at_iff: "secret_at s \<longleftrightarrow> (\<exists>t u. s = t @ u \<and> secret_text t)"
proof -
  have ex: "(\<exists>t u. s = t @ u \<and> (A t \<or> B t \<or> C t)) \<longleftrightarrow>
      (\<exists>t u. s = t @ u \<and> A t) \<or> (\<exists>t u. s = t @ u \<and> B t) \<or> (\<exists>t u. s = t @ u \<and> C t)" for A B C
    by blast
  show ?thesis
    unfolding secret_at_def secret_text_def prefix_run [of "''sk-''", unfolded prefix_lengths]
      prefix_run [of "''ghp_''", unfolded prefix_lengths] prefix_run [of "''AKIA''", unfolded prefix_lengths] ex ..
qed

lemma secret_search_iff: "secret_search l \<longleftrightarrow> (\<exists>a t b. l = a @ t @ b \<and> secret_text t)"
  unfolding secret_search_def list_ex_iff Bex_def set_suffixes secret_at_iff by blast

lemma lower_append [simp]: "lower (a @ b) = lower a @ lower b"
  by (simp add: lower_def)

lemma length_lower [simp]: "length (lower a) = length a"
  by (simp add: lower_def)

definition ends_word :: "string \<Rightarrow> bool" where
  "ends_word a \<longleftrightarrow> a \<noteq> [] \<and> word_char (last a)"

definition starts_word :: "string \<Rightarrow> bool" where
  "starts_word b \<longleftrightarrow> b \<noteq> [] \<and> word_char (hd b)"

lemma word_here_iff: "word_here s w \<longleftrightarrow> (\<exists>u b. s = u @ b \<and> lower u = w \<and> \<not> starts_word b)"
proof
  assume h: "word_here s w"
  then obtain t where t: "lower s = w @ t" by (auto simp: word_here_def has_prefix_iff)
  then have len: "length w \<le> length s" by (metis length_append length_lower le_add1)
  have "lower (take (length w) s) = w"
    using arg_cong [OF t, of "take (length w)"] by (simp add: lower_def take_map)
  moreover have "\<not> starts_word (drop (length w) s)"
    using h len by (auto simp: word_here_def starts_word_def hd_drop_conv_nth)
  ultimately show "\<exists>u b. s = u @ b \<and> lower u = w \<and> \<not> starts_word b"
    by (metis append_take_drop_id)
next
  assume "\<exists>u b. s = u @ b \<and> lower u = w \<and> \<not> starts_word b"
  then obtain u b where "s = u @ b" "lower u = w" "\<not> starts_word b" by blast
  then show "word_here s w"
    by (cases b) (auto simp: word_here_def has_prefix_iff starts_word_def nth_append)
qed

definition prod_text :: "string \<Rightarrow> bool" where
  "prod_text l \<longleftrightarrow> (\<exists>a u b. l = a @ u @ b \<and> lower u \<in> set prod_words \<and> \<not> ends_word a \<and> \<not> starts_word b)"


lemma prod_from_iff:
  "prod_from v l \<longleftrightarrow> (\<exists>a u b. l = a @ u @ b \<and> lower u \<in> set prod_words \<and>
     \<not> (if a = [] then v else ends_word a) \<and> \<not> starts_word b)"
proof (induction v l rule: prod_from.induct)
  case (1 v)
  have "lower [] \<notin> set prod_words" by (simp add: lower_def prod_words_def)
  then show ?case by auto
next
  case (2 v c cs)
  let ?P = "\<lambda>a u b. lower u \<in> set prod_words \<and> \<not> starts_word b"
  have here: "list_ex (word_here (c # cs)) prod_words \<longleftrightarrow> (\<exists>u b. c # cs = u @ b \<and> ?P [] u b)"
    unfolding list_ex_iff Bex_def word_here_iff by blast
  have "ends_word (c # a) \<longleftrightarrow> (if a = [] then word_char c else ends_word a)" for a
    by (simp add: ends_word_def)
  then have later: "prod_from (word_char c) cs \<longleftrightarrow>
      (\<exists>a u b. cs = a @ u @ b \<and> ?P a u b \<and> \<not> ends_word (c # a))"
    unfolding 2 by auto
  show ?case
  proof
    assume "prod_from v (c # cs)"
    then consider "\<not> v" "list_ex (word_here (c # cs)) prod_words" | "prod_from (word_char c) cs" by auto
    then show "\<exists>a u b. c # cs = a @ u @ b \<and> lower u \<in> set prod_words \<and>
     \<not> (if a = [] then v else ends_word a) \<and> \<not> starts_word b"
    proof cases
      case 1
      then obtain u b where "c # cs = [] @ u @ b" "?P [] u b" unfolding here by auto
      with 1 show ?thesis by (intro exI [of _ "[]"] exI [of _ u] exI [of _ b]) simp
    next
      case 2
      then obtain a u b where "c # cs = (c # a) @ u @ b" "?P a u b" "\<not> ends_word (c # a)"
        unfolding later by auto
      then show ?thesis by (intro exI [of _ "c # a"] exI [of _ u] exI [of _ b]) simp
    qed
  next
    assume "\<exists>a u b. c # cs = a @ u @ b \<and> lower u \<in> set prod_words \<and>
     \<not> (if a = [] then v else ends_word a) \<and> \<not> starts_word b"
    then obtain a u b where *: "c # cs = a @ u @ b" "?P a u b" "\<not> (if a = [] then v else ends_word a)" by blast
    show "prod_from v (c # cs)"
    proof (cases a)
      case Nil
      with * have "c # cs = u @ b" "\<not> v" by auto
      with *(2) here have "list_ex (word_here (c # cs)) prod_words" by blast
      with \<open>\<not> v\<close> show ?thesis by simp
    next
      case (Cons d a')
      with * have "cs = a' @ u @ b" "\<not> ends_word (c # a')" by auto
      with * later have "prod_from (word_char c) cs" by blast
      then show ?thesis by simp
    qed
  qed
qed

lemma bad_prod_search_iff: "bad_prod_search l \<longleftrightarrow> prod_text l"
proof -
  have "(if a = [] then False else ends_word a) = ends_word a" for a by (simp add: ends_word_def)
  then show ?thesis unfolding bad_prod_search_def prod_from_iff prod_text_def by simp
qed

subsection \<open>What an accepted pull request looks like\<close>

lemma first_problem_None: "first_problem f xs = Inr None \<longleftrightarrow> (\<forall>x \<in> set xs. f x = Inr None)"
  by (induction xs) (auto split: sum.splits option.splits)

lemma checks_accepted: "checks fs = Inr accepted \<longleftrightarrow> (\<forall>f \<in> set fs. f () = Inr None)"
proof -
  have "checks fs = Inr accepted \<longleftrightarrow> first_problem (\<lambda>f. f ()) fs = Inr None"
    by (cases "first_problem (\<lambda>f. f ()) fs") (auto simp: checks_def accepted_def split: option.splits)
  then show ?thesis by (simp add: first_problem_None)
qed

lemma checks_ok: "checks fs = Inr r \<Longrightarrow> result_ok r \<longleftrightarrow> r = accepted"
  by (auto simp: checks_def ebind_Inr accepted_def split: option.splits)


text \<open>The rules as the charter states them, over the fields of the JSON.\<close>

definition green :: "json \<Rightarrow> bool" where
  "green status \<longleftrightarrow> (\<exists>rs. json_get status ''check_runs'' (JList []) = Inr (JList rs) \<and> rs \<noteq> [] \<and>
     (\<forall>r \<in> set rs. \<exists>c \<in> {JStr ''success'', JStr ''skipped'', JStr ''neutral''}.
        json_get r ''conclusion'' JNull = Inr c))"

definition allowed_path :: "string \<Rightarrow> bool" where
  "allowed_path name \<longleftrightarrow> (\<forall>pat \<in> set FORBIDDEN_PATTERNS. \<not> shape_matches (shape_of pat) name)"

definition adds :: "json \<Rightarrow> string \<Rightarrow> bool" where
  "adds f l \<longleftrightarrow> (\<exists>ls. patch_lines f = Inr ls \<and> l \<in> set ls \<and> added_line l)"

definition finished_line :: "string \<Rightarrow> bool" where
  "finished_line l \<longleftrightarrow> strip (drop 1 l) \<notin> {''pass'', ''...''} \<and>
     (\<nexists>a b. strip (drop 1 l) = a @ ''TODO'' @ b) \<and> (\<nexists>a b. strip (drop 1 l) = a @ ''FIXME'' @ b)"

definition file_mergeable :: "json \<Rightarrow> bool" where
  "file_mergeable f \<longleftrightarrow> (\<exists>name ls. json_index f ''filename'' = Inr (JStr name) \<and> allowed_path name \<and>
     (basename name \<in> set DEP_FILENAMES \<longrightarrow>
        json_get f ''status'' JNull \<notin> {Inr (JStr ''added''), Inr (JStr ''modified'')}) \<and>
     patch_lines f = Inr ls \<and> (\<forall>l. adds f l \<longrightarrow> finished_line l))"

definition mergeable :: "json \<Rightarrow> json list \<Rightarrow> json \<Rightarrow> bool" where
  "mergeable pr files status \<longleftrightarrow>
     is_agent_pr pr = Inr True \<and> green status \<and> list_all file_mergeable files \<and>
     (\<exists>total. diff_total files = Inr total \<and> total < 400) \<and>
     (\<exists>b. json_get pr ''body'' JNull = Inr b \<and>
        list_all (\<lambda>sec. text_in sec (json_or b (JStr [])) = Inr True) REQUIRED_PR_SECTIONS)"

definition file_safe :: "json \<Rightarrow> bool" where
  "file_safe f \<longleftrightarrow> (\<exists>name ls. json_index f ''filename'' = Inr (JStr name) \<and> allowed_path name \<and>
     patch_lines f = Inr ls \<and>
     (\<forall>l. adds f l \<longrightarrow> (\<nexists>a t b. l = a @ t @ b \<and> secret_text t) \<and>
        (list_ex (\<lambda>ext. has_suffix ext name) CONFIG_EXTS \<longrightarrow> \<not> prod_text l)))"

lemma matches_forbidden_None: "matches_forbidden name = None \<longleftrightarrow> allowed_path name"
proof -
  have "fnmatch pat path = shape_matches (shape_of pat) path" if "pat \<in> set FORBIDDEN_PATTERNS" for pat path
    using forbidden_shapes that by (intro fnmatch_shape) (auto simp: list_all_iff)
  then show ?thesis by (auto simp: matches_forbidden_def find_None_iff allowed_path_def)
qed

lemma text_arg_Inr [simp]: "text_arg v = Inr s \<longleftrightarrow> v = JStr s"
  by (cases v) auto

lemma text_method_Inr [simp]: "text_method v = Inr s \<longleftrightarrow> v = JStr s"
  by (cases v) auto

lemma not_forbidden_None:
  "not_forbidden mk f = Inr None \<longleftrightarrow> (\<exists>name. json_index f ''filename'' = Inr (JStr name) \<and> allowed_path name)"
  by (auto simp: not_forbidden_def ebind_Inr matches_forbidden_None)

lemma ci_green_None: "ci_green status = Inr None \<longleftrightarrow> green status"
proof -
  let ?S = "{JStr ''success'', JStr ''skipped'', JStr ''neutral''}"
  have run: "run_concluded r = Inr None \<longleftrightarrow> (\<exists>c \<in> ?S. json_get r ''conclusion'' JNull = Inr c)" for r
  proof -
    have "ebind (json_index r ''name'') (\<lambda>n. Inr (Some (Check_Concluded n c))) \<noteq> Inr None" for c
      by (simp add: ebind_Inr)
    then have "(if c \<in> ?S then Inr None else ebind (json_index r ''name'') (\<lambda>n. Inr (Some (Check_Concluded n c)))) =
        Inr None \<longleftrightarrow> c \<in> ?S" for c
      by presburger
    then show ?thesis unfolding run_concluded_def ebind_Inr by blast
  qed
  have list: "first_problem run_concluded rs = Inr None \<longleftrightarrow>
      (\<forall>r \<in> set rs. \<exists>c \<in> ?S. json_get r ''conclusion'' JNull = Inr c)" for rs
    unfolding first_problem_None run ..
  have elems: "ebind (elements v) (first_problem run_concluded) = Inr None \<longleftrightarrow>
      (\<exists>rs. v = JList rs \<and> (\<forall>r \<in> set rs. \<exists>c \<in> ?S. json_get r ''conclusion'' JNull = Inr c))" if "truthy v" for v
    using that list by (cases v) (auto simp: neq_Nil_conv)
  show ?thesis
  proof (cases "json_get status ''check_runs'' (JList [])")
    case (Inl e)
    then show ?thesis by (simp add: ci_green_def green_def)
  next
    case (Inr v)
    then have "ci_green status = Inr None \<longleftrightarrow> truthy v \<and> ebind (elements v) (first_problem run_concluded) = Inr None"
      by (simp add: ci_green_def)
    with elems have "ci_green status = Inr None \<longleftrightarrow> truthy v \<and>
        (\<exists>rs. v = JList rs \<and> (\<forall>r \<in> set rs. \<exists>c \<in> ?S. json_get r ''conclusion'' JNull = Inr c))" by blast
    with Inr show ?thesis by (auto simp: green_def)
  qed
qed


lemma no_dependency_None:
  "json_index f ''filename'' = Inr (JStr name) \<Longrightarrow>
     no_dependency f = Inr None \<longleftrightarrow> (basename name \<in> set DEP_FILENAMES \<longrightarrow>
        json_get f ''status'' JNull \<notin> {Inr (JStr ''added''), Inr (JStr ''modified'')})"
  by (cases f) (auto simp: no_dependency_def)

lemma line_reason_None: "line_reason f l = Inr None \<longleftrightarrow> (added_line l \<longrightarrow> finished_line l)"
proof (cases "added_line l")
  case True
  define st where "st = strip (drop 1 l)"
  have shown: "ebind (json_index f ''filename'') (\<lambda>v. ebind (text_arg v) (\<lambda>n. Inr (Some (mk n)))) \<noteq> Inr None" for mk
    by (simp add: ebind_Inr)
  have "line_reason f l = Inr None \<longleftrightarrow>
      st \<notin> {''pass'', ''...''} \<and> \<not> contains ''TODO'' st \<and> \<not> contains ''FIXME'' st"
    using True shown [of "Placeholder st"] shown [of Todo] unfolding line_reason_def Let_def st_def [symmetric] by presburger
  then show ?thesis
    using True unfolding finished_line_def st_def [symmetric] contains_iff by blast
qed (simp add: line_reason_def)

lemma no_placeholder_None:
  "no_placeholder f = Inr None \<longleftrightarrow> (\<exists>ls. patch_lines f = Inr ls) \<and> (\<forall>l. adds f l \<longrightarrow> finished_line l)"
  unfolding no_placeholder_def ebind_Inr first_problem_None line_reason_None adds_def by (cases "patch_lines f") auto

lemma no_added_None:
  "no_added bad mk f = Inr None \<longleftrightarrow> (\<exists>ls. patch_lines f = Inr ls) \<and> (\<forall>l. adds f l \<longrightarrow> \<not> bad l)"
proof (cases "patch_lines f")
  case (Inr ls)
  have "ebind (json_index f ''filename'') (\<lambda>v. ebind (text_arg v) (\<lambda>n. Inr (Some (mk n)))) \<noteq> Inr None"
    by (simp add: ebind_Inr)
  with Inr show ?thesis by (auto simp: no_added_def adds_def list_ex_iff)
qed (simp add: no_added_def)

lemma has_sections_None:
  "has_sections pr = Inr None \<longleftrightarrow> (\<exists>b. json_get pr ''body'' JNull = Inr b \<and>
     list_all (\<lambda>sec. text_in sec (json_or b (JStr [])) = Inr True) REQUIRED_PR_SECTIONS)"
  by (auto simp: has_sections_def ebind_Inr first_problem_None has_section_def list_all_iff split: if_splits)

lemma diff_small_None: "diff_small files = Inr None \<longleftrightarrow> (\<exists>t. diff_total files = Inr t \<and> t < 400)"
  by (cases "diff_total files") (auto simp: diff_small_def MAX_PR_DIFF_LINES_def)

lemma charter_3_accepts: "check_charter_3 pr files status = Inr accepted \<longleftrightarrow> mergeable pr files status"
proof -
  have agent: "ebind (is_agent_pr pr) (\<lambda>a. Inr (if a then None else Some Not_An_Agent)) = Inr None \<longleftrightarrow>
      is_agent_pr pr = Inr True"
    by (auto simp: ebind_Inr split: if_splits)
  have files: "(\<forall>f \<in> set files. not_forbidden Forbidden_Zone f = Inr None) \<and>
      (\<forall>f \<in> set files. no_dependency f = Inr None) \<and> (\<forall>f \<in> set files. no_placeholder f = Inr None) \<longleftrightarrow>
      list_all file_mergeable files"
  proof -
    have "not_forbidden Forbidden_Zone f = Inr None \<and> no_dependency f = Inr None \<and> no_placeholder f = Inr None \<longleftrightarrow>
        file_mergeable f" for f
      unfolding not_forbidden_None no_placeholder_None file_mergeable_def using no_dependency_None by blast
    then show ?thesis by (auto simp: list_all_iff)
  qed
  show ?thesis
    unfolding check_charter_3_def checks_accepted mergeable_def files [symmetric]
    by (simp add: agent ci_green_None first_problem_None diff_small_None has_sections_None) blast
qed

text \<open>
  C18. The rules of the charter for a merge without a human: a pull request is accepted exactly when its
  author is an agent, every check has concluded well and there is one, no file is in a
  forbidden zone, changes a dependency or adds a placeholder, a TODO or a FIXME, the diff
  is below 400 lines, and the body has every section.
\<close>

theorem charter_3_iff: "check_charter_3 pr files status = Inr accepted \<longleftrightarrow> mergeable pr files status"
  by (rule charter_3_accepts)

lemma charter_4_accepts: "check_charter_4 pr files = Inr accepted \<longleftrightarrow> list_all file_safe files"
proof -
  have "not_forbidden mk f = Inr None \<and> no_added secret_search Secret_Found f = Inr None \<and>
      no_prod_keyword f = Inr None \<longleftrightarrow> file_safe f" for mk f
    unfolding not_forbidden_None no_added_None file_safe_def secret_search_iff
    by (auto simp: no_prod_keyword_def no_added_None bad_prod_search_iff split: if_splits)
  from this [of "\<lambda>name _. Closed_Forbidden name"] show ?thesis
    unfolding check_charter_4_def checks_accepted by (auto simp: first_problem_None list_all_iff)
qed

text \<open>
  C19. The rules for closing at once: a pull request passes exactly when none of its files is in a
  forbidden zone, no added line holds a key of the three known forms, and no added line of a
  configuration file names production as a word of its own.
\<close>

theorem charter_4_iff: "check_charter_4 pr files = Inr accepted \<longleftrightarrow> list_all file_safe files"
  by (rule charter_4_accepts)

text \<open>
  A line whose text begins with two plus signs escapes the search for keys: it is taken for the
  header of a file, which the patches of the API do not have. So any key can be added that way.
\<close>

theorem plus_line_unchecked:
  assumes "\<forall>c \<in> set s. \<not> line_break c" and "matches_forbidden name = None"
  shows "check_charter_4 pr [JObj [(''filename'', JStr name), (''patch'', JStr (''+++'' @ s))]] = Inr accepted"
proof -
  let ?f = "JObj [(''filename'', JStr name), (''patch'', JStr (''+++'' @ s))]"
  have lines: "\<forall>c \<in> set t. \<not> line_break c \<Longrightarrow> rev cur @ t \<noteq> [] \<Longrightarrow> lines_from cur t = [rev cur @ t]" for cur t
    by (induction cur t rule: lines_from.induct) (auto simp: line_break_def Let_def)
  have "lines_from [] (''+++'' @ s) = [''+++'' @ s]"
    using lines [of "''+++'' @ s" "[]"] assms(1) by (simp add: line_break_def)
  then have "patch_lines ?f = Inr [''+++'' @ s]"
    by (simp add: patch_lines_def json_or_def splitlines_def)
  then have "\<not> adds ?f l" for l
    by (auto simp: adds_def added_line_def)
  with \<open>patch_lines ?f = _\<close> assms(2) have "file_safe ?f"
    unfolding file_safe_def matches_forbidden_None by simp
  then show ?thesis unfolding charter_4_accepts by simp
qed

theorem plus_line_unchecked_witness:
  "check_charter_4 JNull [JObj [(''filename'', JStr ''a.py''), (''patch'', JStr ''+++AKIA0123456789ABCDEF'')]] =
    Inr accepted"
  using plus_line_unchecked [of "''AKIA0123456789ABCDEF''" "''a.py''" JNull]
  by (simp add: line_break_def Let_def matches_forbidden_def FORBIDDEN_PATTERNS_def)

end
