(* ===== verification/Agent_World.thy ===== *)
theory Agent_World
  imports Effects Charter_Rules
begin

text \<open>
  What the agents of \<open>orchestrator/\<close> ask of the world: the methods of the GitHub client, the budget
  counters in Redis, the model behind LiteLLM, git and pytest, files, and the audit log. Each is a
  command with a reply; what is shown of the agents holds for every sequence of replies.
\<close>

subsection \<open>Texts\<close>

text \<open>
  The text of a comment, a prompt or the body of a pull request is its template with the values it
  shows.
\<close>

datatype block_reason =
    Setup_Failed string
  | No_Changes
  | Forbidden_Changes "string list"
  | Git_Failed string string
  | Nothing_To_Commit
  | Crash string

datatype comment =
    Auto_Rejected reason
  | Merge_Blocked string
  | Human_Review reason
  | Missing_Info string
  | Worked_In_Pr int
  | Blocked block_reason
  | Tests_Red int string

datatype prompt =
    Triage_Prompt json json string "json list"
  | Backend_Prompt json json string string string
  | Fix_Prompt json json string string "(json \<times> json) list" string

datatype detail =
    NJson json
  | NReason reason
  | NText string
  | NTexts "string list"
  | NBlock block_reason
  | NInt int
  | NBool bool

subsection \<open>Commands\<close>

datatype gh_cmd =
    List_Open_Prs
  | Get_Pr_Files json
  | Get_Pr_Status json
  | Comment_Pr json comment
  | Close_Pr json
  | Approve_Pr json
  | Merge_Pr json json json
  | Add_Labels json "string list"
  | Remove_Label json string
  | List_Open_Issues "string list"
  | Comment_Issue json comment
  | List_Issue_Comments json
  | Set_Issue_Labels json "json list"
  | Create_Pull_Request string string json json string

datatype acmd =
    Gh gh_cmd
  | Log_Event string string "(string \<times> detail) list"
  | Env_Var string
  | Today
  | Incrby string int
  | Expire string int
  | Get_Key string
  | Llm_Post string string prompt int int int
  | Run_Process "string list" "string option"
  | Path_Exists string
  | Path_Is_File string
  | Glob_Py string
  | Rglob string
  | Make_Dirs string
  | Write_Text string string
  | Remove_Tree string

text \<open>
  \<open>Llm_Post\<close> is the POST to LiteLLM: the alias, the system prompt, the prompt, the limit of tokens, the
  temperature in tenths and the time limit in seconds. \<open>Run_Process\<close> is a command line with its directory;
  \<open>Glob_Py\<close> gives the paths of the Python files of a directory and \<open>Rglob\<close> all paths below one.
\<close>

datatype areply =
    A_Nil
  | A_Json json
  | A_Int int
  | A_Text string
  | A_Texts "string list"
  | A_Bool bool
  | A_Response int string "json option"
  | A_Process int string string
  | A_Err exn

text \<open>
  Functions of the Python library the agents call: \<open>json.loads\<close>, None when it raises
  \<open>JSONDecodeError\<close>, and \<open>textwrap.shorten\<close> to a width, with the placeholder of the source.
\<close>

record actx =
  json_loads :: "string \<Rightarrow> json option"
  shorten :: "string \<Rightarrow> nat \<Rightarrow> string"

text \<open>
  \<open>str\<close> and \<open>repr\<close> of a JSON value. A text is quoted with an apostrophe, or with a double quote if only the
  apostrophe is in it; what is not printable is escaped.
\<close>

definition hex_char :: "nat \<Rightarrow> char" where
  "hex_char n = (if n < 10 then char_of (48 + n) else char_of (87 + n))"

definition repr_char :: "char \<Rightarrow> char \<Rightarrow> string" where
  "repr_char q c =
     (let n = of_char c :: nat; bs = CHR 0x5C in
      if c = bs \<or> c = q then [bs, c]
      else if n = 10 then [bs, CHR ''n'']
      else if n = 13 then [bs, CHR ''r'']
      else if n = 9 then [bs, CHR ''t'']
      else if n < 32 \<or> (127 \<le> n \<and> n \<le> 160) \<or> n = 173 then [bs, CHR ''x'', hex_char (n div 16), hex_char (n mod 16)]
      else [c])"

definition repr_text :: "string \<Rightarrow> string" where
  "repr_text s =
     (let q = (if CHR 0x27 \<in> set s \<and> CHR 0x22 \<notin> set s then CHR 0x22 else CHR 0x27)
      in q # concat (map (repr_char q) s) @ [q])"

fun joined :: "string \<Rightarrow> string list \<Rightarrow> string" where
  "joined sep [] = []"
| "joined sep [s] = s"
| "joined sep (s # t # ts) = s @ sep @ joined sep (t # ts)"

primrec py_repr :: "json \<Rightarrow> string" where
  "py_repr JNull = ''None''"
| "py_repr (JBool b) = (if b then ''True'' else ''False'')"
| "py_repr (JNum n) = show_int n"
| "py_repr (JStr s) = repr_text s"
| "py_repr (JList l) = ''['' @ joined '', '' (map py_repr l) @ '']''"
| "py_repr (JObj kvs) =
     ''{'' @ joined '', '' (map (\<lambda>(k, s). repr_text k @ '': '' @ s) (map (map_prod id py_repr) kvs)) @ ''}''"

definition py_str :: "json \<Rightarrow> string" where
  "py_str v = (case v of JStr s \<Rightarrow> s | _ \<Rightarrow> py_repr v)"

lemma py_str_examples:
  "py_str (JObj [(''a'', JList [JNum 1, JNull, JBool True]), (''b'', JStr ''it''), (''c'', JStr [CHR 0x0A, CHR 0xA0])]) =
     ''{'' @ repr_text ''a'' @ '': [1, None, True], '' @ repr_text ''b'' @ '': '' @ repr_text ''it'' @ '', '' @ repr_text ''c'' @ '': '' @
     [CHR 0x27, CHR 0x5C, CHR ''n'', CHR 0x5C, CHR ''x'', CHR ''a'', CHR ''0'', CHR 0x27] @ ''}''"
  "py_str (JStr ''x'') = ''x''" "repr_text [CHR 0x27] = [CHR 0x22, CHR 0x27, CHR 0x22]"
  by code_simp+

type_synonym 'a agent = "(acmd, areply, exn + 'a) tree"

text \<open>A reply is an exception or a value; one of another form than the call expects is read as the last case.\<close>

definition answer :: "areply \<Rightarrow> exn + areply" where
  "answer r = (case r of A_Err e \<Rightarrow> Inl e | _ \<Rightarrow> Inr r)"

definition ask :: "acmd \<Rightarrow> areply agent" where
  "ask c = Call c (\<lambda>r. Ret (answer r))"

fun json_reply :: "areply \<Rightarrow> exn + json" where
  "json_reply (A_Err e) = Inl e"
| "json_reply (A_Json v) = Inr v"
| "json_reply _ = Inr JNull"

fun int_reply :: "areply \<Rightarrow> exn + int" where
  "int_reply (A_Err e) = Inl e"
| "int_reply (A_Int n) = Inr n"
| "int_reply _ = Inl (TypeError ''not a number'')"

definition ask_int :: "acmd \<Rightarrow> int agent" where
  "ask_int c = Call c (\<lambda>r. Ret (int_reply r))"

fun text_reply :: "areply \<Rightarrow> exn + string" where
  "text_reply (A_Err e) = Inl e"
| "text_reply (A_Text t) = Inr t"
| "text_reply _ = Inr []"

definition ask_text :: "acmd \<Rightarrow> string agent" where
  "ask_text c = Call c (\<lambda>r. Ret (text_reply r))"

definition ask_json :: "acmd \<Rightarrow> json agent" where
  "ask_json c = Call c (\<lambda>r. Ret (json_reply r))"

definition tell :: "acmd \<Rightarrow> unit agent" where
  "tell c = andThen (ask c) (\<lambda>_. return ())"

definition gh :: "gh_cmd \<Rightarrow> json agent" where
  "gh c = ask_json (Gh c)"

definition gh_do :: "gh_cmd \<Rightarrow> unit agent" where
  "gh_do c = tell (Gh c)"

definition log_event :: "string \<Rightarrow> string \<Rightarrow> (string \<times> detail) list \<Rightarrow> unit agent" where
  "log_event role action payload = tell (Log_Event role action payload)"

definition of_result :: "exn + 'a \<Rightarrow> 'a agent" where
  "of_result x = Ret x"

fun is_github_error :: "exn \<Rightarrow> bool" where
  "is_github_error (GitHubAppError _) = True"
| "is_github_error _ = False"

definition ignoring_github :: "unit agent \<Rightarrow> unit agent" where
  "ignoring_github m = catch m (\<lambda>e. if is_github_error e then return () else raise e)"

subsection \<open>Rules for runs of agents\<close>

lemma run_of_result [simp]: "run H (of_result x) s = (x, s)"
  by (simp add: of_result_def)

lemma history_of_result [simp]: "history H (of_result x) s = []"
  by (simp add: of_result_def)

lemma wp_of_result [simp]: "wp ok G (of_result x) Q = Q x"
  by (simp add: of_result_def)

lemma wp_ask: "wp ok G (ask c) Q \<longleftrightarrow> ok c \<and> (\<forall>r. G c r \<longrightarrow> Q (answer r))"
  by (simp add: ask_def)

lemma wp_any:
  assumes "ok c"
  shows "(\<And>x. Q x) \<Longrightarrow> wp ok G (ask c) Q" and "(\<And>x. Q' x) \<Longrightarrow> wp ok G (ask_json c) Q'"
    and "(\<And>x. Q'' x) \<Longrightarrow> wp ok G (tell c) Q''"
  using assms by (auto simp: wp_ask ask_json_def tell_def split: sum.splits)

lemma answer_simps [simp]:
  "answer (A_Err e) = Inl e" "answer (A_Json v) = Inr (A_Json v)" "answer (A_Int n) = Inr (A_Int n)"
  "answer (A_Text t) = Inr (A_Text t)" "answer A_Nil = Inr A_Nil" "answer (A_Bool bl) = Inr (A_Bool bl)"
  "answer (A_Response st t b) = Inr (A_Response st t b)" "answer (A_Process n a b') = Inr (A_Process n a b')"
  "answer (A_Texts ts) = Inr (A_Texts ts)"
  by (simp_all add: answer_def)

lemma answer_Inr: "answer r = Inr x \<longleftrightarrow> r = x \<and> (\<forall>e. r \<noteq> A_Err e)"
  by (cases r) auto

text \<open>\<open>only ok m\<close>: no run of \<open>m\<close> issues a command that is not \<open>ok\<close>.\<close>

definition only :: "('c \<Rightarrow> bool) \<Rightarrow> ('c, 'r, 'a) tree \<Rightarrow> bool" where
  "only ok m \<longleftrightarrow> wp ok (\<lambda>_ _. True) m (\<lambda>_. True)"

named_theorems only_rules \<open>programs that issue only some commands\<close>

lemma only_wp: "only ok m \<Longrightarrow> (\<And>x. Q x) \<Longrightarrow> wp ok (\<lambda>_ _. True) m Q"
  unfolding only_def by (erule wp_mono)

lemma only_andThen [only_rules]: "only ok m \<Longrightarrow> (\<And>a. only ok (f a)) \<Longrightarrow> only ok (andThen m f)"
  unfolding only_def wp_andThen by (rule only_wp [unfolded only_def]) (auto split: sum.splits)

lemma only_catch [only_rules]: "only ok m \<Longrightarrow> (\<And>e. only ok (h e)) \<Longrightarrow> only ok (catch m h)"
  unfolding only_def wp_catch by (rule only_wp [unfolded only_def]) (auto split: sum.splits)

lemma only_finally [only_rules]: "only ok m \<Longrightarrow> only ok f \<Longrightarrow> only ok (finally_do m f)"
  unfolding only_def wp_finally by (rule only_wp [unfolded only_def]) (auto split: sum.splits)

lemma only_pure [only_rules]: "only ok (return a)" "only ok (raise e)" "only ok (of_result x)"
  by (simp_all add: only_def)

lemma only_calls [only_rules]:
  "ok c \<Longrightarrow> only ok (ask c)" "ok c \<Longrightarrow> only ok (ask_json c)" "ok c \<Longrightarrow> only ok (tell c)"
  "ok c \<Longrightarrow> only ok (ask_int c)" "ok c \<Longrightarrow> only ok (ask_text c)"
  "ok (Gh g) \<Longrightarrow> only ok (gh g)" "ok (Gh g) \<Longrightarrow> only ok (gh_do g)"
  "ok (Log_Event r a p) \<Longrightarrow> only ok (log_event r a p)"
  unfolding only_def gh_def gh_do_def log_event_def by ((rule wp_any; simp) | simp add: ask_int_def ask_text_def)+

lemma only_ignoring [only_rules]: "only ok m \<Longrightarrow> only ok (ignoring_github m)"
  unfolding ignoring_github_def by (auto intro!: only_rules)

lemma only_if [only_rules]: "(b \<Longrightarrow> only ok m) \<Longrightarrow> (\<not> b \<Longrightarrow> only ok n) \<Longrightarrow> only ok (if b then m else n)"
  by simp

lemma only_history: "only ok m \<Longrightarrow> (c, r) \<in> set (history H m s) \<Longrightarrow> ok c"
  using wp_history [of ok m "\<lambda>_. True" H s] by (auto simp: only_def)

text \<open>The history of a call, and the reply it gives.\<close>

lemma run_ask: "run H (ask c) s = (answer (fst (H c s)), snd (H c s))"
  by (simp add: ask_def)

lemma run_gh: "run H (gh g) s = (json_reply (fst (H (Gh g) s)), snd (H (Gh g) s))"
  by (simp add: gh_def ask_json_def)

lemma run_calls:
  "run H (ask_int c) s = (int_reply (fst (H c s)), snd (H c s))"
  "run H (ask_text c) s = (text_reply (fst (H c s)), snd (H c s))"
  "run H (ask_json c) s = (json_reply (fst (H c s)), snd (H c s))"
  by (simp_all add: ask_int_def ask_text_def ask_json_def)

lemma run_tell: "run H (tell c) s = (case answer (fst (H c s)) of Inl e \<Rightarrow> Inl e | Inr _ \<Rightarrow> Inr (), snd (H c s))"
  by (simp add: tell_def run_andThen run_ask split: sum.splits)

lemma history_ask [simp]:
  "history H (ask c) s = [(c, fst (H c s))]" "history H (ask_json c) s = [(c, fst (H c s))]"
  "history H (tell c) s = [(c, fst (H c s))]" "history H (ask_int c) s = [(c, fst (H c s))]"
  "history H (ask_text c) s = [(c, fst (H c s))]"
  by (auto simp: ask_def ask_json_def ask_int_def ask_text_def tell_def history_andThen split: prod.splits sum.splits)

lemma history_gh [simp]:
  "history H (gh g) s = [(Gh g, fst (H (Gh g) s))]" "history H (gh_do g) s = [(Gh g, fst (H (Gh g) s))]"
  "history H (log_event r a p) s = [(Log_Event r a p, fst (H (Log_Event r a p) s))]"
  by (simp_all add: gh_def gh_do_def log_event_def)

subsection \<open>Counting commands\<close>

text \<open>\<open>at_most P m n\<close>: no run of \<open>m\<close> issues more than \<open>n\<close> commands that satisfy \<open>P\<close>.\<close>

primrec at_most :: "('c \<Rightarrow> bool) \<Rightarrow> ('c, 'r, 'a) tree \<Rightarrow> nat \<Rightarrow> bool" where
  "at_most P (Ret a) n = True"
| "at_most P (Call c k) n = (if P c then n > 0 \<and> (\<forall>r. at_most P (k r) (n - 1)) else (\<forall>r. at_most P (k r) n))"

lemma at_most_history: "at_most P m n \<Longrightarrow> length (filter (\<lambda>cr. P (fst cr)) (history H m s)) \<le> n"
proof (induction m arbitrary: n s)
  case (Call c k)
  let ?r = "fst (H c s)" and ?s = "snd (H c s)"
  show ?case
  proof (cases "P c")
    case True
    with Call.prems have "length (filter (\<lambda>cr. P (fst cr)) (history H (k ?r) ?s)) \<le> n - 1" "n > 0"
      by (auto intro: Call.IH)
    with True show ?thesis by simp
  next
    case False
    with Call show ?thesis by (auto intro: Call.IH)
  qed
qed simp

lemma at_most_mono: "at_most P m n \<Longrightarrow> n \<le> n' \<Longrightarrow> at_most P m n'"
proof (induction m arbitrary: n n')
  case (Call c k)
  show ?case
  proof (cases "P c")
    case True
    then have "at_most P (k r) (n' - 1)" for r
      using Call.prems by (intro Call.IH [of "k r" "n - 1" "n' - 1"]) auto
    with True Call.prems show ?thesis by simp
  next
    case False
    have "at_most P (k r) n'" for r
      using Call.prems False by (intro Call.IH [of "k r" n n']) auto
    with False show ?thesis by simp
  qed
qed simp

lemma at_most_bind: "at_most P m a \<Longrightarrow> (\<And>x. at_most P (f x) b) \<Longrightarrow> at_most P (bind m f) (a + b)"
proof (induction m arbitrary: a)
  case (Ret x)
  from at_most_mono [OF Ret.prems(2)] show ?case by simp
next
  case (Call c k)
  show ?case
  proof (cases "P c")
    case True
    then have "at_most P (bind (k r) f) (a - 1 + b)" for r
      using Call.prems by (intro Call.IH) auto
    with True Call.prems show ?thesis by simp
  next
    case False
    have "at_most P (bind (k r) f) (a + b)" for r
      using Call.prems False by (intro Call.IH) auto
    with False show ?thesis by simp
  qed
qed

lemma at_most_andThen: "at_most P m a \<Longrightarrow> (\<And>x. at_most P (f x) b) \<Longrightarrow> at_most P (andThen m f) (a + b)"
  unfolding andThen_def by (rule at_most_bind) (auto split: sum.splits)

lemma at_most_catch: "at_most P m a \<Longrightarrow> (\<And>e. at_most P (h e) b) \<Longrightarrow> at_most P (catch m h) (a + b)"
  unfolding catch_def by (rule at_most_bind) (auto split: sum.splits)

lemma at_most_finally: "at_most P m a \<Longrightarrow> at_most P f b \<Longrightarrow> at_most P (finally_do m f) (a + b)"
  unfolding finally_do_def by (rule at_most_bind) (use at_most_andThen [of P f b "\<lambda>_. Ret x" 0 for x] in auto)

lemma at_most_only: "only (\<lambda>c. \<not> P c) m \<Longrightarrow> at_most P m n"
  by (induction m) (auto simp: only_def)

lemma at_most_call: "at_most P (Call c (\<lambda>r. Ret (f r))) 1"
  by simp

lemma at_most_calls: "at_most P (ask c) 1" "at_most P (ask_json c) 1" "at_most P (ask_int c) 1" "at_most P (ask_text c) 1"
  by (simp_all add: ask_def ask_json_def ask_int_def ask_text_def)

end
