(* ===== verification/Orch_Config.thy ===== *)
theory Orch_Config
  imports Agent_World
begin

text \<open>
  \<open>orchestrator/config.py\<close>: the profiles of the roles, the settings, and the file \<open>.env\<close>, whose lines
  add to the environment what it does not define.
\<close>

subsection \<open>The file .env\<close>

type_synonym env = "string \<rightharpoonup> string"

definition quote_char :: "char \<Rightarrow> bool" where
  "quote_char c \<longleftrightarrow> c = CHR 0x27 \<or> c = CHR 0x22"

definition strip_quotes :: "string \<Rightarrow> string" where
  "strip_quotes s = rev (dropWhile quote_char (rev (dropWhile quote_char s)))"

definition dotenv_entry :: "string \<Rightarrow> (string \<times> string) option" where
  "dotenv_entry raw =
     (let line = strip raw in
      if line = [] \<or> has_prefix ''#'' line \<or> CHR ''='' \<notin> set line then None
      else Some (strip (takeWhile (\<lambda>c. c \<noteq> CHR ''='') line),
                 strip_quotes (strip (drop 1 (dropWhile (\<lambda>c. c \<noteq> CHR ''='') line)))))"

definition setdefault :: "string \<times> string \<Rightarrow> env \<Rightarrow> env" where
  "setdefault kv env = (case env (fst kv) of Some _ \<Rightarrow> env | None \<Rightarrow> env(fst kv \<mapsto> snd kv))"

definition load_dotenv :: "string option \<Rightarrow> env \<Rightarrow> env" where
  "load_dotenv file env =
     (case file of
        None \<Rightarrow> env
      | Some text \<Rightarrow> fold (\<lambda>line e. case dotenv_entry line of None \<Rightarrow> e | Some kv \<Rightarrow> setdefault kv e)
          (splitlines text) env)"

definition setting :: "env \<Rightarrow> string \<Rightarrow> string \<Rightarrow> string" where
  "setting env name dflt = (case env name of None \<Rightarrow> dflt | Some v \<Rightarrow> v)"

record settings =
  litellm_base :: string
  litellm_key :: string
  redis_url :: string
  gh_repo :: string
  gh_app_id :: string
  gh_app_installation_id :: string
  gh_app_key_path :: string
  heartbeat_seconds :: int

definition read_settings :: "env \<Rightarrow> exn + settings" where
  "read_settings env =
     (case py_int (setting env ''KOLA_HEARTBEAT_SECONDS'' ''300'') of
        None \<Rightarrow> Inl (ValueError ''invalid literal for int() with base 10'')
      | Some n \<Rightarrow> Inr
          \<lparr>litellm_base = setting env ''LITELLM_BASE'' ''http://inference-gateway.local:4000'',
           litellm_key = setting env ''LITELLM_MASTER_KEY'' [],
           redis_url = setting env ''REDIS_URL'' ''redis://localhost:6379/0'',
           gh_repo = setting env ''KOLA_TEAM_GH_REPO'' ''fossouo/kola-money-poc'',
           gh_app_id = setting env ''KOLA_TEAM_APP_ID'' [],
           gh_app_installation_id = setting env ''KOLA_TEAM_APP_INSTALLATION_ID'' [],
           gh_app_key_path = setting env ''KOLA_TEAM_APP_PRIVATE_KEY_PATH'' ''secrets/kola-team-bot.pem'',
           heartbeat_seconds = n\<rparr>)"

subsection \<open>Roles\<close>

record role =
  role_name :: string
  git_name :: string
  git_email :: string
  primary_alias :: string
  fallback_alias :: "string option"
  daily_token_cap :: int
  llm_timeout_s :: int
  fallback_timeout_s :: int

definition ROLES :: "(string \<times> role) list" where
  "ROLES =
     [(''ceo'', \<lparr>role_name = ''ceo'', git_name = ''kola-ceo-agent'', git_email = ''ceo@kola-money.local'',
         primary_alias = ''code'', fallback_alias = Some ''brain-exec'', daily_token_cap = 300000,
         llm_timeout_s = 600, fallback_timeout_s = 300\<rparr>),
      (''backend'', \<lparr>role_name = ''backend'', git_name = ''kola-backend-agent'',
         git_email = ''backend@kola-money.local'', primary_alias = ''code'', fallback_alias = Some ''brain-exec'',
         daily_token_cap = 500000, llm_timeout_s = 600, fallback_timeout_s = 300\<rparr>),
      (''frontend'', \<lparr>role_name = ''frontend'', git_name = ''kola-frontend-agent'',
         git_email = ''frontend@kola-money.local'', primary_alias = ''code'', fallback_alias = Some ''brain-exec'',
         daily_token_cap = 400000, llm_timeout_s = 600, fallback_timeout_s = 300\<rparr>),
      (''qa'', \<lparr>role_name = ''qa'', git_name = ''kola-qa-agent'', git_email = ''qa@kola-money.local'',
         primary_alias = ''brain-exec'', fallback_alias = None, daily_token_cap = 300000,
         llm_timeout_s = 300, fallback_timeout_s = 0\<rparr>),
      (''doc'', \<lparr>role_name = ''doc'', git_name = ''kola-doc-agent'', git_email = ''doc@kola-money.local'',
         primary_alias = ''reasoning-model'', fallback_alias = None, daily_token_cap = 150000,
         llm_timeout_s = 300, fallback_timeout_s = 0\<rparr>),
      (''triage'', \<lparr>role_name = ''triage'', git_name = ''kola-triage-agent'',
         git_email = ''triage@kola-money.local'', primary_alias = ''tool-worker'', fallback_alias = None,
         daily_token_cap = 100000, llm_timeout_s = 120, fallback_timeout_s = 0\<rparr>)]"

definition role_of :: "string \<Rightarrow> exn + role" where
  "role_of name = (case map_of ROLES name of None \<Rightarrow> Inl (KeyError name) | Some r \<Rightarrow> Inr r)"

definition the_role :: "string \<Rightarrow> role" where
  "the_role name = the (map_of ROLES name)"

subsection \<open>Reading .env\<close>

lemma setdefault_lookup: "setdefault kv env k = (case env k of Some v \<Rightarrow> Some v | None \<Rightarrow> if k = fst kv then Some (snd kv) else None)"
  by (auto simp: setdefault_def split: option.splits)

text \<open>
  The file .env never changes a variable that is set, and of several lines for one variable the first
  counts; a variable no line names stays unset.
\<close>

theorem dotenv_first_definition:
  "load_dotenv (Some text) env k =
     (case env k of Some v \<Rightarrow> Some v | None \<Rightarrow> map_of (List.map_filter dotenv_entry (splitlines text)) k)"
proof -
  have "fold (\<lambda>line e. case dotenv_entry line of None \<Rightarrow> e | Some kv \<Rightarrow> setdefault kv e) ls e k =
      (case e k of Some v \<Rightarrow> Some v | None \<Rightarrow> map_of (List.map_filter dotenv_entry ls) k)" for ls e
    by (induction ls arbitrary: e)
      (auto simp: map_filter_simps setdefault_lookup split: option.splits)
  then show ?thesis by (simp add: load_dotenv_def)
qed

end
