(* ===== verification/Ceo.thy ===== *)
theory Ceo
  imports Agent_World
begin

text \<open>
  \<open>orchestrator/roles/ceo.py\<close>: the agent that merges, closes or hands over the pull requests of the
  other agents. What is shown holds for every sequence of replies of GitHub.
\<close>

subsection \<open>Reviewing a pull request\<close>

text \<open>\<open>{lbl["name"] for lbl in pr.get("labels", [])}\<close>: a list or dictionary cannot be in a set.\<close>

fun names_of :: "json list \<Rightarrow> exn + json list" where
  "names_of [] = Inr []"
| "names_of (l # ls) =
     ebind (json_index l ''name'') (\<lambda>n.
     case n of
       JList _ \<Rightarrow> Inl (TypeError ''unhashable type'')
     | JObj _ \<Rightarrow> Inl (TypeError ''unhashable type'')
     | _ \<Rightarrow> ebind (names_of ls) (\<lambda>ns. Inr (n # ns)))"

definition label_names :: "json \<Rightarrow> exn + json list" where
  "label_names pr = ebind (json_get pr ''labels'' (JList [])) (\<lambda>ls. ebind (elements ls) names_of)"

text \<open>\<open>v[:500]\<close>\<close>

fun head_500 :: "json \<Rightarrow> exn + json" where
  "head_500 (JStr s) = Inr (JStr (take 500 s))"
| "head_500 (JList l) = Inr (JList (take 500 l))"
| "head_500 _ = Inl (TypeError ''object is not subscriptable'')"

definition auto_close :: "json \<Rightarrow> reason \<Rightarrow> unit agent" where
  "auto_close number why =
     andThen (gh_do (Comment_Pr number (Auto_Rejected why))) (\<lambda>_.
     andThen (gh_do (Close_Pr number)) (\<lambda>_.
     log_event ''ceo'' ''auto-close'' [(''pr'', NJson number), (''reason'', NReason why)]))"

definition merge_blocked :: "string \<Rightarrow> bool" where
  "merge_blocked m \<longleftrightarrow> contains ''405'' m \<or> contains ''branch protection'' (lower m) \<or>
     contains ''approving review'' (lower m)"

text \<open>True: merged; False: blocked by the protection of the branch, and marked for a human.\<close>

definition try_merge :: "json \<Rightarrow> json \<Rightarrow> bool agent" where
  "try_merge pr number =
     catch
       (andThen (of_result (json_index pr ''title'')) (\<lambda>title.
        andThen (of_result (ebind (json_get pr ''body'' (JStr [])) head_500)) (\<lambda>body.
        andThen (gh_do (Merge_Pr number title body)) (\<lambda>_. return True))))
       (\<lambda>e.
        if is_github_error e \<and> merge_blocked (exn_str e) then
          andThen (of_result (label_names pr)) (\<lambda>labels.
          andThen
            (if JStr ''needs-human-review'' \<notin> set labels then
               andThen (gh_do (Add_Labels number [''needs-human-review''])) (\<lambda>_.
               gh_do (Comment_Pr number (Merge_Blocked (take 300 (exn_str e)))))
             else return ())
            (\<lambda>_.
          andThen (log_event ''ceo'' ''merge-blocked'' [(''pr'', NJson number), (''error'', NText (take 300 (exn_str e)))]) (\<lambda>_.
          return False)))
        else raise e)"

definition auto_merge :: "json \<Rightarrow> json \<Rightarrow> unit agent" where
  "auto_merge pr number =
     andThen (ignoring_github (gh_do (Approve_Pr number))) (\<lambda>_.
     andThen (try_merge pr number) (\<lambda>merged.
     if \<not> merged then return ()
     else
       andThen (of_result (label_names pr)) (\<lambda>labels.
       andThen
         (if JStr ''needs-human-review'' \<in> set labels
          then ignoring_github (gh_do (Remove_Label number ''needs-human-review''))
          else return ()) (\<lambda>_.
       andThen (gh_do (Add_Labels number [''auto-merged-by-ceo-agent''])) (\<lambda>_.
       andThen (of_result (ebind (json_index pr ''head'') (\<lambda>h. json_index h ''sha''))) (\<lambda>sha.
       log_event ''ceo'' ''auto-merge'' [(''pr'', NJson number), (''sha'', NJson sha)]))))))"

definition human_review :: "json \<Rightarrow> json \<Rightarrow> reason \<Rightarrow> unit agent" where
  "human_review pr number why =
     andThen (of_result (label_names pr)) (\<lambda>labels.
     if JStr ''needs-human-review'' \<in> set labels then return ()
     else
       andThen (gh_do (Add_Labels number [''needs-human-review''])) (\<lambda>_.
       andThen (gh_do (Comment_Pr number (Human_Review why))) (\<lambda>_.
       log_event ''ceo'' ''needs-human-review'' [(''pr'', NJson number), (''reason'', NReason why)])))"

definition act_on :: "json \<Rightarrow> json \<Rightarrow> json list \<Rightarrow> json \<Rightarrow> unit agent" where
  "act_on pr number files status =
     andThen (of_result (check_charter_4 pr files)) (\<lambda>rej.
     if \<not> result_ok rej then auto_close number (result_reason rej)
     else
       andThen (of_result (check_charter_3 pr files status)) (\<lambda>res.
       if result_ok res then auto_merge pr number
       else human_review pr number (result_reason res)))"

definition review_pr :: "json \<Rightarrow> unit agent" where
  "review_pr pr =
     andThen (of_result (json_index pr ''number'')) (\<lambda>number.
     andThen (of_result (json_get pr ''draft'' JNull)) (\<lambda>draft.
     if truthy draft then return ()
     else
       andThen (of_result (is_agent_pr pr)) (\<lambda>agent.
       if \<not> agent then return ()
       else
         andThen (gh (Get_Pr_Files number)) (\<lambda>v.
         andThen (gh (Get_Pr_Status number)) (\<lambda>status.
         andThen (of_result (elements v)) (\<lambda>files.
         act_on pr number files status))))))"

text \<open>One pull request that fails does not stop the others.\<close>

definition review_failed :: "json \<Rightarrow> exn \<Rightarrow> unit agent" where
  "review_failed pr e =
     (if is_exception e then
        andThen (of_result (json_get pr ''number'' JNull)) (\<lambda>n.
        log_event ''ceo'' ''review-fail'' [(''pr'', NJson n), (''error'', NText (exn_str e))])
      else raise e)"

definition review_safely :: "json \<Rightarrow> unit agent" where
  "review_safely pr = catch (review_pr pr) (review_failed pr)"

primrec review_all :: "json list \<Rightarrow> unit agent" where
  "review_all [] = return ()"
| "review_all (pr # prs) = andThen (review_safely pr) (\<lambda>_. review_all prs)"

definition open_prs :: "json option agent" where
  "open_prs =
     catch (andThen (gh List_Open_Prs) (\<lambda>v. return (Some v)))
       (\<lambda>e. if is_github_error e then
              andThen (log_event ''ceo'' ''heartbeat-fail'' [(''error'', NText (exn_str e))]) (\<lambda>_. return None)
            else raise e)"

definition heartbeat :: "unit agent" where
  "heartbeat =
     andThen (ask_json (Env_Var ''KOLA_CEO_PAUSED'')) (\<lambda>paused.
     if paused = JStr ''1'' then
       log_event ''ceo'' ''paused'' [(''reason'', NText ''KOLA_CEO_PAUSED=1'')]
     else
       andThen open_prs (\<lambda>prs.
       case prs of
         None \<Rightarrow> return ()
       | Some v \<Rightarrow> andThen (of_result (elements v)) review_all))"

subsection \<open>What the agent does to a pull request\<close>

text \<open>The files and the status of a pull request, as GitHub gave them during a run.\<close>

definition reviewed :: "(acmd \<times> areply) list \<Rightarrow> json \<Rightarrow> json list \<Rightarrow> json \<Rightarrow> bool" where
  "reviewed h n files status \<longleftrightarrow>
     (\<exists>v r r'. (Gh (Get_Pr_Files n), r) \<in> set h \<and> json_reply r = Inr v \<and> elements v = Inr files \<and>
        (Gh (Get_Pr_Status n), r') \<in> set h \<and> json_reply r' = Inr status)"

definition reads :: "acmd \<Rightarrow> bool" where
  "reads c \<longleftrightarrow> (\<exists>n. c = Gh (Get_Pr_Files n) \<or> c = Gh (Get_Pr_Status n))"

definition eligible :: "json \<Rightarrow> json \<Rightarrow> bool" where
  "eligible pr n \<longleftrightarrow> json_index pr ''number'' = Inr n \<and> is_agent_pr pr = Inr True \<and>
     (\<exists>d. json_get pr ''draft'' JNull = Inr d \<and> \<not> truthy d)"

lemma review_history:
  assumes "(c, r) \<in> set (history H (review_pr pr) s)" and "\<not> reads c"
  shows "\<exists>n files status s'. eligible pr n \<and> reviewed (history H (review_pr pr) s) n files status \<and>
    (c, r) \<in> set (history H (act_on pr n files status) s')"
proof -
  obtain n where n: "json_index pr ''number'' = Inr n"
    using assms(1) by (cases "json_index pr ''number''") (simp_all add: review_pr_def history_andThen)
  obtain d where d: "json_get pr ''draft'' JNull = Inr d" "\<not> truthy d"
    using assms(1) n by (cases "json_get pr ''draft'' JNull") (auto simp: review_pr_def history_andThen split: if_splits)
  have a: "is_agent_pr pr = Inr True"
    using assms(1) n d by (cases "is_agent_pr pr") (auto simp: review_pr_def history_andThen split: if_splits)
  note h = review_pr_def history_andThen run_gh n d a
  let ?r1 = "fst (H (Gh (Get_Pr_Files n)) s)" and ?s1 = "snd (H (Gh (Get_Pr_Files n)) s)"
  let ?r2 = "fst (H (Gh (Get_Pr_Status n)) ?s1)" and ?s2 = "snd (H (Gh (Get_Pr_Status n)) ?s1)"
  obtain v where v: "json_reply ?r1 = Inr v"
    using assms by (cases "json_reply ?r1") (auto simp: h reads_def)
  obtain status where st: "json_reply ?r2 = Inr status"
    using assms v by (cases "json_reply ?r2") (auto simp: h reads_def)
  obtain files where f: "elements v = Inr files"
    using assms v st by (cases "elements v") (auto simp: h reads_def)
  have hist: "history H (review_pr pr) s =
      (Gh (Get_Pr_Files n), ?r1) # (Gh (Get_Pr_Status n), ?r2) # history H (act_on pr n files status) ?s2"
    by (simp add: h v st f)
  have "reviewed (history H (review_pr pr) s) n files status"
    unfolding reviewed_def hist using v st f by auto
  moreover have "(c, r) \<in> set (history H (act_on pr n files status) ?s2)"
    using assms unfolding hist by (auto simp: reads_def)
  ultimately show ?thesis using n d a unfolding eligible_def by blast
qed

definition merges :: "acmd \<Rightarrow> bool" where
  "merges c \<longleftrightarrow> (\<exists>n t b. c = Gh (Merge_Pr n t b))"

definition closes :: "acmd \<Rightarrow> bool" where
  "closes c \<longleftrightarrow> (\<exists>n. c = Gh (Close_Pr n))"

text \<open>The number of the pull request a command changes.\<close>

fun changes_pr :: "acmd \<Rightarrow> json option" where
  "changes_pr (Gh (Comment_Pr n t)) = Some n"
| "changes_pr (Gh (Close_Pr n)) = Some n"
| "changes_pr (Gh (Approve_Pr n)) = Some n"
| "changes_pr (Gh (Merge_Pr n t b)) = Some n"
| "changes_pr (Gh (Add_Labels n ls)) = Some n"
| "changes_pr (Gh (Remove_Label n l)) = Some n"
| "changes_pr _ = None"

lemma act_only: "only (\<lambda>c. changes_pr c \<in> {None, Some n}) (act_on pr n files status)"
  unfolding act_on_def auto_close_def auto_merge_def try_merge_def human_review_def
  by (auto intro!: only_rules)

lemma others_do_not_merge:
  "only (\<lambda>c. \<not> merges c) (auto_close n why)" "only (\<lambda>c. \<not> merges c) (human_review pr n why)"
  unfolding auto_close_def human_review_def by (auto intro!: only_rules simp: merges_def)

lemma others_do_not_close:
  "only (\<lambda>c. \<not> closes c) (auto_merge pr n)" "only (\<lambda>c. \<not> closes c) (human_review pr n why)"
  unfolding auto_merge_def try_merge_def human_review_def by (auto intro!: only_rules simp: closes_def)

lemma not_merged:
  "(c, r) \<in> set (history H (auto_close n why) s) \<Longrightarrow> merges c \<Longrightarrow> False"
  "(c, r) \<in> set (history H (human_review pr n why) s) \<Longrightarrow> merges c \<Longrightarrow> False"
  by (blast dest: only_history [OF others_do_not_merge(1)] only_history [OF others_do_not_merge(2)])+

lemma not_closed:
  "(c, r) \<in> set (history H (auto_merge pr n) s) \<Longrightarrow> closes c \<Longrightarrow> False"
  "(c, r) \<in> set (history H (human_review pr n why) s) \<Longrightarrow> closes c \<Longrightarrow> False"
  by (blast dest: only_history [OF others_do_not_close(1)] only_history [OF others_do_not_close(2)])+

lemma act_merges:
  assumes "(c, r) \<in> set (history H (act_on pr n files status) s)" and "merges c"
  shows "list_all file_safe files \<and> mergeable pr files status"
proof -
  obtain rej where rej: "check_charter_4 pr files = Inr rej"
    using assms(1) by (cases "check_charter_4 pr files") (simp_all add: act_on_def history_andThen)
  have "result_ok rej"
    using assms rej by (cases "result_ok rej") (auto simp: act_on_def history_andThen dest: not_merged)
  moreover obtain res where res: "check_charter_3 pr files status = Inr res"
    using assms(1) rej calculation
    by (cases "check_charter_3 pr files status") (simp_all add: act_on_def history_andThen)
  moreover have "result_ok res"
    using assms rej calculation
    by (cases "result_ok res") (auto simp: act_on_def history_andThen dest: not_merged)
  ultimately have "check_charter_4 pr files = Inr accepted" "check_charter_3 pr files status = Inr accepted"
    using rej checks_ok unfolding check_charter_4_def check_charter_3_def by auto
  then show ?thesis by (simp add: charter_3_accepts charter_4_accepts)
qed

lemma act_closes:
  assumes "(c, r) \<in> set (history H (act_on pr n files status) s)" and "closes c"
  shows "\<not> list_all file_safe files"
proof
  assume "list_all file_safe files"
  then have 4: "check_charter_4 pr files = Inr accepted" by (simp add: charter_4_accepts)
  obtain res where res: "check_charter_3 pr files status = Inr res"
    using assms(1) 4
    by (cases "check_charter_3 pr files status") (simp_all add: act_on_def history_andThen accepted_def)
  with assms 4 show False
    by (cases "result_ok res") (auto simp: act_on_def history_andThen accepted_def dest: not_closed)
qed

text \<open>A change during a heartbeat belongs to the review of one pull request of the list.\<close>

lemma log_only: "only (\<lambda>c. \<exists>r a p. c = Log_Event r a p) (log_event role action payload)"
  by (auto intro!: only_rules)

lemma review_all_history:
  assumes "(c, r) \<in> set (history H (review_all prs) s)" and "changes_pr c \<noteq> None"
  shows "\<exists>pr \<in> set prs. \<exists>s'. (c, r) \<in> set (history H (review_pr pr) s') \<and>
    set (history H (review_pr pr) s') \<subseteq> set (history H (review_all prs) s)"
  using assms(1)
proof (induction prs arbitrary: s)
  case Nil
  then show ?case by simp
next
  case (Cons pr prs)
  have sub: "set (history H (review_pr pr) s) \<subseteq> set (history H (review_all (pr # prs)) s)"
    by (auto simp: review_safely_def history_andThen history_catch)
  show ?case
  proof (cases "(c, r) \<in> set (history H (review_safely pr) s)")
    case True
    have failed: "only (\<lambda>c. changes_pr c = None) (review_failed pr e)" for e
      unfolding review_failed_def by (auto intro!: only_rules)
    have "(c, r) \<notin> set (history H (review_failed pr e) s')" for e s'
      using assms(2) by (auto dest!: only_history [OF failed])
    with True have "(c, r) \<in> set (history H (review_pr pr) s)"
      unfolding review_safely_def history_catch by (auto split: prod.splits sum.splits)
    with sub show ?thesis by auto
  next
    case False
    with Cons.prems obtain s' where s': "(c, r) \<in> set (history H (review_all prs) s')"
      and "set (history H (review_all prs) s') \<subseteq> set (history H (review_all (pr # prs)) s)"
      by (auto simp: history_andThen split: prod.splits sum.splits)
    with Cons.IH [OF s'] show ?thesis by (auto dest: subset_trans)
  qed
qed


lemma open_prs_only: "only (\<lambda>c. changes_pr c = None) open_prs"
  unfolding open_prs_def by (auto intro!: only_rules)

lemma open_prs_listed:
  "run H open_prs s = (Inr (Some v), s') \<Longrightarrow>
     \<exists>q. (Gh List_Open_Prs, q) \<in> set (history H open_prs s) \<and> json_reply q = Inr v"
  by (auto simp: open_prs_def history_catch history_andThen run_catch run_andThen run_gh
      split: prod.splits sum.splits if_splits)

definition listed :: "(acmd \<times> areply) list \<Rightarrow> json \<Rightarrow> bool" where
  "listed h pr \<longleftrightarrow> (\<exists>q v prs. (Gh List_Open_Prs, q) \<in> set h \<and> json_reply q = Inr v \<and>
     elements v = Inr prs \<and> pr \<in> set prs)"

lemma heartbeat_history:
  assumes "(c, r) \<in> set (history H heartbeat s)" and "changes_pr c = Some n"
  shows "\<exists>pr n' files status s'. listed (history H heartbeat s) pr \<and> eligible pr n' \<and>
    reviewed (history H heartbeat s) n' files status \<and> (c, r) \<in> set (history H (act_on pr n' files status) s')"
proof -
  let ?E = "Env_Var ''KOLA_CEO_PAUSED''" and ?h = "history H heartbeat s"
  let ?s1 = "snd (H ?E s)"
  have env: "run H (ask_json ?E) s = (json_reply (fst (H ?E s)), ?s1)"
    by (simp add: ask_json_def)
  obtain p where p: "json_reply (fst (H ?E s)) = Inr p"
    using assms by (cases "json_reply (fst (H ?E s))") (auto simp: heartbeat_def history_andThen env)
  have np: "p \<noteq> JStr ''1''"
    using assms p by (auto simp: heartbeat_def history_andThen env)
  obtain x s2 where o: "run H open_prs ?s1 = (x, s2)" by (cases "run H open_prs ?s1")
  have notopen: "(c, r) \<notin> set (history H open_prs ?s1)"
    using assms(2) only_history [OF open_prs_only] by fastforce
  have hist: "?h = (?E, fst (H ?E s)) # history H open_prs ?s1 @ (case x of Inl _ \<Rightarrow> [] | Inr None \<Rightarrow> []
      | Inr (Some v) \<Rightarrow> (case elements v of Inl _ \<Rightarrow> [] | Inr prs \<Rightarrow> history H (review_all prs) s2))"
    using np by (auto simp: heartbeat_def history_andThen env p o split: sum.splits option.splits)
  with assms notopen obtain v prs where v: "x = Inr (Some v)" "elements v = Inr prs"
    and c: "(c, r) \<in> set (history H (review_all prs) s2)"
    by (auto split: sum.splits option.splits)
  obtain pr s' where pr: "pr \<in> set prs" "(c, r) \<in> set (history H (review_pr pr) s')"
    and sub: "set (history H (review_pr pr) s') \<subseteq> set (history H (review_all prs) s2)"
    using review_all_history [OF c] assms(2) by auto
  have sub': "set (history H (review_pr pr) s') \<subseteq> set ?h" "set (history H open_prs ?s1) \<subseteq> set ?h"
    using sub unfolding hist by (auto simp: v)
  have "\<not> reads c" using assms(2) by (auto simp: reads_def)
  from review_history [OF pr(2) this] obtain n' files status s'' where n': "eligible pr n'"
      "reviewed (history H (review_pr pr) s') n' files status" "(c, r) \<in> set (history H (act_on pr n' files status) s'')"
    by blast
  moreover have "listed ?h pr"
    using open_prs_listed [of H ?s1 v s2] o v pr(1) sub'(2) unfolding listed_def by blast
  moreover have "reviewed ?h n' files status"
    using n'(2) sub'(1) unfolding reviewed_def by blast
  ultimately show ?thesis by blast
qed


text \<open>
  The agent merges a pull request only after it has read its files and the status of its checks, and
  only if these satisfy both sets of rules: the author is an agent, it is no draft, every file is
  safe and the whole is mergeable. This holds for every heartbeat, whatever GitHub replies.
\<close>

theorem ceo_merges_only_mergeable:
  assumes "(Gh (Merge_Pr n t b), r) \<in> set (history H heartbeat s)"
  shows "\<exists>pr files status. listed (history H heartbeat s) pr \<and> eligible pr n \<and>
    reviewed (history H heartbeat s) n files status \<and> list_all file_safe files \<and> mergeable pr files status"
proof -
  from heartbeat_history [OF assms] obtain pr n' files status s'
    where *: "listed (history H heartbeat s) pr" "eligible pr n'" "reviewed (history H heartbeat s) n' files status"
      and c: "(Gh (Merge_Pr n t b), r) \<in> set (history H (act_on pr n' files status) s')"
    by auto
  have "n = n'"
    using only_history [OF act_only [of n' pr files status] c] by simp
  with * act_merges [OF c] show ?thesis by (auto simp: merges_def)
qed

text \<open>
  The agent closes a pull request only if one of its files breaks a rule for closing, and
  comments, labels, approves, merges or closes only pull requests of agents that are in the
  list of open ones and no drafts.
\<close>

theorem ceo_closes_only_unsafe:
  assumes "(c, r) \<in> set (history H heartbeat s)" and "changes_pr c = Some n"
  shows "\<exists>pr files status. listed (history H heartbeat s) pr \<and> eligible pr n \<and>
    reviewed (history H heartbeat s) n files status \<and> (c = Gh (Close_Pr n) \<longrightarrow> \<not> list_all file_safe files)"
proof -
  from heartbeat_history [OF assms] obtain pr n' files status s'
    where *: "listed (history H heartbeat s) pr" "eligible pr n'" "reviewed (history H heartbeat s) n' files status"
      and c: "(c, r) \<in> set (history H (act_on pr n' files status) s')"
    by auto
  have "n = n'"
    using only_history [OF act_only [of n' pr files status] c] assms(2) by simp
  with * act_closes [OF c] show ?thesis by (auto simp: closes_def)
qed


text \<open>A review that reaches the merge: both sets of rules hold, and GitHub gave the files and the status.\<close>

lemma review_reaches_merge:
  assumes "eligible pr n" and "list_all file_safe files" and "mergeable pr files status"
    and "\<forall>s. json_reply (fst (H (Gh (Get_Pr_Files n)) s)) = Inr v" and "elements v = Inr files"
    and "\<forall>s. json_reply (fst (H (Gh (Get_Pr_Status n)) s)) = Inr status"
  shows "\<exists>s'. set (history H (auto_merge pr n) s') \<subseteq> set (history H (review_pr pr) s)"
proof -
  have 4: "check_charter_4 pr files = Inr accepted" and 3: "check_charter_3 pr files status = Inr accepted"
    using assms(2,3) by (simp_all add: charter_3_accepts charter_4_accepts)
  obtain d where d: "json_index pr ''number'' = Inr n" "is_agent_pr pr = Inr True" "json_get pr ''draft'' JNull = Inr d"
      "\<not> truthy d"
    using assms(1) unfolding eligible_def by blast
  let ?s1 = "snd (H (Gh (Get_Pr_Files n)) s)"
  have "set (history H (auto_merge pr n) (snd (H (Gh (Get_Pr_Status n)) ?s1))) \<subseteq> set (history H (review_pr pr) s)"
    by (auto simp: review_pr_def history_andThen run_gh d assms(4-6) act_on_def 3 4 accepted_def)
  then show ?thesis by blast
qed

lemma approval_passes:
  assumes "\<And>e. fst (H (Gh (Approve_Pr n)) s) = A_Err e \<Longrightarrow> is_github_error e"
  shows "\<exists>s'. run H (ignoring_github (gh_do (Approve_Pr n))) s = (Inr (), s')"
proof -
  have "fst (run H (ignoring_github (gh_do (Approve_Pr n))) s) = Inr ()"
    using assms
    by (cases "fst (H (Gh (Approve_Pr n)) s)")
      (auto simp: ignoring_github_def run_catch gh_do_def run_tell split: sum.splits)
  then show ?thesis by (metis prod.collapse)
qed

text \<open>
  A pull request that satisfies both sets of rules is merged, under its own title and the first 500
  characters of its body, as soon as its review runs and GitHub gives its files and its status;
  a refused approval does not prevent it.
\<close>

theorem ceo_merges_what_it_may:
  assumes "eligible pr n" and "list_all file_safe files" and "mergeable pr files status"
    and "\<And>s. json_reply (fst (H (Gh (Get_Pr_Files n)) s)) = Inr v" and "elements v = Inr files"
    and "\<And>s. json_reply (fst (H (Gh (Get_Pr_Status n)) s)) = Inr status"
    and "\<And>s e. fst (H (Gh (Approve_Pr n)) s) = A_Err e \<Longrightarrow> is_github_error e"
    and "json_index pr ''title'' = Inr t" and "json_get pr ''body'' (JStr []) = Inr (JStr b)"
  shows "\<exists>r. (Gh (Merge_Pr n t (JStr (take 500 b))), r) \<in> set (history H (review_pr pr) s)"
proof -
  have "\<exists>r. (Gh (Merge_Pr n t (JStr (take 500 b))), r) \<in> set (history H (auto_merge pr n) s)" for s
  proof -
    obtain s1 where "run H (ignoring_github (gh_do (Approve_Pr n))) s = (Inr (), s1)"
      using approval_passes [of H n s] assms(7) [of s] by auto
    then show ?thesis by (auto simp: auto_merge_def history_andThen try_merge_def history_catch assms(8,9))
  qed
  moreover obtain s' where "set (history H (auto_merge pr n) s') \<subseteq> set (history H (review_pr pr) s)"
    using review_reaches_merge [of pr n files status H v s] assms(1-6) by auto
  ultimately show ?thesis by blast
qed

text \<open>
  C11. A request for human review does not stop the CEO: a pull request that carries the label
  "needs-human-review", such as one the backend agent opened with its tests failing, is merged all the same when it
  satisfies the rules, which do not look at labels; and the merge takes the label off.
\<close>

theorem human_review_is_bypassed:
  assumes "eligible pr n" and "list_all file_safe files" and "mergeable pr files status"
    and "\<And>s. json_reply (fst (H (Gh (Get_Pr_Files n)) s)) = Inr v" and "elements v = Inr files"
    and "\<And>s. json_reply (fst (H (Gh (Get_Pr_Status n)) s)) = Inr status"
    and "\<And>s e. fst (H (Gh (Approve_Pr n)) s) = A_Err e \<Longrightarrow> is_github_error e"
    and "json_index pr ''title'' = Inr t" and "json_get pr ''body'' (JStr []) = Inr (JStr b)"
    and "label_names pr = Inr labels" and "JStr ''needs-human-review'' \<in> set labels"
    and "\<And>s e. fst (H (Gh (Merge_Pr n t (JStr (take 500 b)))) s) \<noteq> A_Err e"
  shows "\<exists>r r'. (Gh (Merge_Pr n t (JStr (take 500 b))), r) \<in> set (history H (review_pr pr) s) \<and>
    (Gh (Remove_Label n ''needs-human-review''), r') \<in> set (history H (review_pr pr) s)"
proof -
  have "\<exists>r r'. (Gh (Merge_Pr n t (JStr (take 500 b))), r) \<in> set (history H (auto_merge pr n) s) \<and>
      (Gh (Remove_Label n ''needs-human-review''), r') \<in> set (history H (auto_merge pr n) s)" for s
  proof -
    obtain s1 where 1: "run H (ignoring_github (gh_do (Approve_Pr n))) s = (Inr (), s1)"
      using approval_passes [of H n s] assms(7) [of s] by auto
    let ?m = "Gh (Merge_Pr n t (JStr (take 500 b)))"
    have 2: "run H (try_merge pr n) s1 = (Inr True, snd (H ?m s1))"
      using assms(12) [of s1]
      by (cases "fst (H ?m s1)") (auto simp: try_merge_def run_catch run_andThen assms(8,9) gh_do_def run_tell)
    have "\<exists>r'. (Gh (Remove_Label n ''needs-human-review''), r') \<in>
        set (history H (ignoring_github (gh_do (Remove_Label n ''needs-human-review''))) s)" for s
      by (auto simp: ignoring_github_def history_catch)
    then have "\<exists>r'. (Gh (Remove_Label n ''needs-human-review''), r') \<in> set (history H (auto_merge pr n) s)"
      using assms(10,11) by (auto simp: auto_merge_def history_andThen 1 2)
    moreover have "\<exists>r. (?m, r) \<in> set (history H (auto_merge pr n) s)"
      by (auto simp: auto_merge_def history_andThen 1 try_merge_def history_catch assms(8,9))
    ultimately show ?thesis by blast
  qed
  moreover obtain s' where "set (history H (auto_merge pr n) s') \<subseteq> set (history H (review_pr pr) s)"
    using review_reaches_merge [of pr n files status H v s] assms(1-6) by auto
  ultimately show ?thesis by blast
qed

subsection \<open>A GitHub to run the agent on\<close>

definition demo_pr :: json where
  "demo_pr = JObj [(''number'', JNum 7), (''title'', JStr ''t''), (''body'', JStr ''## What ## Why ## Test''),
     (''user'', JObj [(''login'', JStr ''kola-doc-agent'')]), (''head'', JObj [(''sha'', JStr ''abc'')])]"

definition demo_files :: "json list" where
  "demo_files = [JObj [(''filename'', JStr ''a.py''), (''additions'', JNum 1), (''patch'', JStr ''+x'')]]"

definition demo_status :: json where
  "demo_status = JObj [(''check_runs'', JList [JObj [(''conclusion'', JStr ''success'')]])]"

definition demo_github :: "json list \<Rightarrow> acmd \<Rightarrow> unit \<Rightarrow> areply \<times> unit" where
  "demo_github files c s =
     (case c of
        Gh List_Open_Prs \<Rightarrow> A_Json (JList [demo_pr])
      | Gh (Get_Pr_Files n) \<Rightarrow> A_Json (JList files)
      | Gh (Get_Pr_Status n) \<Rightarrow> A_Json demo_status
      | _ \<Rightarrow> A_Json JNull, ())"

lemma demo_merge:
  "(Gh (Merge_Pr (JNum 7) (JStr ''t'') (JStr ''## What ## Why ## Test'')), A_Json JNull) \<in>
     set (history (demo_github demo_files) heartbeat ())"
  by code_simp

theorem ceo_merges_only_mergeable_witness:
  "\<exists>pr files status. listed (history (demo_github demo_files) heartbeat ()) pr \<and> eligible pr (JNum 7) \<and>
    reviewed (history (demo_github demo_files) heartbeat ()) (JNum 7) files status \<and> list_all file_safe files \<and>
    mergeable pr files status"
  by (rule ceo_merges_only_mergeable [OF demo_merge])

definition bad_files :: "json list" where
  "bad_files = [JObj [(''filename'', JStr ''CODEOWNERS'')]]"

lemma demo_close: "(Gh (Close_Pr (JNum 7)), A_Json JNull) \<in> set (history (demo_github bad_files) heartbeat ())"
  by code_simp

theorem ceo_closes_only_unsafe_witness:
  "\<exists>pr files status. listed (history (demo_github bad_files) heartbeat ()) pr \<and> eligible pr (JNum 7) \<and>
    reviewed (history (demo_github bad_files) heartbeat ()) (JNum 7) files status \<and> \<not> list_all file_safe files"
  using ceo_closes_only_unsafe [OF demo_close] by simp

theorem ceo_merges_what_it_may_witness:
  "\<exists>r. (Gh (Merge_Pr (JNum 7) (JStr ''t'') (JStr (take 500 ''## What ## Why ## Test''))), r) \<in>
     set (history (demo_github demo_files) (review_pr demo_pr) ())"
proof (rule ceo_merges_what_it_may [where files = demo_files and status = demo_status and v = "JList demo_files"])
  have "json_index demo_pr ''number'' = Inr (JNum 7)" "is_agent_pr demo_pr = Inr True"
    "json_get demo_pr ''draft'' JNull = Inr JNull"
    by code_simp+
  then show "eligible demo_pr (JNum 7)" by (simp add: eligible_def)
  have "check_charter_4 demo_pr demo_files = Inr accepted" "check_charter_3 demo_pr demo_files demo_status = Inr accepted"
    by code_simp+
  then show "list_all file_safe demo_files" "mergeable demo_pr demo_files demo_status"
    by (simp_all add: charter_3_accepts charter_4_accepts)
qed (simp_all add: demo_github_def demo_pr_def)

text \<open>The same pull request with the label: it is merged, and the label is taken off.\<close>

definition marked_pr :: json where
  "marked_pr = JObj [(''number'', JNum 7), (''title'', JStr ''t''), (''body'', JStr ''## What ## Why ## Test''),
     (''user'', JObj [(''login'', JStr ''kola-team-bot'')]), (''head'', JObj [(''sha'', JStr ''abc'')]),
     (''labels'', JList [JObj [(''name'', JStr ''needs-human-review'')]])]"

theorem human_review_is_bypassed_witness:
  "\<exists>r r'. (Gh (Merge_Pr (JNum 7) (JStr ''t'') (JStr (take 500 ''## What ## Why ## Test''))), r) \<in>
     set (history (demo_github demo_files) (review_pr marked_pr) ()) \<and>
     (Gh (Remove_Label (JNum 7) ''needs-human-review''), r') \<in> set (history (demo_github demo_files) (review_pr marked_pr) ())"
proof (rule human_review_is_bypassed [where files = demo_files and status = demo_status and v = "JList demo_files" and
      labels = "[JStr ''needs-human-review'']"])
  have "json_index marked_pr ''number'' = Inr (JNum 7)" "is_agent_pr marked_pr = Inr True"
    "json_get marked_pr ''draft'' JNull = Inr JNull"
    by code_simp+
  then show "eligible marked_pr (JNum 7)" by (simp add: eligible_def)
  have "check_charter_4 marked_pr demo_files = Inr accepted" "check_charter_3 marked_pr demo_files demo_status = Inr accepted"
    by code_simp+
  then show "list_all file_safe demo_files" "mergeable marked_pr demo_files demo_status"
    by (simp_all add: charter_3_accepts charter_4_accepts)
qed (simp_all add: demo_github_def marked_pr_def label_names_def)

end
