(* ===== verification/Github_App.thy ===== *)
theory Github_App
  imports Orch_Config Ceo
begin

text \<open>
  \<open>orchestrator/github_app.py\<close>: the GitHub client. Its methods are programs over HTTP requests and the two
  fields that cache the access token; \<open>github_call\<close> is the program of each command the agents use,
  and replacing every command by its program turns an agent into one over HTTP. An expiry is read as GitHub writes
  it, in UTC to the second.
\<close>

subsection \<open>The level of HTTP\<close>

datatype body = No_Body | Json_Body json | Comment_Body comment | Merge_Body json json | Pr_Body string string json json string

datatype hcmd =
    Lock_Acquire
  | Lock_Release
  | Get_Token
  | Set_Token json
  | Get_Expires
  | Set_Expires int
  | Clock \<comment> \<open>the time in UTC, in microseconds\<close>
  | Key_Exists string
  | Key_Read string
  | Jwt_Encode int int string string
  | Post_Access_Token string string
  | Request string string json string body "(string \<times> string) list" \<comment> \<open>method, path, token, media type\<close>
  | Other acmd

datatype hreply =
    H_Nil
  | H_Json json
  | H_Int int
  | H_Bool bool
  | H_Text string
  | H_Response int string "json option" \<comment> \<open>status, text, and the text read as JSON\<close>
  | H_Err exn
  | H_Other areply

type_synonym 'a http = "(hcmd, hreply, exn + 'a) tree"

record gctx =
  gsettings :: settings
  team_root :: string
  resolve :: "string \<Rightarrow> string" \<comment> \<open>the path without links and dots\<close>

definition hask :: "hcmd \<Rightarrow> hreply http" where
  "hask c = Call c (\<lambda>r. Ret (case r of H_Err e \<Rightarrow> Inl e | _ \<Rightarrow> Inr r))"

definition htell :: "hcmd \<Rightarrow> unit http" where
  "htell c = andThen (hask c) (\<lambda>_. return ())"

definition hresult :: "exn + 'a \<Rightarrow> 'a http" where
  "hresult x = Ret x"

subsection \<open>The access token\<close>

definition TOKEN_RENEW_MARGIN_S :: int where
  "TOKEN_RENEW_MARGIN_S = 600"

text \<open>\<open>s.replace("Z", "+00:00")\<close>\<close>

definition utc_offset :: "string \<Rightarrow> string" where
  "utc_offset s = concat (map (\<lambda>c. if c = CHR ''Z'' then ''+00:00'' else [c]) s)"

definition key_path :: "gctx \<Rightarrow> string" where
  "key_path g = (let p = gh_app_key_path (gsettings g) in if has_prefix ''/'' p then p else resolve g (team_root g @ ''/'' @ p))"

text \<open>What \<open>_refresh\<close> does with the reply of GitHub.\<close>

definition store_token :: "hreply \<Rightarrow> unit http" where
  "store_token r =
     (case r of
        H_Response status text body \<Rightarrow>
          if status \<noteq> 201 then
            raise (GitHubAppError (''echec g'' @ [CHR 0xE9] @ ''n'' @ [CHR 0xE9] @ ''ration installation token : '' @
              show_int status @ '' '' @ take 300 text))
          else
            (case body of
               None \<Rightarrow> raise (ValueError ''Expecting value'')
             | Some d \<Rightarrow>
                 andThen (hresult (json_index d ''token'')) (\<lambda>tok.
                 andThen (htell (Set_Token tok)) (\<lambda>_.
                 andThen (hresult (ebind (json_index d ''expires_at'') text_method)) (\<lambda>ea.
                 case from_iso (utc_offset ea) of
                   None \<Rightarrow> raise (ValueError ''Invalid isoformat string'')
                 | Some us \<Rightarrow> htell (Set_Expires us)))))
      | _ \<Rightarrow> raise (AttributeError ''object has no attribute status_code''))"

definition token_path :: "gctx \<Rightarrow> string" where
  "token_path g = ''/app/installations/'' @ gh_app_installation_id (gsettings g) @ ''/access_tokens''"

definition refresh :: "gctx \<Rightarrow> unit http" where
  "refresh g =
     (if gh_app_id (gsettings g) = [] \<or> gh_app_installation_id (gsettings g) = [] then
        raise (GitHubAppError ''KOLA_TEAM_APP_ID ou KOLA_TEAM_APP_INSTALLATION_ID manquant dans .env'')
      else
        andThen (hask (Key_Exists (key_path g))) (\<lambda>ex.
        if ex \<noteq> H_Bool True then
          raise (GitHubAppError (''cl'' @ [CHR 0xE9] @ '' priv'' @ [CHR 0xE9] @ ''e GitHub App introuvable : '' @ key_path g))
        else
          andThen (hask (Key_Read (key_path g))) (\<lambda>pem.
          andThen (hask Clock) (\<lambda>t.
          let now = (case t of H_Int us \<Rightarrow> us div 1000000 | _ \<Rightarrow> 0) in
          andThen (hask (Jwt_Encode (now - 60) (now + 540) (gh_app_id (gsettings g))
              (case pem of H_Text p \<Rightarrow> p | _ \<Rightarrow> []))) (\<lambda>jwt.
          andThen (hask (Post_Access_Token
              (token_path g)
              (case jwt of H_Text j \<Rightarrow> j | _ \<Rightarrow> []))) store_token)))))"

text \<open>The token in the cache when it is there with an expiry more than the margin away.\<close>

definition cached_token :: "json option http" where
  "cached_token =
     andThen (hask Get_Token) (\<lambda>t.
     andThen (hask Get_Expires) (\<lambda>x.
     case (t, x) of
       (H_Json tok, H_Int us) \<Rightarrow>
         if \<not> truthy tok then return None
         else
           andThen (hask Clock) (\<lambda>now.
           case now of
             H_Int n \<Rightarrow> return (if us - n > TOKEN_RENEW_MARGIN_S * 1000000 then Some tok else None)
           | _ \<Rightarrow> raise (TypeError ''unsupported operand''))
     | _ \<Rightarrow> return None))"

definition token :: "gctx \<Rightarrow> json http" where
  "token g =
     andThen (htell Lock_Acquire) (\<lambda>_.
     finally_do
       (andThen cached_token (\<lambda>c.
        case c of
          Some tok \<Rightarrow> return tok
        | None \<Rightarrow>
            andThen (refresh g) (\<lambda>_.
            andThen (hask Get_Token) (\<lambda>t.
            case t of
              H_Json tok \<Rightarrow> if truthy tok then return tok else raise (OtherException ''AssertionError'')
            | _ \<Rightarrow> raise (OtherException ''AssertionError'')))))
       (htell Lock_Release))"

subsection \<open>Requests\<close>

text \<open>The text of an error, with \<open>->\<close> for the arrow of the source.\<close>

definition failure_text :: "string \<Rightarrow> string \<Rightarrow> int \<Rightarrow> string \<Rightarrow> string" where
  "failure_text method path status text = method @ '' '' @ path @ '' -> '' @ show_int status @ '' : '' @ text"

definition req :: "gctx \<Rightarrow> string \<Rightarrow> string \<Rightarrow> body \<Rightarrow> (string \<times> string) list \<Rightarrow> json http" where
  "req g method path b params =
     andThen (token g) (\<lambda>tok.
     andThen (hask (Request method path tok ''application/vnd.github+json'' b params)) (\<lambda>r.
     case r of
       H_Response status text body \<Rightarrow>
         if status \<ge> 400 then raise (GitHubAppError (failure_text method path status (take 400 text)))
         else if status = 204 \<or> text = [] then return JNull
         else (case body of None \<Rightarrow> raise (ValueError ''Expecting value'') | Some j \<Rightarrow> return j)
     | _ \<Rightarrow> raise (AttributeError ''object has no attribute status_code'')))"

definition repo_path :: "gctx \<Rightarrow> string" where
  "repo_path g = ''/repos/'' @ gh_repo (gsettings g)"

definition pull_path :: "gctx \<Rightarrow> json \<Rightarrow> string" where
  "pull_path g n = repo_path g @ ''/pulls/'' @ py_str n"

definition issue_path :: "gctx \<Rightarrow> json \<Rightarrow> string" where
  "issue_path g n = repo_path g @ ''/issues/'' @ py_str n"

definition get_pr :: "gctx \<Rightarrow> json \<Rightarrow> json http" where
  "get_pr g n = req g ''GET'' (pull_path g n) No_Body []"

text \<open>A workflow run as a check run.\<close>

definition check_of_run :: "json \<Rightarrow> exn + json" where
  "check_of_run r =
     ebind (json_index r ''name'') (\<lambda>n.
     ebind (json_index r ''status'') (\<lambda>s.
     ebind (json_get r ''conclusion'' JNull) (\<lambda>c.
     Inr (JObj [(''name'', n), (''status'', s), (''conclusion'', c)]))))"

fun checks_of_runs :: "json list \<Rightarrow> exn + json list" where
  "checks_of_runs [] = Inr []"
| "checks_of_runs (r # rs) = ebind (check_of_run r) (\<lambda>c. ebind (checks_of_runs rs) (\<lambda>cs. Inr (c # cs)))"

definition status_of_runs :: "json \<Rightarrow> exn + json" where
  "status_of_runs runs =
     ebind (json_get runs ''total_count'' (JNum 0)) (\<lambda>total.
     ebind (json_get runs ''workflow_runs'' (JList [])) (\<lambda>rs.
     ebind (elements rs) (\<lambda>rs.
     ebind (checks_of_runs rs) (\<lambda>cs.
     Inr (JObj [(''total_count'', total), (''check_runs'', JList cs)])))))"

definition get_pr_status :: "gctx \<Rightarrow> json \<Rightarrow> json http" where
  "get_pr_status g n =
     andThen (get_pr g n) (\<lambda>pr.
     andThen (hresult (ebind (json_index pr ''head'') (\<lambda>h. json_index h ''sha''))) (\<lambda>sha.
     catch (req g ''GET'' (repo_path g @ ''/commits/'' @ py_str sha @ ''/check-runs'') No_Body [])
       (\<lambda>e. if is_github_error e \<and> contains ''403'' (exn_str e) then
              andThen (req g ''GET'' (repo_path g @ ''/actions/runs'') No_Body
                  [(''head_sha'', py_str sha), (''per_page'', ''50'')]) (\<lambda>runs.
              hresult (status_of_runs runs))
            else raise e)))"

definition remove_label :: "gctx \<Rightarrow> json \<Rightarrow> string \<Rightarrow> json http" where
  "remove_label g n label =
     andThen (token g) (\<lambda>tok.
     andThen (hask (Request ''DELETE'' (issue_path g n @ ''/labels/'' @ label) tok ''application/vnd.github+json'' No_Body []))
       (\<lambda>r.
     case r of
       H_Response status text body \<Rightarrow>
         if status = 404 then return JNull
         else if status \<ge> 400 then
           raise (GitHubAppError (failure_text ''DELETE'' (''label '' @ label) status (take 200 text)))
         else if text = [] then return JNull
         else (case body of None \<Rightarrow> raise (ValueError ''Expecting value'') | Some j \<Rightarrow> return j)
     | _ \<Rightarrow> raise (AttributeError ''object has no attribute status_code'')))"

text \<open>The list of issues, without the pull requests among them.\<close>

fun without_prs :: "json list \<Rightarrow> exn + json list" where
  "without_prs [] = Inr []"
| "without_prs (i # is) =
     ebind (text_in ''pull_request'' i) (\<lambda>b. ebind (without_prs is) (\<lambda>r. Inr (if b then r else i # r)))"

definition list_open_issues :: "gctx \<Rightarrow> string list \<Rightarrow> json http" where
  "list_open_issues g labels =
     andThen (req g ''GET'' (repo_path g @ ''/issues'') No_Body
         ([(''state'', ''open''), (''per_page'', ''50'')] @ (if labels = [] then [] else [(''labels'', joined '','' labels)])))
       (\<lambda>v. hresult (ebind (elements v) (\<lambda>l. ebind (without_prs l) (\<lambda>r. Inr (JList r)))))"

definition get_repo :: "gctx \<Rightarrow> json http" where
  "get_repo g = req g ''GET'' (repo_path g) No_Body []"

definition get_file_contents :: "gctx \<Rightarrow> string \<Rightarrow> string \<Rightarrow> string option http" where
  "get_file_contents g path ref =
     andThen (token g) (\<lambda>tok.
     andThen (hask (Request ''GET'' (repo_path g @ ''/contents/'' @ path) tok ''application/vnd.github.raw'' No_Body
         [(''ref'', ref)])) (\<lambda>r.
     case r of
       H_Response status text _ \<Rightarrow>
         if status = 404 then return None
         else if status \<ge> 400 then
           raise (GitHubAppError (failure_text ''GET'' (''file '' @ path @ ''@'' @ ref) status (take 200 text)))
         else return (Some text)
     | _ \<Rightarrow> raise (AttributeError ''object has no attribute status_code'')))"

fun github_call :: "gctx \<Rightarrow> gh_cmd \<Rightarrow> json http" where
  "github_call g List_Open_Prs =
     req g ''GET'' (repo_path g @ ''/pulls'') No_Body [(''state'', ''open''), (''per_page'', ''50'')]"
| "github_call g (Get_Pr_Files n) = req g ''GET'' (pull_path g n @ ''/files'') No_Body [(''per_page'', ''100'')]"
| "github_call g (Get_Pr_Status n) = get_pr_status g n"
| "github_call g (Comment_Pr n t) = req g ''POST'' (issue_path g n @ ''/comments'') (Comment_Body t) []"
| "github_call g (Close_Pr n) =
     req g ''PATCH'' (pull_path g n) (Json_Body (JObj [(''state'', JStr ''closed'')])) []"
| "github_call g (Approve_Pr n) =
     req g ''POST'' (pull_path g n @ ''/reviews'') (Json_Body (JObj [(''event'', JStr ''APPROVE''),
       (''body'', JStr (''Auto-approved by CEO Agent (charte '' @ [CHR 0xA7] @ ''3, all conditions met).''))])) []"
| "github_call g (Merge_Pr n title b) = req g ''PUT'' (pull_path g n @ ''/merge'') (Merge_Body title b) []"
| "github_call g (Add_Labels n ls) =
     req g ''POST'' (issue_path g n @ ''/labels'') (Json_Body (JObj [(''labels'', JList (map JStr ls))])) []"
| "github_call g (Remove_Label n l) = remove_label g n l"
| "github_call g (List_Open_Issues ls) = list_open_issues g ls"
| "github_call g (Comment_Issue n t) = req g ''POST'' (issue_path g n @ ''/comments'') (Comment_Body t) []"
| "github_call g (List_Issue_Comments n) = req g ''GET'' (issue_path g n @ ''/comments'') No_Body [(''per_page'', ''100'')]"
| "github_call g (Set_Issue_Labels n ls) =
     req g ''PUT'' (issue_path g n @ ''/labels'') (Json_Body (JObj [(''labels'', JList ls)])) []"
| "github_call g (Create_Pull_Request summary why test issue head) =
     req g ''POST'' (repo_path g @ ''/pulls'') (Pr_Body summary why test issue head) []"


text \<open>An agent over HTTP.\<close>

fun other_reply :: "hreply \<Rightarrow> areply" where
  "other_reply (H_Other a) = a"
| "other_reply (H_Err e) = A_Err e"
| "other_reply _ = A_Nil"

fun agent_impl :: "gctx \<Rightarrow> acmd \<Rightarrow> (hcmd, hreply, areply) tree" where
  "agent_impl g (Gh c) = bind (github_call g c) (\<lambda>x. Ret (case x of Inl e \<Rightarrow> A_Err e | Inr v \<Rightarrow> A_Json v))"
| "agent_impl g c = Call (Other c) (\<lambda>r. Ret (other_reply r))"

subsection \<open>Rules for runs\<close>

lemma run_hask: "run H (hask c) s = (case fst (H c s) of H_Err e \<Rightarrow> Inl e | r \<Rightarrow> Inr r, snd (H c s))"
  by (cases "fst (H c s)") (simp_all add: hask_def)

lemma history_hask [simp]:
  "history H (hask c) s = [(c, fst (H c s))]" "history H (htell c) s = [(c, fst (H c s))]"
  by (simp_all add: hask_def htell_def history_andThen split: prod.splits sum.splits)

lemma history_hresult [simp]: "history H (hresult x) s = []"
  by (simp add: hresult_def)

lemma run_hresult [simp]: "run H (hresult x) s = (x, s)"
  by (simp add: hresult_def)

lemma only_http [only_rules]:
  "ok c \<Longrightarrow> only ok (hask c)" "ok c \<Longrightarrow> only ok (htell c)" "only ok (hresult x)"
proof -
  show 1: "ok c \<Longrightarrow> only ok (hask c)" for c by (simp add: only_def hask_def)
  then show "ok c \<Longrightarrow> only ok (htell c)" by (auto simp: htell_def only_def wp_andThen intro!: only_wp split: sum.splits)
  show "only ok (hresult x)" by (simp add: only_def hresult_def)
qed

lemma only_pure_http [only_rules]: "only ok (return a)" "only ok (raise e)"
  by (simp_all add: only_def)

text \<open>Only \<open>req\<close>, \<open>remove_label\<close> and the two readers send requests, each the one it names.\<close>

definition sends :: "(string \<Rightarrow> string \<Rightarrow> bool) \<Rightarrow> hcmd \<Rightarrow> bool" where
  "sends P c \<longleftrightarrow> (case c of Request m p _ _ _ _ \<Rightarrow> P m p | _ \<Rightarrow> True)"

lemma only_token: "only (sends P) (token g)"
  unfolding token_def cached_token_def refresh_def store_token_def Let_def
  by (auto intro!: only_rules simp: sends_def split: hreply.splits option.splits)

lemma only_req: "P m p \<Longrightarrow> only (sends P) (req g m p b ps)"
  unfolding req_def by (auto intro!: only_rules only_token simp: sends_def split: hreply.splits option.splits)


lemma github_merges:
  assumes "\<And>n t b. c \<noteq> Merge_Pr n t b"
  shows "only (sends (\<lambda>m p. \<not> (m = ''PUT'' \<and> has_suffix ''/merge'' p))) (github_call g c)"
  using assms
  by (cases c) (auto intro!: only_rules only_req only_token
    simp: get_pr_status_def get_pr_def remove_label_def list_open_issues_def sends_def issue_path_def has_suffix_def
    split: hreply.splits option.splits)


lemma only_impl: "only ok (github_call g c) \<Longrightarrow> only ok (agent_impl g (Gh c))"
  unfolding only_def by (simp add: wp_mono)

lemma agent_merges:
  assumes "(Request ''PUT'' p tok mt b ps, q) \<in> set (history H (agent_impl g c) s)" and "has_suffix ''/merge'' p"
  shows "\<exists>n t b. c = Gh (Merge_Pr n t b) \<and> p = pull_path g n @ ''/merge''"
proof -
  obtain c' where c: "c = Gh c'"
    using assms(1) by (cases "(g, c)" rule: agent_impl.cases) auto
  have "\<exists>n t b. c' = Merge_Pr n t b"
  proof (rule ccontr)
    assume "\<not> ?thesis"
    then have "only (sends (\<lambda>m p. \<not> (m = ''PUT'' \<and> has_suffix ''/merge'' p))) (agent_impl g c)"
      unfolding c by (intro only_impl github_merges) blast
    from only_history [OF this assms(1)] assms(2) show False by (simp add: sends_def)
  qed
  then obtain n t b where m: "c' = Merge_Pr n t b" by blast
  have "only (sends (\<lambda>m p. p = pull_path g n @ ''/merge'')) (github_call g c')"
    by (simp add: m only_req)
  from only_history [OF only_impl [OF this] assms(1) [unfolded c]] have "p = pull_path g n @ ''/merge''"
    by (simp add: sends_def)
  with c m show ?thesis by blast
qed

text \<open>
  C15. A request to GitHub that merges a pull request, in any run of the CEO agent over HTTP, is for
  a pull request of an agent that is in the list of open ones, no draft, and whose files and
  checks, as the client reported them in that run, satisfy both sets of rules.
\<close>

theorem merge_request_within_rules:
  assumes "(Request ''PUT'' p tok mt b ps, q) \<in> set (history H (layered (agent_impl g) heartbeat) s)"
    and "has_suffix ''/merge'' p"
  shows "\<exists>pr n files status. p = pull_path g n @ ''/merge'' \<and>
    (let h = history (\<lambda>c. run H (agent_impl g c)) heartbeat s
     in listed h pr \<and> eligible pr n \<and> reviewed h n files status \<and> list_all file_safe files \<and>
        mergeable pr files status)"
proof -
  let ?A = "\<lambda>c. run H (agent_impl g c)"
  obtain c s' where c: "(c, fst (?A c s')) \<in> set (history ?A heartbeat s)"
      "(Request ''PUT'' p tok mt b ps, q) \<in> set (history H (agent_impl g c) s')"
    using history_layered [OF assms(1)] by blast
  obtain n t b where m: "c = Gh (Merge_Pr n t b)" and p: "p = pull_path g n @ ''/merge''"
    using agent_merges [OF c(2) assms(2)] by blast
  have "changes_pr c = Some n" by (simp add: m)
  from heartbeat_history [OF c(1) this] obtain pr n' files status s''
    where *: "listed (history ?A heartbeat s) pr" "eligible pr n'" "reviewed (history ?A heartbeat s) n' files status"
      and a: "(c, fst (?A c s')) \<in> set (history ?A (act_on pr n' files status) s'')"
    by blast
  have "n = n'" using only_history [OF act_only [of n' pr files status] a] m by simp
  with * p act_merges [OF a] show ?thesis by (auto simp: m merges_def Let_def)
qed

subsection \<open>The token is fresh\<close>

text \<open>What a run of \<open>token\<close> saw when it gave \<open>tok\<close>: a cached token with more than the margin left, or a
  new one from GitHub, stored before it was given out.\<close>

definition was_cached :: "(hcmd \<times> hreply) list \<Rightarrow> json \<Rightarrow> bool" where
  "was_cached h tok \<longleftrightarrow> (\<exists>us n. (Get_Token, H_Json tok) \<in> set h \<and> (Get_Expires, H_Int us) \<in> set h \<and>
     (Clock, H_Int n) \<in> set h \<and> us - n > TOKEN_RENEW_MARGIN_S * 1000000)"

definition was_renewed :: "gctx \<Rightarrow> (hcmd \<times> hreply) list \<Rightarrow> bool" where
  "was_renewed g h \<longleftrightarrow> (\<exists>jwt text d tok r ea us r'.
     (Post_Access_Token (token_path g) jwt,
        H_Response 201 text (Some d)) \<in> set h \<and>
     json_index d ''token'' = Inr tok \<and> (Set_Token tok, r) \<in> set h \<and>
     ebind (json_index d ''expires_at'') text_method = Inr ea \<and> from_iso (utc_offset ea) = Some us \<and>
     (Set_Expires us, r') \<in> set h)"

lemma run_hask_Inr: "run H (hask c) s = (Inr r, s') \<longleftrightarrow> H c s = (r, s') \<and> (\<forall>e. r \<noteq> H_Err e)"
  by (cases "H c s"; cases "fst (H c s)") (auto simp: run_hask)

lemma run_htell_Inr: "run H (htell c) s = (Inr u, s') \<longleftrightarrow> (\<exists>r. H c s = (r, s') \<and> (\<forall>e. r \<noteq> H_Err e))"
  by (auto simp: htell_def run_andThen_Inr run_hask_Inr)

definition stored :: "hreply \<Rightarrow> (hcmd \<times> hreply) list \<Rightarrow> bool" where
  "stored x h \<longleftrightarrow> (\<exists>text d tok r ea us r'. x = H_Response 201 text (Some d) \<and>
     json_index d ''token'' = Inr tok \<and> (Set_Token tok, r) \<in> set h \<and>
     ebind (json_index d ''expires_at'') text_method = Inr ea \<and> from_iso (utc_offset ea) = Some us \<and>
     (Set_Expires us, r') \<in> set h)"

lemma store_stores:
  assumes "run H (store_token x) s = (Inr (), s')"
  shows "stored x (history H (store_token x) s)"
proof -
  from assms obtain tx d where x: "x = H_Response 201 tx (Some d)"
    by (auto simp: store_token_def split: hreply.splits option.splits if_splits)
  have r: "run H (store_token (H_Response 201 tx (Some d))) s = (Inr (), s')" using assms x by simp
  from r obtain tok where tok: "json_index d ''token'' = Inr tok"
    by (auto simp: store_token_def run_andThen_Inr)
  from r obtain ea us where ea: "ebind (json_index d ''expires_at'') text_method = Inr ea" "from_iso (utc_offset ea) = Some us"
    by (auto simp: store_token_def run_andThen_Inr split: option.splits)
  from r obtain r1 s1 where "H (Set_Token tok) s = (r1, s1)" "\<And>e. r1 \<noteq> H_Err e"
    by (auto simp: store_token_def run_andThen_Inr run_htell_Inr tok)
  then have "run H (htell (Set_Token tok)) s = (Inr (), s1)" by (auto simp: run_htell_Inr)
  then have "history H (store_token x) s =
      [(Set_Token tok, fst (H (Set_Token tok) s)), (Set_Expires us, fst (H (Set_Expires us) s1))]"
    by (simp add: x store_token_def history_andThen tok ea)
  then show ?thesis unfolding stored_def using x tok ea by auto
qed

lemma refresh_renews:
  assumes "run H (refresh g) s = (Inr (), s')"
  shows "was_renewed g (history H (refresh g) s)"
proof -
  let ?iat = "\<lambda>t. (case t of H_Int us \<Rightarrow> us div 1000000 | _ \<Rightarrow> 0)"
  let ?path = "token_path g"
  from assms obtain s1 where 1: "gh_app_id (gsettings g) \<noteq> []" "gh_app_installation_id (gsettings g) \<noteq> []"
      "H (Key_Exists (key_path g)) s = (H_Bool True, s1)"
    by (auto simp: refresh_def run_andThen_Inr run_hask_Inr split: if_splits)
  then have e: "run H (hask (Key_Exists (key_path g))) s = (Inr (H_Bool True), s1)" by (simp add: run_hask)
  obtain pem s2 where 2: "run H (hask (Key_Read (key_path g))) s1 = (Inr pem, s2)"
    using assms 1 by (auto simp: refresh_def run_andThen_Inr e)
  obtain t s3 where 3: "run H (hask Clock) s2 = (Inr t, s3)"
    using assms 1 by (auto simp: refresh_def run_andThen_Inr e 2)
  let ?jwt = "Jwt_Encode (?iat t - 60) (?iat t + 540) (gh_app_id (gsettings g)) (case pem of H_Text p \<Rightarrow> p | _ \<Rightarrow> [])"
  obtain jwt s4 where 4: "run H (hask ?jwt) s3 = (Inr jwt, s4)"
    using assms 1 by (auto simp: refresh_def run_andThen_Inr e 2 3 Let_def)
  let ?post = "Post_Access_Token ?path (case jwt of H_Text j \<Rightarrow> j | _ \<Rightarrow> [])"
  obtain x s5 where 5: "run H (hask ?post) s4 = (Inr x, s5)" and st: "run H (store_token x) s5 = (Inr (), s')"
    using assms 1 by (auto simp: refresh_def run_andThen_Inr e 2 3 4 Let_def)
  have x: "fst (H ?post s4) = x"
    using 5 by (simp add: run_hask_Inr)
  have "history H (refresh g) s = history H (hask (Key_Exists (key_path g))) s @ history H (hask (Key_Read (key_path g))) s1 @
      history H (hask Clock) s2 @ history H (hask ?jwt) s3 @ [(?post, x)] @ history H (store_token x) s5"
    using 1 5 by (auto simp: refresh_def history_after [OF e] history_after [OF 2] history_after [OF 3]
        history_after [OF 4] history_after [OF 5] Let_def x)
  with store_stores [OF st] show ?thesis
    unfolding stored_def was_renewed_def by fastforce
qed


lemma cached_Inr:
  assumes "run H cached_token s = (Inr (Some tok), s')"
  shows "was_cached (history H cached_token s) tok"
proof -
  from assms obtain r1 s1 where 1: "run H (hask Get_Token) s = (Inr r1, s1)" by (auto simp: cached_token_def run_andThen_Inr)
  from assms obtain r2 s2 where 2: "run H (hask Get_Expires) s1 = (Inr r2, s2)"
    by (auto simp: cached_token_def run_andThen_Inr 1)
  from assms obtain t us where r: "r1 = H_Json t" "r2 = H_Int us" "truthy t"
    by (auto simp: cached_token_def run_andThen_Inr 1 2 split: hreply.splits if_splits)
  from assms r obtain x s3 where x: "run H (hask Clock) s2 = (Inr x, s3)"
    by (auto simp: cached_token_def run_andThen_Inr 1 2)
  with assms r obtain n where "x = H_Int n"
    by (cases x) (auto simp: cached_token_def run_andThen_Inr 1 2)
  with x have 3: "run H (hask Clock) s2 = (Inr (H_Int n), s3)" by simp
  have c: "t = tok \<and> us - n > TOKEN_RENEW_MARGIN_S * 1000000"
    using assms by (auto simp: cached_token_def run_andThen 1 2 r 3 split: if_splits)
  have "fst (H Get_Token s) = H_Json t" "fst (H Get_Expires s1) = H_Int us" "fst (H Clock s2) = H_Int n"
    using 1 2 3 r by (simp_all add: run_hask_Inr)
  then have "history H cached_token s = [(Get_Token, H_Json tok), (Get_Expires, H_Int us), (Clock, H_Int n)]"
    using c r(3) by (simp add: cached_token_def history_andThen 1 2 r(1,2) 3)
  then show ?thesis unfolding was_cached_def using c by auto
qed

lemma was_mono: "was_cached h tok \<Longrightarrow> set h \<subseteq> set h' \<Longrightarrow> was_cached h' tok"
  "was_renewed g h \<Longrightarrow> set h \<subseteq> set h' \<Longrightarrow> was_renewed g h'"
  unfolding was_cached_def was_renewed_def by blast+



subsection \<open>A server to run the client on\<close>

text \<open>The world is the cached token and its expiry; the clock stands at noon of the second of January 2026.\<close>

definition demo_gctx :: gctx where
  "demo_gctx = \<lparr> gsettings = \<lparr>litellm_base = [], litellm_key = [], redis_url = [], gh_repo = ''a/b'', gh_app_id = ''1'',
       gh_app_installation_id = ''2'', gh_app_key_path = ''k.pem'', heartbeat_seconds = 300\<rparr>,
     team_root = ''/t'', resolve = id \<rparr>"

definition demo_http :: "hcmd \<Rightarrow> json \<times> int \<Rightarrow> hreply \<times> json \<times> int" where
  "demo_http c s =
     (case c of
        Get_Token \<Rightarrow> (H_Json (fst s), s)
      | Set_Token t \<Rightarrow> (H_Nil, (t, snd s))
      | Get_Expires \<Rightarrow> (H_Int (snd s), s)
      | Set_Expires x \<Rightarrow> (H_Nil, (fst s, x))
      | Clock \<Rightarrow> (H_Int 1767355200000000, s)
      | Key_Exists _ \<Rightarrow> (H_Bool True, s)
      | Key_Read _ \<Rightarrow> (H_Text ''pem'', s)
      | Jwt_Encode _ _ _ _ \<Rightarrow> (H_Text ''jwt'', s)
      | Post_Access_Token _ _ \<Rightarrow>
          (H_Response 201 ''ok'' (Some (JObj [(''token'', JStr ''tok''), (''expires_at'', JStr ''2026-01-02T13:00:00Z'')])), s)
      | Request m p _ _ _ _ \<Rightarrow>
          (H_Response 200 ''ok'' (Some
             (if has_suffix ''/files'' p then JList demo_files
              else if has_suffix ''/check-runs'' p then demo_status
              else if has_suffix ''/pulls'' p then JList [demo_pr]
              else if has_suffix ''/7'' p then demo_pr
              else JNull)), s)
      | _ \<Rightarrow> (H_Nil, s))"

lemma demo_token: "fst (run demo_http (token demo_gctx) (JNull, 0)) = Inr (JStr ''tok'')"
  by code_simp

lemma demo_merge_request:
  "(Request ''PUT'' ''/repos/a/b/pulls/7/merge'' (JStr ''tok'') ''application/vnd.github+json''
      (Merge_Body (JStr ''t'') (JStr ''## What ## Why ## Test'')) [], H_Response 200 ''ok'' (Some JNull))
   \<in> set (history demo_http (layered (agent_impl demo_gctx) heartbeat) (JNull, 0))"
  by code_simp

theorem merge_request_within_rules_witness:
  "\<exists>pr n files status. ''/repos/a/b/pulls/7/merge'' = pull_path demo_gctx n @ ''/merge'' \<and>
    (let h = history (\<lambda>c. run demo_http (agent_impl demo_gctx c)) heartbeat (JNull, 0)
     in listed h pr \<and> eligible pr n \<and> reviewed h n files status \<and> list_all file_safe files \<and>
        mergeable pr files status)"
  by (rule merge_request_within_rules [OF demo_merge_request]) (simp add: has_suffix_def)


end
