(* ===== verification/Worktree.thy ===== *)
theory Worktree
  imports Orch_Config
begin

text \<open>
  \<open>orchestrator/worktree.py\<close>: an agent works in a git worktree of its own, made for one issue and removed when
  it is done. Paths are texts, \<open>/\<close> joins them.
\<close>

subsection \<open>Names\<close>

text \<open>\<open>re.sub(r"[^a-zA-Z0-9]+", "-", s)\<close>\<close>

definition alnum :: "char \<Rightarrow> bool" where
  "alnum c \<longleftrightarrow> (let n = of_char c :: nat in (48 \<le> n \<and> n \<le> 57) \<or> (65 \<le> n \<and> n \<le> 90) \<or> (97 \<le> n \<and> n \<le> 122))"

fun dashed :: "bool \<Rightarrow> string \<Rightarrow> string" where
  "dashed prev [] = []"
| "dashed prev (c # cs) =
     (if alnum c then c # dashed False cs
      else if prev then dashed True cs
      else CHR ''-'' # dashed True cs)"

definition strip_dashes :: "string \<Rightarrow> string" where
  "strip_dashes s = rev (dropWhile (\<lambda>c. c = CHR ''-'') (rev (dropWhile (\<lambda>c. c = CHR ''-'') s)))"

definition slug :: "string \<Rightarrow> string" where
  "slug s = (let t = take 40 (strip_dashes (dashed False (lower s))) in if t = [] then ''task'' else t)"

subsection \<open>Running git\<close>

record roots =
  team_dir :: string
  poc_dir :: string
  worktrees_dir :: string

record worktree =
  wt_path :: string
  wt_branch :: string

text \<open>A process: its exit code, output and error output.\<close>

definition run_process :: "string list \<Rightarrow> string option \<Rightarrow> (int \<times> string \<times> string) agent" where
  "run_process args cwd =
     andThen (ask (Run_Process args cwd)) (\<lambda>r.
     case r of A_Process code out err \<Rightarrow> return (code, out, err) | _ \<Rightarrow> raise (OtherException ''no such process''))"

definition git :: "string list \<Rightarrow> string \<Rightarrow> (int \<times> string \<times> string) agent" where
  "git args cwd = run_process (''git'' # args) (Some cwd)"

definition path_exists :: "string \<Rightarrow> bool agent" where
  "path_exists p = andThen (ask (Path_Exists p)) (\<lambda>r. return (r = A_Bool True))"

text \<open>What the error texts of the source end with, an accent as its Latin-1 code.\<close>

definition failed_text :: "string" where
  "failed_text = '' a '' @ [CHR 0xE9] @ ''chou'' @ [CHR 0xE9] @ '' : ''"

definition ensure_base_uptodate :: "roots \<Rightarrow> unit agent" where
  "ensure_base_uptodate rt =
     andThen (path_exists (poc_dir rt)) (\<lambda>ex.
     if \<not> ex then raise (WorktreeError (''POC repo introuvable : '' @ poc_dir rt))
     else
       andThen (git [''fetch'', ''origin'', ''main'', ''--quiet''] (poc_dir rt)) (\<lambda>(code, _, err).
       if code \<noteq> 0 then raise (WorktreeError (''git fetch origin main'' @ failed_text @ strip err)) else return ()))"

definition configure_one :: "string \<Rightarrow> string \<Rightarrow> string \<Rightarrow> unit agent" where
  "configure_one wt_dir k v =
     andThen (git [''config'', ''--local'', k, v] wt_dir) (\<lambda>(code, _, err).
     if code \<noteq> 0 then raise (WorktreeError (''git config '' @ k @ failed_text @ strip err)) else return ())"

definition configure_identity :: "string \<Rightarrow> role \<Rightarrow> unit agent" where
  "configure_identity wt_dir rl =
     andThen (configure_one wt_dir ''user.name'' (git_name rl)) (\<lambda>_.
     configure_one wt_dir ''user.email'' (git_email rl))"

definition hook_script :: "roots \<Rightarrow> string" where
  "hook_script rt = team_dir rt @ ''/scripts/install-precommit-hook.sh''"

definition install_hook :: "roots \<Rightarrow> string \<Rightarrow> unit agent" where
  "install_hook rt wt_dir =
     (let script = hook_script rt in
      andThen (path_exists script) (\<lambda>ex.
      if \<not> ex then raise (WorktreeError (''hook installer introuvable : '' @ script))
      else
        andThen (run_process [''bash'', script, wt_dir] None) (\<lambda>(code, _, err).
        if code \<noteq> 0 then raise (WorktreeError (''install-precommit-hook'' @ failed_text @ strip err))
        else return ())))"

definition branch_name :: "role \<Rightarrow> json \<Rightarrow> string \<Rightarrow> string" where
  "branch_name rl issue_id title = ''agents/'' @ role_name rl @ ''/'' @ py_str issue_id @ ''-'' @ slug title"

definition worktree_dir :: "roots \<Rightarrow> role \<Rightarrow> json \<Rightarrow> string \<Rightarrow> string" where
  "worktree_dir rt rl issue_id title = worktrees_dir rt @ ''/'' @ role_name rl @ ''/'' @ py_str issue_id @ ''-'' @ slug title"

definition create_worktree :: "roots \<Rightarrow> role \<Rightarrow> json \<Rightarrow> json \<Rightarrow> worktree agent" where
  "create_worktree rt rl issue_id title =
     andThen (of_result (text_method title)) (\<lambda>title.
     let branch = branch_name rl issue_id title;
         wt_dir = worktree_dir rt rl issue_id title;
         wt = \<lparr>wt_path = wt_dir, wt_branch = branch\<rparr> in
     andThen (tell (Make_Dirs (worktrees_dir rt))) (\<lambda>_.
     andThen (path_exists wt_dir) (\<lambda>ex.
     if ex then
       andThen (git [''rev-parse'', ''--abbrev-ref'', ''HEAD''] wt_dir) (\<lambda>(code, out, _).
       if code = 0 \<and> strip out = branch then
         andThen (configure_identity wt_dir rl) (\<lambda>_.
         andThen (install_hook rt wt_dir) (\<lambda>_.
         return wt))
       else raise (WorktreeError (''worktree path existe avec mauvaise branche : '' @ wt_dir)))
     else
       andThen (git [''worktree'', ''add'', ''-b'', branch, wt_dir, ''origin/main''] (poc_dir rt)) (\<lambda>(code, _, err).
       if code \<noteq> 0 then raise (WorktreeError (''git worktree add'' @ failed_text @ strip err))
       else
         andThen (configure_identity wt_dir rl) (\<lambda>_.
         andThen (install_hook rt wt_dir) (\<lambda>_.
         return wt))))))"

text \<open>\<open>shutil.rmtree(p, ignore_errors=True)\<close> does not raise.\<close>

definition remove_worktree :: "roots \<Rightarrow> worktree \<Rightarrow> bool \<Rightarrow> unit agent" where
  "remove_worktree rt wt force =
     andThen (git ([''worktree'', ''remove'', wt_path wt] @ (if force then [''--force''] else [])) (poc_dir rt))
       (\<lambda>(code, _, err).
     if code = 0 then return ()
     else
       andThen (path_exists (wt_path wt)) (\<lambda>ex.
       andThen (if ex then Call (Remove_Tree (wt_path wt)) (\<lambda>_. return ()) else return ()) (\<lambda>_.
       andThen (git [''worktree'', ''prune''] (poc_dir rt)) (\<lambda>_. return ()))))"

subsection \<open>The names are safe\<close>

definition slug_char :: "char \<Rightarrow> bool" where
  "slug_char c \<longleftrightarrow> (let n = of_char c :: nat in (48 \<le> n \<and> n \<le> 57) \<or> (97 \<le> n \<and> n \<le> 122) \<or> n = 45)"

lemma lower_alnum: "alnum (lower_char c) \<Longrightarrow> slug_char (lower_char c)"
  by (auto simp: alnum_def slug_char_def lower_char_def Let_def)

lemma dashed_chars: "c \<in> set (dashed prev (map lower_char s)) \<Longrightarrow> slug_char c"
proof (induction s arbitrary: prev)
  case (Cons d s)
  have "slug_char CHR ''-''" by (simp add: slug_char_def)
  with Cons show ?case by (auto simp: lower_alnum split: if_splits)
qed simp

lemma set_strip_dashes: "c \<in> set (strip_dashes s) \<Longrightarrow> c \<in> set s"
  by (auto simp: strip_dashes_def dest!: set_dropWhileD)

lemma rstrip_prefix: "\<exists>t. u = rev (dropWhile P (rev u)) @ t"
  by (metis rev_append rev_rev_ident takeWhile_dropWhile_id)

lemma hd_strip_dashes: "strip_dashes s \<noteq> [] \<Longrightarrow> hd (strip_dashes s) \<noteq> CHR ''-''"
proof -
  let ?u = "dropWhile (\<lambda>c. c = CHR ''-'') s"
  assume ne: "strip_dashes s \<noteq> []"
  obtain t where t: "?u = strip_dashes s @ t"
    using rstrip_prefix unfolding strip_dashes_def by blast
  with ne have "?u \<noteq> []" "hd ?u = hd (strip_dashes s)" by (simp_all add: hd_append)
  then show ?thesis using hd_dropWhile [of "\<lambda>c. c = CHR ''-''" s] by metis
qed

text \<open>
  The name of a branch or a directory made from the title of an issue, whatever the title is, is not empty,
  at most 40 characters of lower case letters, digits and dashes, and does not begin with a dash:
  it is one component of a path and never an option of git.
\<close>

theorem slug_is_safe:
  "slug s \<noteq> [] \<and> length (slug s) \<le> 40 \<and> list_all slug_char (slug s) \<and> hd (slug s) \<noteq> CHR ''-''"
proof -
  let ?d = "strip_dashes (dashed False (lower s))" and ?t = "take 40 (strip_dashes (dashed False (lower s)))"
  have "list_all slug_char ?t"
    by (auto simp: list_all_iff lower_def dest!: in_set_takeD set_strip_dashes dashed_chars)
  moreover have "hd ?t \<noteq> CHR ''-''" if "?t \<noteq> []"
    using that hd_strip_dashes [of "dashed False (lower s)"] by (cases ?d) auto
  moreover have "list_all slug_char ''task''" by (simp add: slug_char_def)
  ultimately show ?thesis by (auto simp: slug_def Let_def)
qed

subsection \<open>A worktree has its hook\<close>

text \<open>What ran well before a worktree is handed out.\<close>

definition process_ok :: "string list \<Rightarrow> string option \<Rightarrow> (acmd \<times> areply) list \<Rightarrow> bool" where
  "process_ok args cwd h \<longleftrightarrow> (\<exists>out err. (Run_Process args cwd, A_Process 0 out err) \<in> set h)"

definition prepared :: "roots \<Rightarrow> role \<Rightarrow> string \<Rightarrow> (acmd \<times> areply) list \<Rightarrow> bool" where
  "prepared rt rl d h \<longleftrightarrow>
     process_ok [''git'', ''config'', ''--local'', ''user.name'', git_name rl] (Some d) h \<and>
     process_ok [''git'', ''config'', ''--local'', ''user.email'', git_email rl] (Some d) h \<and>
     process_ok [''bash'', hook_script rt, d] None h"

lemma run_process_Inr:
  "run H (run_process args cwd) s = (Inr (code, out, err), s') \<longleftrightarrow> H (Run_Process args cwd) s = (A_Process code out err, s')"
  by (cases "H (Run_Process args cwd) s"; cases "fst (H (Run_Process args cwd) s)")
    (auto simp: run_process_def run_andThen run_ask)

lemma history_process [simp]: "history H (run_process args cwd) s = [(Run_Process args cwd, fst (H (Run_Process args cwd) s))]"
  by (auto simp: run_process_def history_andThen split: prod.splits sum.splits areply.splits)

lemma configure_one_Inr:
  "run H (configure_one d k v) s = (Inr (), s') \<Longrightarrow>
     process_ok [''git'', ''config'', ''--local'', k, v] (Some d) (history H (configure_one d k v) s)"
  unfolding configure_one_def process_ok_def git_def
  by (auto simp: run_andThen_Inr run_process_Inr history_andThen split: if_splits prod.splits sum.splits)

lemma andThen_result: "andThen (of_result (Inr x)) f = f x" "andThen (return x) f = f x"
  by (simp_all add: andThen_def of_result_def return_def)

lemma install_hook_Inr:
  assumes "run H (install_hook rt d) s = (Inr (), s')"
  shows "process_ok [''bash'', hook_script rt, d] None (history H (install_hook rt d) s)"
proof -
  have h: "install_hook rt d =
      andThen (path_exists (hook_script rt)) (\<lambda>ex.
      if \<not> ex then raise (WorktreeError (''hook installer introuvable : '' @ hook_script rt))
      else
        andThen (run_process [''bash'', hook_script rt, d] None) (\<lambda>(code, _, err).
        if code \<noteq> 0 then raise (WorktreeError (''install-precommit-hook'' @ failed_text @ strip err))
        else return ()))"
    by (simp add: install_hook_def Let_def)
  obtain s1 out err where 1: "run H (path_exists (hook_script rt)) s = (Inr True, s1)"
      "H (Run_Process [''bash'', hook_script rt, d] None) s1 = (A_Process 0 out err, s')"
    using assms by (auto simp: h run_andThen_Inr run_process_Inr split: if_splits)
  then show ?thesis
    unfolding process_ok_def by (auto simp: h history_after [OF 1(1)] history_andThen)
qed

lemma process_ok_mono: "process_ok a c h \<Longrightarrow> set h \<subseteq> set h' \<Longrightarrow> process_ok a c h'"
  unfolding process_ok_def by blast

lemma prepared_Inr:
  assumes m: "m = andThen (configure_identity d rl) (\<lambda>_. andThen (install_hook rt d) (\<lambda>_. return wt))"
    and assms: "run H m s = (Inr wt', s')"
  shows "wt' = wt \<and> prepared rt rl d (history H m s)"
proof -
  obtain s1 where 1: "run H (configure_one d ''user.name'' (git_name rl)) s = (Inr (), s1)"
    using assms by (auto simp: m configure_identity_def run_andThen_Inr)
  obtain s2 where 2: "run H (configure_one d ''user.email'' (git_email rl)) s1 = (Inr (), s2)"
    using assms by (auto simp: m configure_identity_def run_andThen_Inr 1)
  have 12: "run H (configure_identity d rl) s = (Inr (), s2)"
    by (simp add: configure_identity_def run_andThen 1 2)
  obtain s3 where 3: "run H (install_hook rt d) s2 = (Inr (), s3)" and wt: "wt' = wt"
    using assms by (auto simp: m run_andThen_Inr 12)
  have "history H m s = history H (configure_one d ''user.name'' (git_name rl)) s @
      history H (configure_one d ''user.email'' (git_email rl)) s1 @ history H (install_hook rt d) s2"
    by (simp add: m history_andThen 12 3) (simp add: configure_identity_def history_andThen 1)
  with configure_one_Inr [OF 1] configure_one_Inr [OF 2] install_hook_Inr [OF 3] wt show ?thesis
    unfolding prepared_def by (auto intro: process_ok_mono)
qed

lemma set_history_after: "run H m s = (Inr a, s1) \<Longrightarrow> set (history H (f a) s1) \<subseteq> set (history H (andThen m f) s)"
  by (auto simp: history_after)

lemma prepared_mono: "prepared rt rl d h \<Longrightarrow> set h \<subseteq> set h' \<Longrightarrow> prepared rt rl d h'"
  unfolding prepared_def by (blast intro: process_ok_mono)

text \<open>
  A worktree is handed out, new or found, only when git took the name and the address of the role and the
  hook that guards commits was installed in it, in the same call; its branch is one of the role's for
  that issue.
\<close>

theorem worktree_is_prepared:
  assumes "fst (run H (create_worktree rt rl n (JStr title)) s) = Inr wt"
  shows "wt_branch wt = branch_name rl n title \<and> wt_path wt = worktree_dir rt rl n title \<and>
    prepared rt rl (wt_path wt) (history H (create_worktree rt rl n (JStr title)) s)"
proof -
  let ?branch = "branch_name rl n title" and ?d = "worktree_dir rt rl n title"
  let ?wt = "\<lparr>wt_path = ?d, wt_branch = ?branch\<rparr>"
  let ?rest = "andThen (configure_identity ?d rl) (\<lambda>_. andThen (install_hook rt ?d) (\<lambda>_. return ?wt))"
  obtain s' where r: "run H (create_worktree rt rl n (JStr title)) s = (Inr wt, s')" using assms by (metis prod.collapse)
  obtain s1 where 1: "run H (tell (Make_Dirs (worktrees_dir rt))) s = (Inr (), s1)"
    using r by (auto simp: create_worktree_def run_andThen_Inr Let_def)
  obtain ex s2 where 2: "run H (path_exists ?d) s1 = (Inr ex, s2)"
    using r by (auto simp: create_worktree_def run_andThen_Inr Let_def 1)
  have "\<exists>s3. run H ?rest s3 = (Inr wt, s') \<and>
      set (history H ?rest s3) \<subseteq> set (history H (create_worktree rt rl n (JStr title)) s)"
  proof (cases ex)
    case True
    obtain code out err s3 where 3: "run H (git [''rev-parse'', ''--abbrev-ref'', ''HEAD''] ?d) s2 = (Inr (code, out, err), s3)"
      using r True by (auto simp: create_worktree_def run_andThen_Inr Let_def 1 2)
    have "code = 0 \<and> strip out = ?branch" "run H ?rest s3 = (Inr wt, s')"
      using r True by (auto simp: create_worktree_def run_andThen Let_def 1 2 3 split: if_splits)
    then show ?thesis
      using True by (intro exI [of _ s3]) (auto simp: create_worktree_def andThen_result Let_def history_after [OF 1] history_after [OF 2] history_after [OF 3])
  next
    case False
    obtain code out err s3 where 3: "run H (git [''worktree'', ''add'', ''-b'', ?branch, ?d, ''origin/main''] (poc_dir rt)) s2 =
        (Inr (code, out, err), s3)"
      using r False by (auto simp: create_worktree_def run_andThen_Inr Let_def 1 2)
    have "code = 0" "run H ?rest s3 = (Inr wt, s')"
      using r False by (auto simp: create_worktree_def run_andThen Let_def 1 2 3 split: if_splits)
    then show ?thesis
      using False by (intro exI [of _ s3]) (auto simp: create_worktree_def andThen_result Let_def history_after [OF 1] history_after [OF 2] history_after [OF 3])
  qed
  then obtain s3 where 3: "run H ?rest s3 = (Inr wt, s')"
    and sub: "set (history H ?rest s3) \<subseteq> set (history H (create_worktree rt rl n (JStr title)) s)" by blast
  from prepared_Inr [OF refl 3] sub show ?thesis by (auto intro: prepared_mono)
qed

subsection \<open>A machine to run git on\<close>

definition demo_roots :: roots where
  "demo_roots = \<lparr>team_dir = ''/g/team'', poc_dir = ''/g/poc'', worktrees_dir = ''/g/agents''\<rparr>"

definition demo_machine :: "acmd \<Rightarrow> unit \<Rightarrow> areply \<times> unit" where
  "demo_machine c s =
     (case c of
        Run_Process _ _ \<Rightarrow> A_Process 0 [] []
      | Path_Exists p \<Rightarrow> A_Bool (has_suffix ''.sh'' p)
      | _ \<Rightarrow> A_Nil, ())"

lemma demo_created:
  "fst (run demo_machine (create_worktree demo_roots (the_role ''backend'') (JNum 7) (JStr ''Add: the API!'')) ()) =
     Inr \<lparr>wt_path = ''/g/agents/backend/7-add-the-api'', wt_branch = ''agents/backend/7-add-the-api''\<rparr>"
  by code_simp

theorem worktree_is_prepared_witness:
  "prepared demo_roots (the_role ''backend'') ''/g/agents/backend/7-add-the-api''
     (history demo_machine (create_worktree demo_roots (the_role ''backend'') (JNum 7) (JStr ''Add: the API!'')) ())"
  using worktree_is_prepared [OF demo_created, THEN conjunct2, THEN conjunct2] by (simp only: worktree.select_convs)

end
