(* ===== verification/Budget.thy ===== *)
theory Budget
  imports Orch_Config
begin

text \<open>
  \<open>orchestrator/budget.py\<close>: the daily budget of tokens of a role, a counter in Redis that a call reserves
  from and settles after it.
\<close>

definition budget_key :: "string \<Rightarrow> string \<Rightarrow> string" where
  "budget_key nm day = ''kola:tokens:'' @ nm @ '':'' @ day"

record reservation =
  rs_role :: string
  rs_key :: string
  reserved :: int

text \<open>\<open>except (RedisConnectionError, RedisTimeoutError) as e\<close>\<close>

definition if_lost :: "(string \<Rightarrow> 'a agent) \<Rightarrow> exn \<Rightarrow> 'a agent" where
  "if_lost h e = (case e of RedisUnavailable m \<Rightarrow> h m | _ \<Rightarrow> raise e)"

definition exceeded_text :: "role \<Rightarrow> int \<Rightarrow> int \<Rightarrow> string" where
  "exceeded_text role already expected =
     ''role='' @ role_name role @ '' cap='' @ show_int (daily_token_cap role) @
     '' d'' @ [CHR 0xE9] @ ''j'' @ [CHR 0xE0] @ ''='' @ show_int already @ '' reserved='' @ show_int expected"

definition check_and_reserve :: "role \<Rightarrow> int \<Rightarrow> reservation agent" where
  "check_and_reserve role expected_tokens =
     andThen (ask_text Today) (\<lambda>day.
     let key = budget_key (role_name role) day in
     andThen
       (catch
          (andThen (ask_int (Incrby key expected_tokens)) (\<lambda>new_total.
           andThen (tell (Expire key (60 * 60 * 48))) (\<lambda>_. return new_total)))
          (if_lost (\<lambda>m. raise (BudgetUnavailable m))))
       (\<lambda>new_total.
     if new_total > daily_token_cap role then
       andThen (catch (tell (Incrby key (- expected_tokens))) (if_lost (\<lambda>_. return ()))) (\<lambda>_.
       raise (BudgetExceeded (exceeded_text role (new_total - expected_tokens) expected_tokens)))
     else return \<lparr>rs_role = role_name role, rs_key = key, reserved = expected_tokens\<rparr>))"

definition commit_tokens :: "reservation \<Rightarrow> int \<Rightarrow> unit agent" where
  "commit_tokens rv actual_tokens =
     (let delta = actual_tokens - reserved rv in
      if delta = 0 then return ()
      else catch (tell (Incrby (rs_key rv) delta)) (if_lost (\<lambda>_. return ())))"

text \<open>The reply to GET is text or nothing; the text of a counter is its number.\<close>

definition remaining :: "role \<Rightarrow> int agent" where
  "remaining role =
     andThen (ask_text Today) (\<lambda>day.
     andThen (ask_text (Get_Key (budget_key (role_name role) day))) (\<lambda>val.
     if val = [] then return (daily_token_cap role)
     else
       case py_int val of
         None \<Rightarrow> raise (ValueError ''invalid literal for int() with base 10'')
       | Some used \<Rightarrow> return (daily_token_cap role - used)))"

subsection \<open>What a call adds to the counter\<close>

text \<open>The sum of the increments of a key that the server carried out.\<close>

fun increment :: "string \<Rightarrow> acmd \<times> areply \<Rightarrow> int" where
  "increment key (Incrby k n, A_Int _) = (if k = key then n else 0)"
| "increment key _ = 0"

definition net :: "string \<Rightarrow> (acmd \<times> areply) list \<Rightarrow> int" where
  "net key h = sum_list (map (increment key) h)"

lemma net_simps [simp]: "net key [] = 0" "net key (x # h) = increment key x + net key h"
  "net key (h @ h') = net key h + net key h'"
  by (simp_all add: net_def)

lemma int_reply_Inr: "int_reply r = Inr n \<longleftrightarrow> r = A_Int n"
  by (cases r) auto


text \<open>
  What is relied on of Redis: an INCRBY is answered with a number or an error, and the errors are not
  those of this module. A \<open>ledger\<close> also answers with the new value of the counter, which no
  other command of the agent changes, and does not fail.
\<close>

locale counter_replies =
  fixes H :: "acmd \<Rightarrow> 's \<Rightarrow> areply \<times> 's"
  assumes incrby_reply: "(\<exists>t. fst (H (Incrby k n) s) = A_Int t) \<or> (\<exists>e. fst (H (Incrby k n) s) = A_Err e)"
    and no_budget_error: "fst (H c s) = A_Err e \<Longrightarrow> e \<noteq> BudgetExceeded m \<and> e \<noteq> BudgetUnavailable m"

locale ledger = counter_replies H for H :: "acmd \<Rightarrow> 's \<Rightarrow> areply \<times> 's" +
  fixes count :: "'s \<Rightarrow> string \<Rightarrow> int"
  assumes incrby_exact: "H (Incrby k n) s = (r, s') \<Longrightarrow> r = A_Int (count s k + n) \<and> count s' = (count s)(k := count s k + n)"
    and others_keep: "H c s = (r, s') \<Longrightarrow> (\<And>k n. c \<noteq> Incrby k n) \<Longrightarrow> count s' = count s"
    and expire_reply: "fst (H (Expire k n) s) \<noteq> A_Err e"
begin

text \<open>Any program changes a counter by what its own increments add to it.\<close>

lemma count_net: "count (snd (run H m s)) key = count s key + net key (history H m s)"
proof (induction m arbitrary: s)
  case (Ret a)
  then show ?case by simp
next
  case (Call c k)
  obtain r s' where h: "H c s = (r, s')" by (cases "H c s")
  have "count s' key = count s key + increment key (c, r)"
  proof (cases "\<exists>k' n. c = Incrby k' n")
    case True
    then obtain k' n where c: "c = Incrby k' n" by blast
    with incrby_exact [of k' n s r s'] h show ?thesis by auto
  next
    case False
    with others_keep [OF h] have "count s' = count s" by blast
    moreover have "increment key (c, r) = 0" using False by (cases c) auto
    ultimately show ?thesis by simp
  qed
  with Call.IH [of "k r" s'] h show ?case by simp
qed

end

definition today_of :: "(acmd \<Rightarrow> 's \<Rightarrow> areply \<times> 's) \<Rightarrow> 's \<Rightarrow> exn + string" where
  "today_of H s = text_reply (fst (H Today s))"

text \<open>
  What a reservation does to the counter, whatever the server replies and however other tasks
  change the counter in between: granted, it has added the tokens once and the counter the server
  gave was within the cap; refused, the counter was above the cap and what was added is taken back,
  unless the connection was lost at that moment; unavailable, it has added the tokens at most
  once.
\<close>

theorem reservation_counts:
  fixes rl n day s H
  defines "key \<equiv> budget_key (role_name rl) day" and "h \<equiv> history H (check_and_reserve rl n) s"
  assumes "today_of H s = Inr day" and "counter_replies H"
  shows "case fst (run H (check_and_reserve rl n) s) of
      Inr rv \<Rightarrow> rv = \<lparr>rs_role = role_name rl, rs_key = key, reserved = n\<rparr> \<and> net key h = n \<and>
        (\<exists>total. (Incrby key n, A_Int total) \<in> set h \<and> total \<le> daily_token_cap rl)
    | Inl (BudgetExceeded _) \<Rightarrow>
        (\<exists>total. (Incrby key n, A_Int total) \<in> set h \<and> daily_token_cap rl < total) \<and>
        (net key h = 0 \<or> (\<exists>m. (Incrby key (- n), A_Err (RedisUnavailable m)) \<in> set h))
    | Inl (BudgetUnavailable _) \<Rightarrow> net key h = 0 \<or> net key h = n
    | Inl _ \<Rightarrow> True"
proof -
  note d = h_def check_and_reserve_def Let_def run_andThen history_andThen run_catch history_catch
    run_calls run_tell assms(3) [unfolded today_of_def] key_def [symmetric] if_lost_def
  let ?s1 = "snd (H Today s)"
  obtain r2 s2 where r2: "H (Incrby key n) ?s1 = (r2, s2)" by (cases "H (Incrby key n) ?s1")
  obtain r3 s3 where r3: "H (Expire key 172800) s2 = (r3, s3)" by (cases "H (Expire key 172800) s2")
  obtain r4 s4 where r4: "H (Incrby key (- n)) s3 = (r4, s4)" by (cases "H (Incrby key (- n)) s3")
  note no = counter_replies.no_budget_error [OF assms(4)]
  note bad = no [of "Incrby key n" ?s1, unfolded r2 fst_conv] no [of "Expire key 172800" s2, unfolded r3 fst_conv]
    no [of "Incrby key (- n)" s3, unfolded r4 fst_conv]
  show ?thesis
  proof (cases r2)
    case (A_Int total)
    have expired: "answer r3 = Inr x \<Longrightarrow> \<forall>e. r3 \<noteq> A_Err e" for x by (auto simp: answer_Inr)
    show ?thesis
    proof (cases "answer r3")
      case (Inl e)
      then have "r3 = A_Err e" by (cases r3) auto
      then have "\<forall>m. e \<noteq> BudgetExceeded m \<and> e \<noteq> BudgetUnavailable m" using bad(2) by blast
      with \<open>r3 = A_Err e\<close> A_Int Inl show ?thesis by (cases e) (simp_all add: d r2 r3)
    next
      case ok3: (Inr x)
      show ?thesis
      proof (cases "total > daily_token_cap rl")
        case False
        with A_Int ok3 show ?thesis by (simp add: d r2 r3)
      next
        case True
        show ?thesis
        proof (cases "answer r4")
          case (Inl e)
          then have "r4 = A_Err e" by (cases r4) auto
          then have "\<forall>m. e \<noteq> BudgetExceeded m \<and> e \<noteq> BudgetUnavailable m" using bad(3) by blast
          with \<open>r4 = A_Err e\<close> A_Int Inl True ok3 show ?thesis by (cases e) (simp_all add: d r2 r3 r4)
        next
          case (Inr y)
          then obtain t where "r4 = A_Int t"
            using counter_replies.incrby_reply [OF assms(4), of key "- n" s3] by (auto simp: r4)
          with A_Int True ok3 show ?thesis by (auto simp add: d r2 r3 r4)
        qed
      qed
    qed
  next
    case (A_Err e)
    have "\<forall>m. e \<noteq> BudgetExceeded m \<and> e \<noteq> BudgetUnavailable m" using bad(1) A_Err by blast
    with A_Err show ?thesis by (cases e) (simp_all add: d r2)
  qed (simp_all add: d r2)
qed


text \<open>
  C31. On a server that answers, a call that reserves and then settles leaves the counter higher by exactly
  the tokens it used, whatever it had reserved; a refused call leaves the counter as it was, and it is
  granted exactly when the tokens fit under the cap.
\<close>

theorem reserve_then_settle:
  fixes rl n day s H
  defines "key \<equiv> budget_key (role_name rl) day"
  assumes "today_of H s = Inr day" and "ledger H count"
  shows "case run H (check_and_reserve rl n) s of
      (Inr rv, s1) \<Rightarrow> count s key + n \<le> daily_token_cap rl \<and> count s1 key = count s key + n \<and>
        count (snd (run H (commit_tokens rv used) s1)) key = count s key + used
    | (Inl e, s1) \<Rightarrow> daily_token_cap rl < count s key + n \<and> count s1 key = count s key \<and> (\<exists>m. e = BudgetExceeded m)"
proof -
  note L = ledger.incrby_exact [OF assms(3)] ledger.others_keep [OF assms(3)]
  note d = check_and_reserve_def Let_def run_andThen run_catch run_calls run_tell
    assms(2) [unfolded today_of_def] key_def [symmetric] if_lost_def
  let ?c = "count s key" and ?s1 = "snd (H Today s)"
  have c1: "count ?s1 = count s" using L(2) [of Today s] by (cases "H Today s") auto
  obtain s2 where s2: "H (Incrby key n) ?s1 = (A_Int (?c + n), s2)" "count s2 key = ?c + n"
    using L(1) [of key n ?s1] c1 by (cases "H (Incrby key n) ?s1") auto
  obtain r3 s3 where r3: "H (Expire key 172800) s2 = (r3, s3)" by (cases "H (Expire key 172800) s2")
  then have c3: "count s3 = count s2" using L(2) [OF r3] by auto
  have a3: "answer r3 = Inr r3"
    using ledger.expire_reply [OF assms(3), of key 172800 s2] r3 by (cases r3) auto
  show ?thesis
  proof (cases "?c + n > daily_token_cap rl")
    case True
    obtain s4 where "H (Incrby key (- n)) s3 = (A_Int ?c, s4)" "count s4 key = ?c"
      using L(1) [of key "- n" s3] c3 s2(2) by (cases "H (Incrby key (- n)) s3") auto
    with True s2 r3 a3 show ?thesis by (simp add: d)
  next
    case False
    let ?rv = "\<lparr>rs_role = role_name rl, rs_key = key, reserved = n\<rparr>"
    have "run H (check_and_reserve rl n) s = (Inr ?rv, s3)"
      using False s2 r3 a3 by (simp add: d)
    moreover have "count (snd (run H (commit_tokens ?rv used) s3)) key = ?c + used"
    proof (cases "used = n")
      case True
      then show ?thesis using c3 s2(2) by (simp add: commit_tokens_def)
    next
      case False
      obtain s4 where "H (Incrby key (used - n)) s3 = (A_Int (?c + used), s4)" "count s4 key = ?c + used"
        using L(1) [of key "used - n" s3] c3 s2(2) by (cases "H (Incrby key (used - n)) s3") auto
      with False show ?thesis by (simp add: commit_tokens_def Let_def run_catch run_tell)
    qed
    ultimately show ?thesis using False c3 s2(2) by simp
  qed
qed

text \<open>Counters on their own: a server for the witnesses.\<close>

definition demo_counters :: "acmd \<Rightarrow> (string \<Rightarrow> int) \<Rightarrow> areply \<times> (string \<Rightarrow> int)" where
  "demo_counters c f =
     (case c of
        Incrby k n \<Rightarrow> (A_Int (f k + n), f(k := f k + n))
      | Today \<Rightarrow> (A_Text ''2026-05-26'', f)
      | _ \<Rightarrow> (A_Nil, f))"

interpretation demo_ledger: ledger demo_counters "\<lambda>f. f"
  by unfold_locales (auto simp: demo_counters_def split: acmd.splits)


definition demo_role :: role where
  "demo_role = the_role ''triage''"

lemma demo_role_simps [simp]: "role_name demo_role = ''triage''" "daily_token_cap demo_role = 100000"
  by (simp_all add: demo_role_def the_role_def ROLES_def)

theorem reservation_counts_witness:
  "case fst (run demo_counters (check_and_reserve demo_role 600) (\<lambda>_. 0)) of
      Inr rv \<Rightarrow> rv = \<lparr>rs_role = ''triage'', rs_key = budget_key ''triage'' ''2026-05-26'', reserved = 600\<rparr> \<and>
        net (budget_key ''triage'' ''2026-05-26'') (history demo_counters (check_and_reserve demo_role 600) (\<lambda>_. 0)) = 600
    | Inl _ \<Rightarrow> False"
  using reservation_counts [of demo_counters "\<lambda>_. 0" "''2026-05-26''" demo_role 600, OF _ demo_ledger.counter_replies_axioms]
  by (simp add: today_of_def demo_counters_def check_and_reserve_def Let_def run_andThen run_catch run_calls run_tell)

theorem reserve_then_settle_witness:
  "case run demo_counters (check_and_reserve demo_role 600) (\<lambda>_. 99000) of
      (Inr rv, s1) \<Rightarrow> s1 (budget_key ''triage'' ''2026-05-26'') = 99600 \<and>
        snd (run demo_counters (commit_tokens rv 512) s1) (budget_key ''triage'' ''2026-05-26'') = 99512
    | (Inl e, s1) \<Rightarrow> False"
  using reserve_then_settle [of demo_counters "\<lambda>_. 99000" "''2026-05-26''" "\<lambda>f. f" demo_role 600 512,
      OF _ demo_ledger.ledger_axioms]
  by (simp add: today_of_def demo_counters_def check_and_reserve_def Let_def run_andThen run_catch run_calls run_tell)

end
