(* ===== verification/Llm.thy ===== *)
theory Llm
  imports Budget
begin

text \<open>
  \<open>orchestrator/llm.py\<close>: one call of a model through LiteLLM, with a fallback to a second model when the
  first cannot be reached or fails with a status of 500 or more, and on no other failure. The option
  \<open>extra_body\<close>, which no agent passes, is left out.
\<close>

record llm_result =
  content :: string
  model_name :: json
  prompt_tokens :: int
  completion_tokens :: int
  total_tokens :: int

fun is_httpx_error :: "exn \<Rightarrow> bool" where
  "is_httpx_error (HTTPStatusError _ _) = True"
| "is_httpx_error (TimeoutException _) = True"
| "is_httpx_error (ReadTimeout _) = True"
| "is_httpx_error (ConnectError _) = True"
| "is_httpx_error (HttpxError _) = True"
| "is_httpx_error _ = False"

text \<open>\<open>v[0]\<close> and \<open>int(v)\<close>\<close>

fun json_first :: "json \<Rightarrow> exn + json" where
  "json_first (JList []) = Inl (OtherException ''list index out of range'')"
| "json_first (JList (x # _)) = Inr x"
| "json_first (JStr []) = Inl (OtherException ''string index out of range'')"
| "json_first (JStr (c # _)) = Inr (JStr [c])"
| "json_first (JObj _) = Inl (KeyError ''0'')"
| "json_first _ = Inl (TypeError ''object is not subscriptable'')"

fun json_int :: "json \<Rightarrow> exn + int" where
  "json_int (JNum n) = Inr n"
| "json_int (JBool b) = Inr (if b then 1 else 0)"
| "json_int (JStr s) = (case py_int s of
     None \<Rightarrow> Inl (ValueError ''invalid literal for int() with base 10'') | Some n \<Rightarrow> Inr n)"
| "json_int _ = Inl (TypeError ''int() argument must be a string or a number'')"

fun is_parse_error :: "exn \<Rightarrow> bool" where
  "is_parse_error (KeyError _) = True"
| "is_parse_error (ValueError _) = True"
| "is_parse_error (TypeError _) = True"
| "is_parse_error _ = False"

definition read_result :: "string \<Rightarrow> json option \<Rightarrow> exn + llm_result" where
  "read_result alias body =
     (case body of
        None \<Rightarrow> Inl (ValueError ''Expecting value'')
      | Some d \<Rightarrow>
          ebind (json_index d ''choices'') (\<lambda>cs.
          ebind (json_first cs) (\<lambda>c0.
          ebind (json_index c0 ''message'') (\<lambda>msg.
          ebind (json_get msg ''content'' JNull) (\<lambda>ct.
          ebind (text_method (json_or ct (JStr []))) (\<lambda>text.
          ebind (json_get d ''usage'' JNull) (\<lambda>u.
          let usage = json_or u (JObj []) in
          ebind (json_get d ''model'' (JStr alias)) (\<lambda>m.
          ebind (ebind (json_get usage ''prompt_tokens'' (JNum 0)) json_int) (\<lambda>pt.
          ebind (ebind (json_get usage ''completion_tokens'' (JNum 0)) json_int) (\<lambda>ct.
          ebind (ebind (json_get usage ''total_tokens'' (JNum 0)) json_int) (\<lambda>tt.
          Inr \<lparr>content = strip text, model_name = m, prompt_tokens = pt, completion_tokens = ct,
               total_tokens = tt\<rparr>)))))))))))"

text \<open>None: worth another attempt on the fallback.\<close>

definition of_llm_reply :: "string \<Rightarrow> int \<Rightarrow> areply \<Rightarrow> exn + llm_result option" where
  "of_llm_reply alias timeout_s r =
     (case r of
        A_Err e \<Rightarrow>
          (case e of
             ConnectError _ \<Rightarrow> Inr None
           | ReadTimeout _ \<Rightarrow> Inl (LLMTimeout (''timeout '' @ show_int timeout_s @ ''.0s on alias='' @ alias))
           | _ \<Rightarrow> if is_httpx_error e then Inl (LLMError (''http-error alias='' @ alias @ '' : '' @ exn_str e))
                  else Inl e)
      | A_Response status text body \<Rightarrow>
          if status \<ge> 500 then Inr None
          else if status \<ge> 400 then
            Inl (LLMError (''4xx alias='' @ alias @ '' status='' @ show_int status @ '' body='' @ take 300 text))
          else
            (case read_result alias body of
               Inl e \<Rightarrow> if is_parse_error e then
                   Inl (LLMError (''reponse mal formee alias='' @ alias @ '' : '' @ exn_str e @ '' body='' @ take 300 text))
                 else Inl e
             | Inr res \<Rightarrow> Inr (Some res))
      | _ \<Rightarrow> Inl (AttributeError ''object has no attribute status_code''))"

definition try_one :: "string \<Rightarrow> string \<Rightarrow> prompt \<Rightarrow> int \<Rightarrow> int \<Rightarrow> int \<Rightarrow> llm_result option agent" where
  "try_one alias sys p max_tokens temperature timeout_s =
     Call (Llm_Post alias sys p max_tokens temperature timeout_s) (\<lambda>r. Ret (of_llm_reply alias timeout_s r))"

definition call_llm :: "role \<Rightarrow> string \<Rightarrow> prompt \<Rightarrow> int \<Rightarrow> int \<Rightarrow> llm_result agent" where
  "call_llm role sys p max_tokens temperature =
     andThen (try_one (primary_alias role) sys p max_tokens temperature (llm_timeout_s role)) (\<lambda>primary.
     case primary of
       Some res \<Rightarrow> return res
     | None \<Rightarrow>
         (case fallback_alias role of
            None \<Rightarrow> raise (LLMError (''primary `'' @ primary_alias role @ ''` indisponible, pas de fallback configur'' @ [CHR 0xE9]))
          | Some alias \<Rightarrow>
              andThen (try_one alias sys p max_tokens temperature (fallback_timeout_s role)) (\<lambda>fb.
              case fb of
                None \<Rightarrow> raise (LLMError (''primary `'' @ primary_alias role @ ''` ET fallback `'' @ alias @ ''` indisponibles''))
              | Some res \<Rightarrow> return res)))"

subsection \<open>When the fallback is used\<close>

definition worth_a_fallback :: "areply \<Rightarrow> bool" where
  "worth_a_fallback r \<longleftrightarrow> (\<exists>m. r = A_Err (ConnectError m)) \<or> (\<exists>st t b. r = A_Response st t b \<and> 500 \<le> st)"

lemma of_llm_reply_None: "of_llm_reply alias t r = Inr None \<longleftrightarrow> worth_a_fallback r"
  by (auto simp: of_llm_reply_def worth_a_fallback_def split: areply.splits exn.splits sum.splits if_splits)

lemma history_try [simp]:
  "history H (try_one al sys p mt tp ts) s =
     [(Llm_Post al sys p mt tp ts, fst (H (Llm_Post al sys p mt tp ts) s))]"
  by (simp add: try_one_def)

lemma run_try:
  "run H (try_one al sys p mt tp ts) s =
     (of_llm_reply al ts (fst (H (Llm_Post al sys p mt tp ts) s)), snd (H (Llm_Post al sys p mt tp ts) s))"
  by (simp add: try_one_def)

text \<open>
  C32. A call posts to the main model of the role once, and to its fallback once more exactly when the first
  attempt found no connection or a status of 500 or more and the role has a fallback. So a
  timeout is never tried again.
\<close>

theorem llm_fallback_only_when_unreachable:
  "trace H (call_llm rl sys p mt tp) s =
     Llm_Post (primary_alias rl) sys p mt tp (llm_timeout_s rl) #
     (case fallback_alias rl of None \<Rightarrow> [] | Some fb \<Rightarrow>
        if worth_a_fallback (fst (H (Llm_Post (primary_alias rl) sys p mt tp (llm_timeout_s rl)) s))
        then [Llm_Post fb sys p mt tp (fallback_timeout_s rl)] else [])"
proof -
  let ?r = "fst (H (Llm_Post (primary_alias rl) sys p mt tp (llm_timeout_s rl)) s)"
  show ?thesis
  proof (cases "worth_a_fallback ?r")
    case True
    then have "of_llm_reply (primary_alias rl) (llm_timeout_s rl) ?r = Inr None" by (simp add: of_llm_reply_None)
    with True show ?thesis
      by (auto simp: trace_history call_llm_def history_andThen run_try split: option.splits sum.splits)
  next
    case False
    then have "of_llm_reply (primary_alias rl) (llm_timeout_s rl) ?r \<noteq> Inr None" by (simp add: of_llm_reply_None)
    then have "trace H (call_llm rl sys p mt tp) s = [Llm_Post (primary_alias rl) sys p mt tp (llm_timeout_s rl)]"
      by (auto simp: trace_history call_llm_def history_andThen run_try split: option.splits sum.splits)
    with False show ?thesis by (simp split: option.splits)
  qed
qed

text \<open>A call that times out raises \<open>LLMTimeout\<close> at once.\<close>

lemma llm_timeout_raises:
  assumes "fst (H (Llm_Post (primary_alias rl) sys p mt tp (llm_timeout_s rl)) s) = A_Err (ReadTimeout m)"
  shows "\<exists>e. fst (run H (call_llm rl sys p mt tp) s) = Inl (LLMTimeout e)"
  using assms by (simp add: call_llm_def run_andThen run_try of_llm_reply_def)

lemma call_llm_only:
  assumes "ok (Llm_Post (primary_alias rl) sys p mt tp (llm_timeout_s rl))"
    and "\<And>fb. fallback_alias rl = Some fb \<Longrightarrow> ok (Llm_Post fb sys p mt tp (fallback_timeout_s rl))"
  shows "only ok (call_llm rl sys p mt tp)"
proof -
  have t: "ok (Llm_Post al sys p mt tp ts) \<Longrightarrow> only ok (try_one al sys p mt tp ts)" for al ts
    by (simp add: only_def try_one_def)
  show ?thesis unfolding call_llm_def by (auto intro!: only_rules t assms split: option.splits)
qed

end
