(* ===== verification/Triage.thy ===== *)
theory Triage
  imports Llm Ceo
begin

text \<open>
  \<open>orchestrator/roles/triage.py\<close>: the agent that labels new issues with the help of a model.
\<close>

subsection \<open>The reply of the model\<close>

definition VALID_AREAS :: "string list" where
  "VALID_AREAS = [''area/api'', ''area/web'', ''area/infra'', ''area/docs'', ''area/team-ops'']"

definition VALID_KINDS :: "string list" where
  "VALID_KINDS = [''kind/bug'', ''kind/feature'', ''kind/chore'', ''kind/task'']"

text \<open>The first match of \<open>\{.*?\}\<close>: from the first opening brace to the first closing one after it.\<close>

definition shortest_object :: "string \<Rightarrow> string option" where
  "shortest_object text =
     (let s = dropWhile (\<lambda>c. c \<noteq> CHR ''{'') text in
      if CHR ''}'' \<in> set s then Some (takeWhile (\<lambda>c. c \<noteq> CHR ''}'') s @ ''}'') else None)"

definition extract_json :: "actx \<Rightarrow> (string \<Rightarrow> string option) \<Rightarrow> string \<Rightarrow> json option" where
  "extract_json ax pick text = (case pick text of None \<Rightarrow> None | Some t \<Rightarrow> json_loads ax t)"

text \<open>\<open>v in S\<close> for a set of texts, which hashes v.\<close>

definition in_texts :: "json \<Rightarrow> string list \<Rightarrow> exn + bool" where
  "in_texts v S =
     (case v of
        JList _ \<Rightarrow> Inl (TypeError ''unhashable type'')
      | JObj _ \<Rightarrow> Inl (TypeError ''unhashable type'')
      | JStr s \<Rightarrow> Inr (s \<in> set S)
      | _ \<Rightarrow> Inr False)"

definition add_valid :: "string list \<Rightarrow> json \<Rightarrow> json list \<Rightarrow> exn + json list" where
  "add_valid S v ls = ebind (in_texts v S) (\<lambda>b. Inr (if b \<and> v \<notin> set ls then ls @ [v] else ls))"

definition add_label :: "string \<Rightarrow> json list \<Rightarrow> json list" where
  "add_label l ls = (if JStr l \<in> set ls then ls else ls @ [JStr l])"

text \<open>The labels an issue gets, and the text that asks for more information, if there is one to post.\<close>

definition new_labels_of :: "json \<Rightarrow> json list \<Rightarrow> exn + json list \<times> string option" where
  "new_labels_of data labels =
     ebind (json_get data ''area'' JNull) (\<lambda>area.
     ebind (json_get data ''kind'' JNull) (\<lambda>kind.
     ebind (add_valid VALID_AREAS area labels) (\<lambda>ls.
     ebind (add_valid VALID_KINDS kind ls) (\<lambda>ls.
     ebind (json_get data ''ready'' JNull) (\<lambda>ready.
     ebind (json_get data ''missing_info'' JNull) (\<lambda>m.
     ebind (text_method (json_or m (JStr []))) (\<lambda>m.
     let missing = strip m in
     if truthy ready \<and> JStr ''needs-info'' \<notin> set ls then Inr (add_label ''ready-for-dev'' ls, None)
     else if missing \<noteq> [] then
       (let ls = add_label ''needs-info'' ls in
        if JStr ''needs-info-commented'' \<notin> set labels then Inr (ls @ [JStr ''needs-info-commented''], Some missing)
        else Inr (ls, None))
     else Inr (ls, None))))))))"

subsection \<open>Paying for a call\<close>

text \<open>
  The steps the agents share. \<open>reserve_for\<close>: None when the budget is used up, Some None when Redis cannot
  be reached and the call goes on unpaid.
\<close>

definition reserve_for :: "string \<Rightarrow> role \<Rightarrow> json \<Rightarrow> int \<Rightarrow> reservation option option agent" where
  "reserve_for who rl number expected =
     catch (andThen (check_and_reserve rl expected) (\<lambda>rv. return (Some (Some rv))))
       (\<lambda>e. case e of
          BudgetExceeded m \<Rightarrow>
            andThen (log_event who ''budget-exceeded'' [(''issue'', NJson number), (''detail'', NText m)]) (\<lambda>_. return None)
        | BudgetUnavailable m \<Rightarrow>
            andThen (log_event who ''budget-unavailable'' [(''issue'', NJson number), (''detail'', NText m)])
              (\<lambda>_. return (Some None))
        | _ \<Rightarrow> raise e)"

definition settle :: "reservation option \<Rightarrow> int \<Rightarrow> unit agent" where
  "settle rv tokens = (case rv of None \<Rightarrow> return () | Some r \<Rightarrow> commit_tokens r tokens)"

text \<open>
  A call that times out or fails costs what was reserved; \<open>failed\<close> is what the agent does then. None: the
  model gave no answer.
\<close>

definition paid_call ::
  "role \<Rightarrow> string \<Rightarrow> prompt \<Rightarrow> int \<Rightarrow> int \<Rightarrow> reservation option \<Rightarrow> int \<Rightarrow> (exn \<Rightarrow> unit agent) \<Rightarrow> llm_result option agent" where
  "paid_call rl sys p max_tokens temperature rv expected failed =
     andThen
       (catch (andThen (call_llm rl sys p max_tokens temperature) (\<lambda>res. return (Some res)))
          (\<lambda>e. case e of
             LLMTimeout _ \<Rightarrow> andThen (settle rv expected) (\<lambda>_. andThen (failed e) (\<lambda>_. return None))
           | LLMError _ \<Rightarrow> andThen (settle rv expected) (\<lambda>_. andThen (failed e) (\<lambda>_. return None))
           | _ \<Rightarrow> raise e))
       (\<lambda>res. case res of
          None \<Rightarrow> return None
        | Some r \<Rightarrow> andThen (settle rv (total_tokens r)) (\<lambda>_. return (Some r)))"

subsection \<open>Triage of an issue\<close>

definition is_text :: "json \<Rightarrow> bool" where
  "is_text v = (case v of JStr _ \<Rightarrow> True | _ \<Rightarrow> False)"

text \<open>\<open>any(l.startswith(p) for l in labels)\<close>; the order of a set is taken as that of its first occurrences.\<close>

fun any_prefix :: "string \<Rightarrow> json list \<Rightarrow> exn + bool" where
  "any_prefix p [] = Inr False"
| "any_prefix p (l # ls) = ebind (text_method l) (\<lambda>s. if has_prefix p s then Inr True else any_prefix p ls)"

text \<open>\<open>sorted\<close> of label names: texts, or numbers; values of different kinds do not compare.\<close>

definition sorted_labels :: "json list \<Rightarrow> exn + json list" where
  "sorted_labels ls =
     (if length ls \<le> 1 then Inr ls
      else if list_all is_text ls then Inr (map JStr (sort (map (\<lambda>v. case v of JStr s \<Rightarrow> s | _ \<Rightarrow> []) ls)))
      else if list_all (\<lambda>v. case v of JNum _ \<Rightarrow> True | JBool _ \<Rightarrow> True | _ \<Rightarrow> False) ls
        then Inr (sort_key (\<lambda>v. case v of JNum n \<Rightarrow> n | JBool b \<Rightarrow> if b then 1 else 0 | _ \<Rightarrow> 0) ls)
      else Inl (TypeError ''not supported between instances''))"

definition already_triaged :: "json list \<Rightarrow> exn + bool" where
  "already_triaged labels =
     ebind (any_prefix ''area/'' labels) (\<lambda>has_area.
     ebind (any_prefix ''kind/'' labels) (\<lambda>has_kind.
     Inr (has_area \<and> has_kind \<and> (JStr ''ready-for-dev'' \<in> set labels \<or> JStr ''needs-info'' \<in> set labels))))"

definition apply_labels :: "json \<Rightarrow> json list \<Rightarrow> json list \<Rightarrow> string option \<Rightarrow> llm_result \<Rightarrow> unit agent" where
  "apply_labels number labels new_labels ask_for res =
     andThen (case ask_for of None \<Rightarrow> return () | Some m \<Rightarrow> gh_do (Comment_Issue number (Missing_Info m))) (\<lambda>_.
     if set new_labels \<noteq> set labels then
       andThen (gh_do (Set_Issue_Labels number new_labels)) (\<lambda>_.
       andThen (of_result (sorted_labels (filter (\<lambda>l. l \<notin> set labels) (remdups new_labels)))) (\<lambda>added.
       andThen (of_result (sorted_labels (filter (\<lambda>l. l \<notin> set new_labels) labels))) (\<lambda>removed.
       log_event ''triage'' ''labeled'' [(''issue'', NJson number), (''added'', NJson (JList added)),
         (''removed'', NJson (JList removed)), (''tokens'', NInt (total_tokens res)), (''model'', NJson (model_name res))])))
     else return ())"

definition triage_one :: "actx \<Rightarrow> string \<Rightarrow> json \<Rightarrow> unit agent" where
  "triage_one ax sys issue =
     andThen (of_result (json_index issue ''number'')) (\<lambda>number.
     andThen (of_result (label_names issue)) (\<lambda>names.
     let labels = remdups names in
     andThen (of_result (already_triaged labels)) (\<lambda>done.
     if done then return ()
     else
       andThen (reserve_for ''triage'' (the_role ''triage'') number 600) (\<lambda>paid.
       case paid of
         None \<Rightarrow> return ()
       | Some rv \<Rightarrow>
           andThen (of_result (ebind (json_get issue ''body'' JNull) (\<lambda>b.
               text_method (json_or b (JStr ''(empty body)''))))) (\<lambda>body.
           andThen (of_result (json_index issue ''title'')) (\<lambda>title.
           andThen (of_result (sorted_labels labels)) (\<lambda>shown.
           andThen (paid_call (the_role ''triage'') sys (Triage_Prompt number title (shorten ax body 4000) shown)
               200 0 rv 600 (\<lambda>_. return ())) (\<lambda>answered.
           case answered of
             None \<Rightarrow> return ()
           | Some res \<Rightarrow>
               (case extract_json ax shortest_object (content res) of
                  None \<Rightarrow> log_event ''triage'' ''json-parse-fail''
                    [(''issue'', NJson number), (''raw'', NText (take 200 (content res)))]
                | Some data \<Rightarrow>
                    if \<not> truthy data then log_event ''triage'' ''json-parse-fail''
                      [(''issue'', NJson number), (''raw'', NText (take 200 (content res)))]
                    else
                      andThen (of_result (new_labels_of data labels)) (\<lambda>nl.
                      apply_labels number labels (fst nl) (snd nl) res))))))))))"

definition triage_safely :: "actx \<Rightarrow> string \<Rightarrow> json \<Rightarrow> unit agent" where
  "triage_safely ax sys issue =
     catch (triage_one ax sys issue)
       (\<lambda>e. if is_exception e then
              andThen (of_result (json_get issue ''number'' JNull)) (\<lambda>n.
              log_event ''triage'' ''fail'' [(''issue'', NJson n), (''error'', NText (exn_str e))])
            else raise e)"

primrec triage_all :: "actx \<Rightarrow> string \<Rightarrow> json list \<Rightarrow> unit agent" where
  "triage_all ax sys [] = return ()"
| "triage_all ax sys (i # is) = andThen (triage_safely ax sys i) (\<lambda>_. triage_all ax sys is)"

definition triage_heartbeat :: "actx \<Rightarrow> string \<Rightarrow> unit agent" where
  "triage_heartbeat ax sys =
     andThen
       (catch (andThen (gh (List_Open_Issues [])) (\<lambda>v. return (Some v)))
          (\<lambda>e. if is_exception e then
                 andThen (log_event ''triage'' ''heartbeat-fail'' [(''error'', NText (exn_str e))]) (\<lambda>_. return None)
               else raise e))
       (\<lambda>issues. case issues of
          None \<Rightarrow> return ()
        | Some v \<Rightarrow> andThen (of_result (elements v)) (triage_all ax sys))"


subsection \<open>Which labels an issue gets\<close>

lemma in_texts_Inr: "in_texts v S = Inr True \<longleftrightarrow> (\<exists>s \<in> set S. v = JStr s)"
  by (cases v) (auto simp: in_texts_def)

lemma add_valid_Inr:
  "add_valid S v ls = Inr ls' \<Longrightarrow> set ls \<subseteq> set ls' \<and> set ls' - set ls \<subseteq> JStr ` set S"
  by (auto simp: add_valid_def ebind_Inr in_texts_Inr split: if_splits)

definition triage_labels :: "json set" where
  "triage_labels = JStr ` (set VALID_AREAS \<union> set VALID_KINDS \<union>
     {''ready-for-dev'', ''needs-info'', ''needs-info-commented''})"

lemma set_add_label [simp]: "set (add_label l ls) = insert (JStr l) (set ls)"
  by (auto simp: add_label_def)

lemma not_area_or_kind:
  "''ready-for-dev'' \<notin> set VALID_AREAS \<union> set VALID_KINDS" "''needs-info'' \<notin> set VALID_AREAS \<union> set VALID_KINDS"
  "''needs-info-commented'' \<notin> set VALID_AREAS \<union> set VALID_KINDS"
  by (simp_all add: VALID_AREAS_def VALID_KINDS_def)

lemma new_labels_facts:
  assumes "new_labels_of data labels = Inr (ls, q)"
  shows "set labels \<subseteq> set ls" and "set ls - set labels \<subseteq> triage_labels"
    and "JStr ''ready-for-dev'' \<in> set ls - set labels \<Longrightarrow> JStr ''needs-info'' \<notin> set ls"
    and "q \<noteq> None \<Longrightarrow> JStr ''needs-info'' \<in> set ls \<and> JStr ''needs-info-commented'' \<in> set ls - set labels"
proof -
  obtain area kind ready m l1 l2 where
      l: "add_valid VALID_AREAS area labels = Inr l1" "add_valid VALID_KINDS kind l1 = Inr l2"
    and res: "(if truthy ready \<and> JStr ''needs-info'' \<notin> set l2 then Inr (add_label ''ready-for-dev'' l2, None)
       else if strip m \<noteq> [] then
         (if JStr ''needs-info-commented'' \<notin> set labels
          then Inr (add_label ''needs-info'' l2 @ [JStr ''needs-info-commented''], Some (strip m))
          else Inr (add_label ''needs-info'' l2, None))
       else Inr (l2, None)) = (Inr (ls, q) :: exn + json list \<times> string option)"
    using assms unfolding new_labels_of_def Let_def ebind_Inr by blast
  note a = add_valid_Inr [OF l(1)] add_valid_Inr [OF l(2)]
  have sub: "set labels \<subseteq> set l2" "set l2 - set labels \<subseteq> JStr ` (set VALID_AREAS \<union> set VALID_KINDS)"
    using a unfolding image_Un by blast+
  then have new: "JStr x \<in> set l2 \<Longrightarrow> x \<notin> set VALID_AREAS \<union> set VALID_KINDS \<Longrightarrow> JStr x \<in> set labels" for x
    by blast
  show "set labels \<subseteq> set ls" "set ls - set labels \<subseteq> triage_labels"
    using res sub by (auto simp: triage_labels_def split: if_splits)
  show "JStr ''needs-info'' \<notin> set ls" if "JStr ''ready-for-dev'' \<in> set ls - set labels"
    using res that new [OF _ not_area_or_kind(1)] by (auto split: if_splits)
  show "JStr ''needs-info'' \<in> set ls \<and> JStr ''needs-info-commented'' \<in> set ls - set labels" if "q \<noteq> None"
    using res that by (auto split: if_splits)
qed

text \<open>What the agent may ask: it pays, calls the model, logs, and writes labels and comments of the issue.\<close>

definition triage_call :: "json \<Rightarrow> json list \<Rightarrow> acmd \<Rightarrow> bool" where
  "triage_call number labels c \<longleftrightarrow>
     (case c of
        Gh g \<Rightarrow>
          (case g of
             Comment_Issue n (Missing_Info _) \<Rightarrow> n = number \<and> JStr ''needs-info-commented'' \<notin> set labels
           | Set_Issue_Labels n ls \<Rightarrow> n = number \<and> set labels \<subset> set ls \<and> set ls - set labels \<subseteq> triage_labels \<and>
               \<not> (JStr ''ready-for-dev'' \<in> set ls - set labels \<and> JStr ''needs-info'' \<in> set ls)
           | _ \<Rightarrow> False)
      | Llm_Post alias _ _ _ _ _ \<Rightarrow> alias = ''tool-worker''
      | Log_Event _ _ _ \<Rightarrow> True
      | Today \<Rightarrow> True
      | Incrby _ _ \<Rightarrow> True
      | Expire _ _ \<Rightarrow> True
      | _ \<Rightarrow> False)"

lemma only_budget:
  assumes "ok Today" and "\<And>k n. ok (Incrby k n)" and "\<And>k n. ok (Expire k n)" and "\<And>w a p. ok (Log_Event w a p)"
  shows "only ok (reserve_for who rl number expected)" and "only ok (settle rv tokens)"
proof -
  have lost: "(\<And>m. only ok (h m)) \<Longrightarrow> only ok (if_lost h e)" for h :: "string \<Rightarrow> 'z agent" and e
    by (auto simp: if_lost_def intro!: only_rules split: exn.splits)
  have c: "only ok (check_and_reserve rl expected)"
    unfolding check_and_reserve_def Let_def by (auto intro!: only_rules lost assms)
  show "only ok (reserve_for who rl number expected)"
    unfolding reserve_for_def by (auto intro!: only_rules c assms split: exn.splits)
  show "only ok (settle rv tokens)"
    unfolding settle_def commit_tokens_def Let_def by (auto intro!: only_rules lost assms split: option.splits)
qed


lemma only_result: "(\<And>a. x = Inr a \<Longrightarrow> only ok (f a)) \<Longrightarrow> only ok (andThen (of_result x) f)"
  by (cases x) (simp_all add: only_def)

lemma only_paid_call:
  assumes "ok Today" and "\<And>k n. ok (Incrby k n)" and "\<And>k n. ok (Expire k n)" and "\<And>w a p. ok (Log_Event w a p)"
    and "ok (Llm_Post (primary_alias rl) sys p mt tp (llm_timeout_s rl))"
    and "\<And>fb. fallback_alias rl = Some fb \<Longrightarrow> ok (Llm_Post fb sys p mt tp (fallback_timeout_s rl))"
    and "\<And>e. only ok (failed e)"
  shows "only ok (paid_call rl sys p mt tp rv expected failed)"
  unfolding paid_call_def
  by (auto intro!: only_rules call_llm_only only_budget(2) assms split: exn.splits option.splits)

lemma triage_role: "primary_alias (the_role ''triage'') = ''tool-worker''" "fallback_alias (the_role ''triage'') = None"
  "role_name (the_role ''triage'') = ''triage''" "daily_token_cap (the_role ''triage'') = 100000"
  by (simp_all add: the_role_def ROLES_def)

lemma only_apply_labels:
  assumes "new_labels_of data labels = Inr (ls, q)"
  shows "only (triage_call number labels) (apply_labels number labels ls q res)"
proof -
  note f = new_labels_facts [OF assms]
  have comment: "triage_call number labels (Gh (Comment_Issue number (Missing_Info m)))" if "q = Some m" for m
    using f(4) that by (simp add: triage_call_def)
  have labels: "triage_call number labels (Gh (Set_Issue_Labels number ls))" if "set ls \<noteq> set labels"
    using f(1-3) that by (auto simp: triage_call_def)
  have logs: "triage_call number labels (Log_Event w a p)" for w a p
    by (simp add: triage_call_def)
  show ?thesis
    unfolding apply_labels_def by (auto intro!: only_rules comment labels logs split: option.splits)
qed

text \<open>
  C33. What the triage of an issue may do, whatever GitHub, Redis and the model reply: it comments and labels
  that issue only, keeps every label the issue has, adds only the known areas, kinds and marks, never
  marks an issue ready that waits for information, and comments at most on an issue not yet
  commented.
\<close>

theorem triage_only_labels:
  assumes "json_index issue ''number'' = Inr number" and "label_names issue = Inr names"
    and "(c, r) \<in> set (history H (triage_one ax sys issue) s)"
  shows "triage_call number (remdups names) c"
proof -
  let ?ok = "triage_call number (remdups names)"
  have basic: "?ok Today" "?ok (Incrby k n)" "?ok (Expire k n)" "?ok (Log_Event w a q)"
    "?ok (Llm_Post ''tool-worker'' sys p mt tp ts)" for k n w a q p mt tp ts
    by (simp_all add: triage_call_def)
  have reserve: "only ?ok (reserve_for ''triage'' rl num e)" for rl num e
    by (rule only_budget(1)) (rule basic)+
  have paid: "only ?ok (paid_call (the_role ''triage'') sys p mt tp rv e (\<lambda>_. return ()))" for p mt tp rv e
    by (rule only_paid_call) (simp_all add: triage_role basic only_rules)
  have logged: "only ?ok (log_event w a q)" for w a q
    by (intro only_rules basic)
  have "only ?ok (triage_one ax sys issue)"
    unfolding triage_one_def Let_def assms(1,2)
    by (auto intro!: only_result only_apply_labels reserve paid logged only_andThen [OF reserve] only_andThen [OF paid]
        simp: only_rules split: option.splits)
  from only_history [OF this assms(3)] show ?thesis .
qed


text \<open>
  An issue that has an area, a kind and the mark that it waits for information is left alone for good: no
  call is made for it, also when its author has completed it since.
\<close>

theorem waiting_issue_left_alone:
  assumes "json_index issue ''number'' = Inr number" and "label_names issue = Inr names"
    and "list_all is_text names" and "JStr (''area/'' @ a) \<in> set names" and "JStr (''kind/'' @ k) \<in> set names"
    and "JStr ''needs-info'' \<in> set names"
  shows "history H (triage_one ax sys issue) s = [] \<and> run H (triage_one ax sys issue) s = (Inr (), s)"
proof -
  have any: "any_prefix p ls = Inr True" if "list_all is_text ls" and "JStr (p @ t) \<in> set ls" for p t ls
    using that by (induction ls) (auto simp: is_text_def has_prefix_iff split: json.splits)
  have "already_triaged (remdups names) = Inr True"
    using any [of "remdups names" "''area/''" a] any [of "remdups names" "''kind/''" k] assms(3-6)
    by (simp add: already_triaged_def list_all_iff)
  then show ?thesis
    by (simp add: triage_one_def Let_def assms(1,2) history_andThen run_andThen)
qed

text \<open>
  An answer that calls the issue neither ready nor asks for anything leaves it untriaged, so that the next
  heartbeat pays for another answer, and the next.
\<close>

lemma undecided_stays_untriaged:
  assumes "new_labels_of data labels = Inr (ls, q)" and "json_get data ''ready'' JNull = Inr v" and "\<not> truthy v"
    and "json_get data ''missing_info'' JNull = Inr (JStr m)" and "strip m = []"
    and "JStr ''ready-for-dev'' \<notin> set labels" and "JStr ''needs-info'' \<notin> set labels"
  shows "already_triaged ls \<noteq> Inr True"
proof -
  obtain area kind l1 where l: "add_valid VALID_AREAS area labels = Inr l1" "add_valid VALID_KINDS kind l1 = Inr ls"
    using assms(1-5)
    by (auto simp: new_labels_of_def Let_def ebind_Inr json_or_def strip_def lstrip_def split: if_splits)
  have "JStr ''ready-for-dev'' \<notin> set ls" "JStr ''needs-info'' \<notin> set ls"
    using add_valid_Inr [OF l(1)] add_valid_Inr [OF l(2)] assms(6,7) not_area_or_kind by blast+
  then show ?thesis by (auto simp: already_triaged_def ebind_Inr)
qed

subsection \<open>Runs for the witnesses\<close>

definition demo_issue :: "json list \<Rightarrow> json" where
  "demo_issue labels = JObj [(''number'', JNum 3), (''title'', JStr ''t''), (''labels'', JList (map (\<lambda>l. JObj [(''name'', l)]) labels))]"

definition demo_model :: "acmd \<Rightarrow> unit \<Rightarrow> areply \<times> unit" where
  "demo_model c s =
     (case c of
        Today \<Rightarrow> A_Text ''2026-05-26''
      | Incrby k n \<Rightarrow> A_Int n
      | Llm_Post _ _ _ _ _ _ \<Rightarrow> A_Response 200 [] (Some (JObj [(''choices'', JList [JObj [(''message'',
          JObj [(''content'', JStr ''{}'')])]])]))
      | _ \<Rightarrow> A_Json JNull, ())"

definition demo_actx :: actx where
  "demo_actx = \<lparr>json_loads = (\<lambda>_. Some (JObj [(''area'', JStr ''area/api''), (''ready'', JBool True)])),
     shorten = (\<lambda>s _. s)\<rparr>"

lemma demo_labelled:
  "(Gh (Set_Issue_Labels (JNum 3) [JStr ''area/api'', JStr ''ready-for-dev'']), A_Json JNull) \<in>
     set (history demo_model (triage_one demo_actx [] (demo_issue [])) ())"
  by code_simp

theorem triage_only_labels_witness:
  "triage_call (JNum 3) [] (Gh (Set_Issue_Labels (JNum 3) [JStr ''area/api'', JStr ''ready-for-dev'']))"
  using triage_only_labels [of "demo_issue []" "JNum 3" "[]", OF _ _ demo_labelled]
  by (simp add: demo_issue_def label_names_def)

theorem waiting_issue_left_alone_witness:
  "history demo_model (triage_one demo_actx [] (demo_issue [JStr ''area/api'', JStr ''kind/bug'', JStr ''needs-info''])) () = []"
  using waiting_issue_left_alone [of "demo_issue [JStr ''area/api'', JStr ''kind/bug'', JStr ''needs-info'']" "JNum 3"
      "[JStr ''area/api'', JStr ''kind/bug'', JStr ''needs-info'']" "''api''" "''bug''" demo_model demo_actx "[]" "()"]
  by (simp add: demo_issue_def label_names_def is_text_def)

end
