(* ===== verification/Backend.thy ===== *)
theory Backend
  imports Worktree Triage
begin

text \<open>
  \<open>orchestrator/roles/backend.py\<close>: the agent that implements issues. It takes one issue, has a model write files
  and tests, checks their paths against the rules, writes them to a worktree, runs the tests with at most two
  more attempts, and pushes a branch with a pull request. \<open>sys\<close> is the system prompt of the role.
\<close>

definition AREA_LABEL :: string where "AREA_LABEL = ''area/api''"
definition READY_LABEL :: string where "READY_LABEL = ''ready-for-dev''"
definition INPROGRESS_LABEL :: string where "INPROGRESS_LABEL = ''in-progress-by-backend''"
definition DONE_LABEL :: string where "DONE_LABEL = ''worked-by-backend''"
definition BLOCKED_LABEL :: string where "BLOCKED_LABEL = ''blocked-by-backend''"
definition NEEDS_REVIEW_LABEL :: string where "NEEDS_REVIEW_LABEL = ''needs-human-review''"
definition MAX_FILE_TREE_LINES :: nat where "MAX_FILE_TREE_LINES = 200"
definition MAX_TEST_RETRIES :: nat where "MAX_TEST_RETRIES = 2"
definition PYTEST_OUTPUT_TRUNC :: nat where "PYTEST_OUTPUT_TRUNC = 4000"

text \<open>The match of \<open>\{.*\}\<close>: from the first opening brace to the last closing one after it.\<close>

definition longest_object :: "string \<Rightarrow> string option" where
  "longest_object text =
     (let s = dropWhile (\<lambda>c. c \<noteq> CHR ''{'') text in
      if CHR ''}'' \<in> set s then Some (rev (dropWhile (\<lambda>c. c \<noteq> CHR ''}'') (rev s))) else None)"

definition extract_generated :: "actx \<Rightarrow> string \<Rightarrow> json option" where
  "extract_generated ax text = extract_json ax longest_object text"

record changes =
  summary :: string
  why :: string
  files :: json
  tests :: "json list"
  test_command :: json

subsection \<open>Paths\<close>

fun components :: "string \<Rightarrow> string \<Rightarrow> string list" where
  "components cur [] = [rev cur]"
| "components cur (c # cs) = (if c = CHR ''/'' then rev cur # components [] cs else components (c # cur) cs)"

definition parts :: "string \<Rightarrow> string list" where
  "parts p = filter (\<lambda>c. c \<noteq> [] \<and> c \<noteq> ''.'') (components [] p)"

text \<open>
  \<open>root / p\<close> of \<open>pathlib\<close>: an absolute \<open>p\<close> replaces the root, empty components and single dots go, \<open>..\<close> stays.
  Two slashes at the start, and no third, are kept.
\<close>

definition under :: "string \<Rightarrow> string \<Rightarrow> string" where
  "under root p =
     (if has_prefix ''/'' p
      then (if has_prefix ''//'' p \<and> \<not> has_prefix ''///'' p then ''//'' else ''/'') @ joined ''/'' (parts p)
      else root @ concat (map (\<lambda>c. ''/'' @ c) (parts p)))"

definition parent_dir :: "string \<Rightarrow> string" where
  "parent_dir p = (let q = rev (drop 1 (dropWhile (\<lambda>c. c \<noteq> CHR ''/'') (rev p))) in if q = [] then ''/'' else q)"

definition file_name :: "string \<Rightarrow> string" where
  "file_name p = rev (takeWhile (\<lambda>c. c \<noteq> CHR ''/'') (rev p))"

text \<open>\<open>changes.files + changes.tests\<close>\<close>

definition all_files :: "changes \<Rightarrow> exn + json list" where
  "all_files ch =
     (case files ch of JList l \<Rightarrow> Inr (l @ tests ch) | _ \<Rightarrow> Inl (TypeError ''unsupported operand type(s) for +''))"

definition checked_path :: "json \<Rightarrow> exn + string" where
  "checked_path f =
     ebind (json_get f ''path'' JNull) (\<lambda>v.
     ebind (text_method (json_or v (JStr []))) (\<lambda>s.
     Inr (dropWhile (\<lambda>c. c = CHR ''/'') (strip s))))"

definition bad_path :: "string \<Rightarrow> string option" where
  "bad_path p =
     (if p = [] then Some ''(empty)''
      else map_option (\<lambda>hit. p @ '' (matches '' @ hit @ '')'') (matches_forbidden p))"

fun bad_paths :: "json list \<Rightarrow> exn + string list" where
  "bad_paths [] = Inr []"
| "bad_paths (f # fs) =
     ebind (checked_path f) (\<lambda>p.
     ebind (bad_paths fs) (\<lambda>bad.
     Inr (case bad_path p of None \<Rightarrow> bad | Some b \<Rightarrow> b # bad)))"

definition validate_paths :: "changes \<Rightarrow> exn + string list" where
  "validate_paths ch = ebind (all_files ch) bad_paths"

definition write_one :: "worktree \<Rightarrow> json \<Rightarrow> unit agent" where
  "write_one wt f =
     andThen (of_result (ebind (json_index f ''path'') text_arg)) (\<lambda>s.
     let p = under (wt_path wt) s in
     andThen (tell (Make_Dirs (parent_dir p))) (\<lambda>_.
     andThen (of_result (ebind (json_index f ''content'') text_arg)) (\<lambda>text.
     tell (Write_Text p text))))"

primrec write_all :: "worktree \<Rightarrow> json list \<Rightarrow> unit agent" where
  "write_all wt [] = return ()"
| "write_all wt (f # fs) = andThen (write_one wt f) (\<lambda>_. write_all wt fs)"

definition write_files :: "worktree \<Rightarrow> changes \<Rightarrow> unit agent" where
  "write_files wt ch = andThen (of_result (all_files ch)) (write_all wt)"

subsection \<open>What the model is told\<close>

definition comment_line :: "actx \<Rightarrow> json \<Rightarrow> exn + string option" where
  "comment_line ax c =
     ebind (json_get c ''user'' JNull) (\<lambda>u.
     ebind (json_get (json_or u (JObj [])) ''login'' JNull) (\<lambda>l.
     ebind (json_get c ''body'' JNull) (\<lambda>b.
     ebind (text_method (json_or b (JStr []))) (\<lambda>b.
     let body = strip b in
     Inr (if body = [] then None
          else Some (''- @'' @ py_str (json_or l (JStr ''?'')) @ '': '' @ shorten ax body 1500))))))"

fun comment_lines :: "actx \<Rightarrow> json list \<Rightarrow> exn + string list" where
  "comment_lines ax [] = Inr []"
| "comment_lines ax (c # cs) =
     ebind (comment_line ax c) (\<lambda>l. ebind (comment_lines ax cs) (\<lambda>ls. Inr (case l of None \<Rightarrow> ls | Some t \<Rightarrow> t # ls)))"

text \<open>\<open>v[-10:]\<close> of a list or a text\<close>

fun last_10 :: "json \<Rightarrow> exn + json list" where
  "last_10 (JList l) = Inr (drop (length l - 10) l)"
| "last_10 (JStr s) = elements (JStr (drop (length s - 10) s))"
| "last_10 _ = Inl (TypeError ''unhashable type: slice'')"

definition format_comments :: "actx \<Rightarrow> json \<Rightarrow> exn + string" where
  "format_comments ax comments =
     (if \<not> truthy comments then Inr ''(aucun commentaire)''
      else
        ebind (last_10 comments) (\<lambda>cs.
        ebind (comment_lines ax cs) (\<lambda>ls.
        Inr (if joined [CHR 0x0A] ls = [] then ''(aucun commentaire significatif)'' else joined [CHR 0x0A] ls))))"

definition fetch_issue_comments :: "json \<Rightarrow> json agent" where
  "fetch_issue_comments number =
     catch (andThen (gh (List_Issue_Comments number)) (\<lambda>v. return (json_or v (JList []))))
       (\<lambda>e. if is_github_error e then return (JList []) else raise e)"

text \<open>The files below a directory: entries in the order of their components, at most \<open>limit\<close> of them.\<close>

definition cached_part :: "string \<Rightarrow> bool" where
  "cached_part p \<longleftrightarrow> ''__pycache__'' \<in> set (parts p) \<or> ''.pytest_cache'' \<in> set (parts p)"

primrec tree_lines :: "nat \<Rightarrow> nat \<Rightarrow> string list \<Rightarrow> string list \<Rightarrow> string list agent" where
  "tree_lines limit base out [] = return out"
| "tree_lines limit base out (p # ps) =
     (if cached_part p then tree_lines limit base out ps
      else
        andThen (ask (Path_Is_File p)) (\<lambda>r.
        let out = (if r = A_Bool True then out @ [drop base p] else out) in
        if length out \<ge> limit then
          return (out @ [''... (tronqu'' @ [CHR 0xE9] @ '' '' @ [CHR 0xE0] @ '' '' @ show_int (int limit) @ '' entr'' @ [CHR 0xE9] @ ''es)''])
        else tree_lines limit base out ps))"

definition repo_tree :: "string \<Rightarrow> nat \<Rightarrow> string agent" where
  "repo_tree root limit =
     andThen (path_exists root) (\<lambda>ex.
     if \<not> ex then return (''(r'' @ [CHR 0xE9] @ ''pertoire absent)'')
     else
       andThen (ask (Rglob root)) (\<lambda>r.
       let paths = (case r of A_Texts ps \<Rightarrow> ps | _ \<Rightarrow> []) in
       andThen (tree_lines limit (length (parent_dir root) + 1) [] (sort_key parts paths)) (\<lambda>ls.
       return (joined [CHR 0x0A] ls))))"

subsection \<open>Asking the model\<close>

text \<open>What a failed call logs: a timeout, or an error with its text.\<close>

definition log_failed_call :: "json \<Rightarrow> (string \<times> detail) list \<Rightarrow> exn \<Rightarrow> unit agent" where
  "log_failed_call number phase e =
     (case e of
        LLMTimeout _ \<Rightarrow> log_event ''backend'' ''llm-timeout'' ([(''issue'', NJson number)] @ phase)
      | _ \<Rightarrow> log_event ''backend'' ''llm-error'' ([(''issue'', NJson number)] @ phase @ [(''error'', NText (exn_str e))]))"

text \<open>
  The reply as an object; None, and a line in the log, when there is none or it is empty. \<open>paid_call\<close> pays
  \<open>expected\<close> for a call that fails.
\<close>

definition ask_for_changes ::
  "actx \<Rightarrow> string \<Rightarrow> json \<Rightarrow> prompt \<Rightarrow> reservation option \<Rightarrow> (string \<times> detail) list \<Rightarrow> json option agent" where
  "ask_for_changes ax sys number p rv phase =
     andThen (paid_call (the_role ''backend'') sys p 4000 2 rv 8000 (log_failed_call number phase)) (\<lambda>answered.
     case answered of
       None \<Rightarrow> return None
     | Some res \<Rightarrow>
         (let fail = andThen (log_event ''backend'' ''json-parse-fail''
                ([(''issue'', NJson number)] @ phase @ [(''raw'', NText (take 300 (content res)))])) (\<lambda>_. return None) in
          case extract_generated ax (content res) of
            None \<Rightarrow> fail
          | Some data \<Rightarrow> if truthy data then return (Some data) else fail))"

definition initial_changes :: "json \<Rightarrow> exn + changes option" where
  "initial_changes data =
     ebind (json_get data ''files'' JNull) (\<lambda>fs.
     if \<not> truthy fs then Inr None
     else
       ebind (json_get data ''summary'' JNull) (\<lambda>su.
       ebind (json_get data ''why'' JNull) (\<lambda>w.
       ebind (json_get data ''tests'' JNull) (\<lambda>ts.
       ebind (elements (json_or ts (JList []))) (\<lambda>ts.
       ebind (json_get data ''test_command'' JNull) (\<lambda>tc.
       Inr (Some \<lparr>summary = take 200 (py_str (json_or su (JStr ''(no summary)''))),
                  why = take 500 (py_str (json_or w (JStr []))),
                  files = fs, tests = ts, test_command = json_or tc JNull\<rparr>)))))))"

definition generate_changes :: "actx \<Rightarrow> string \<Rightarrow> json \<Rightarrow> json \<Rightarrow> worktree \<Rightarrow> json \<Rightarrow> changes option agent" where
  "generate_changes ax sys issue number wt comments =
     andThen (reserve_for ''backend'' (the_role ''backend'') number 8000) (\<lambda>paid.
     case paid of
       None \<Rightarrow> return None
     | Some rv \<Rightarrow>
         andThen (repo_tree (wt_path wt @ ''/apps/api'') MAX_FILE_TREE_LINES) (\<lambda>tree.
         andThen (of_result (format_comments ax comments)) (\<lambda>block.
         andThen (of_result (json_index issue ''title'')) (\<lambda>title.
         andThen (of_result (ebind (json_get issue ''body'' JNull) (\<lambda>b. text_method (json_or b (JStr []))))) (\<lambda>body.
         andThen (ask_for_changes ax sys number (Backend_Prompt number title (shorten ax body 4000) block tree) rv []) (\<lambda>data.
         case data of
           None \<Rightarrow> return None
         | Some d \<Rightarrow>
             andThen (of_result (json_get d ''summary'' JNull)) (\<lambda>su.
             if su = JStr ''BLOCKED'' then
               andThen (of_result (json_get d ''why'' JNull)) (\<lambda>w.
               andThen (log_event ''backend'' ''llm-blocked'' [(''issue'', NJson number), (''why'', NJson w)]) (\<lambda>_.
               return None))
             else of_result (initial_changes d))))))))"

text \<open>The files of the last attempt, as the prompt shows them.\<close>

fun shown_files :: "json list \<Rightarrow> exn + (json \<times> json) list" where
  "shown_files [] = Inr []"
| "shown_files (f # fs) =
     ebind (json_index f ''path'') (\<lambda>p.
     ebind (json_get f ''content'' (JStr [])) (\<lambda>c.
     ebind (shown_files fs) (\<lambda>r. Inr ((p, c) # r))))"

definition fixed_changes :: "changes \<Rightarrow> json \<Rightarrow> exn + changes option" where
  "fixed_changes previous data =
     ebind (json_get data ''files'' JNull) (\<lambda>fs.
     ebind (json_get data ''tests'' JNull) (\<lambda>ts.
     if \<not> truthy fs \<and> \<not> truthy ts then Inr None
     else
       ebind (json_get data ''summary'' JNull) (\<lambda>su.
       ebind (json_get data ''why'' JNull) (\<lambda>w.
       ebind (elements (json_or ts (JList (tests previous)))) (\<lambda>ts.
       ebind (json_get data ''test_command'' JNull) (\<lambda>tc.
       Inr (Some \<lparr>summary = take 200 (py_str (json_or su (JStr (summary previous)))),
                  why = take 500 (py_str (json_or w (JStr (why previous)))),
                  files = json_or fs (files previous), tests = ts,
                  test_command = json_or tc (test_command previous)\<rparr>)))))))"

definition generate_fix ::
  "actx \<Rightarrow> string \<Rightarrow> json \<Rightarrow> json \<Rightarrow> json \<Rightarrow> changes \<Rightarrow> string \<Rightarrow> changes option agent" where
  "generate_fix ax sys issue number comments previous output =
     andThen (reserve_for ''backend'' (the_role ''backend'') number 8000) (\<lambda>paid.
     case paid of
       None \<Rightarrow> return None
     | Some rv \<Rightarrow>
         andThen (of_result (ebind (all_files previous) shown_files)) (\<lambda>shown.
         andThen (of_result (format_comments ax comments)) (\<lambda>block.
         andThen (of_result (json_index issue ''title'')) (\<lambda>title.
         andThen (of_result (ebind (json_get issue ''body'' JNull) (\<lambda>b. text_method (json_or b (JStr []))))) (\<lambda>body.
         andThen (ask_for_changes ax sys number
             (Fix_Prompt number title (shorten ax body 2000) block shown (take PYTEST_OUTPUT_TRUNC output)) rv
             [(''phase'', NText ''retry'')]) (\<lambda>data.
         case data of
           None \<Rightarrow> return None
         | Some d \<Rightarrow> of_result (fixed_changes previous d)))))))"

subsection \<open>Tests\<close>

record pytest_run =
  exit_code :: int
  run_output :: string

record test_result =
  green :: bool
  attempts :: nat
  test_output :: string

definition resolve_pytest_cmd :: "worktree \<Rightarrow> string list agent" where
  "resolve_pytest_cmd wt =
     (let venv_py = wt_path wt @ ''/apps/api/venv/bin/python'' in
      andThen (path_exists venv_py) (\<lambda>ex.
      return (if ex then [venv_py, ''-m'', ''pytest''] else [''python3'', ''-m'', ''pytest''])))"

definition pytest :: "worktree \<Rightarrow> string list \<Rightarrow> string \<Rightarrow> pytest_run agent" where
  "pytest wt test_files label =
     (if test_files = [] then
        return \<lparr>exit_code = 0, run_output = ''('' @ label @ '': aucun fichier de test '' @ [CHR 0xE0] @ '' ex'' @ [CHR 0xE9] @ ''cuter)''\<rparr>
      else
        andThen (resolve_pytest_cmd wt) (\<lambda>cmd.
        andThen (run_process (cmd @ test_files @ [''-q'']) (Some (wt_path wt))) (\<lambda>(code, out, err).
        return \<lparr>exit_code = code, run_output = out @ (if err = [] then [] else CHR 0x0A # err)\<rparr>)))"

text \<open>\<open>[t["path"] for t in tests if t.get("path")]\<close>; a process takes texts only.\<close>

fun targets :: "json list \<Rightarrow> exn + string list" where
  "targets [] = Inr []"
| "targets (t # ts) =
     ebind (json_get t ''path'' JNull) (\<lambda>p.
     if truthy p then ebind (text_arg p) (\<lambda>s. ebind (targets ts) (\<lambda>r. Inr (s # r)))
     else targets ts)"

primrec utils_tests :: "string \<Rightarrow> string list \<Rightarrow> string list \<Rightarrow> string list agent" where
  "utils_tests root excluded [] = return []"
| "utils_tests root excluded (u # us) =
     (if file_name u = ''__init__.py'' then utils_tests root excluded us
      else
        (let rel = ''apps/api/tests/test_'' @ file_name u in
         andThen (path_exists (root @ ''/'' @ rel)) (\<lambda>ex.
         andThen (utils_tests root excluded us) (\<lambda>r.
         return (if ex \<and> rel \<notin> set excluded then rel # r else r)))))"

definition full_utils_tests :: "worktree \<Rightarrow> string list option \<Rightarrow> string list agent" where
  "full_utils_tests wt exclude =
     andThen (path_exists (wt_path wt @ ''/apps/api/utils'')) (\<lambda>u.
     if \<not> u then return []
     else
       andThen (path_exists (wt_path wt @ ''/apps/api/tests'')) (\<lambda>t.
       if \<not> t then return []
       else
         andThen (ask (Glob_Py (wt_path wt @ ''/apps/api/utils''))) (\<lambda>r.
         utils_tests (wt_path wt) (case exclude of None \<Rightarrow> [] | Some l \<Rightarrow> l)
           (sort_key parts (case r of A_Texts ps \<Rightarrow> ps | _ \<Rightarrow> [])))))"

definition log_test :: "json \<Rightarrow> nat \<Rightarrow> string \<Rightarrow> (string \<times> detail) list \<Rightarrow> unit agent" where
  "log_test number attempt phase extra =
     log_event ''backend'' ''backend-test-retry''
       ([(''issue'', NJson number), (''attempt'', NInt (int attempt)), (''phase'', NText phase)] @ extra)"

text \<open>
  The tests of the changes, and when they pass those of all modules: the output of both, or of the first that
  failed, and whether both passed. \<open>suffix\<close> names the attempt in the log.
\<close>

definition test_round :: "worktree \<Rightarrow> json \<Rightarrow> changes \<Rightarrow> nat \<Rightarrow> string \<Rightarrow> (bool \<times> string) agent" where
  "test_round wt number ch attempt suffix =
     andThen (of_result (targets (tests ch))) (\<lambda>target.
     andThen (pytest wt target (''target'' @ suffix)) (\<lambda>r1.
     andThen (log_test number attempt (''target'' @ suffix) [(''exit_code'', NInt (exit_code r1))]) (\<lambda>_.
     if exit_code r1 \<noteq> 0 then return (False, run_output r1)
     else
       andThen (full_utils_tests wt None) (\<lambda>full.
       andThen (pytest wt full (''utils-full'' @ suffix)) (\<lambda>r2.
       andThen (log_test number attempt (''utils-full'' @ suffix) [(''exit_code'', NInt (exit_code r2))]) (\<lambda>_.
       return (exit_code r2 = 0, run_output r2)))))))"

text \<open>The loop over the further attempts, with the number of those left.\<close>

primrec retry_tests ::
  "actx \<Rightarrow> string \<Rightarrow> worktree \<Rightarrow> json \<Rightarrow> json \<Rightarrow> json \<Rightarrow> nat \<Rightarrow> changes \<Rightarrow> string \<Rightarrow> test_result agent" where
  "retry_tests ax sys wt issue number comments 0 current output =
     return \<lparr>green = False, attempts = 1 + MAX_TEST_RETRIES, test_output = output\<rparr>"
| "retry_tests ax sys wt issue number comments (Suc left) current output =
     (let retry = MAX_TEST_RETRIES - left; attempt = 1 + retry;
          stop = return \<lparr>green = False, attempts = attempt, test_output = output\<rparr> in
      andThen (generate_fix ax sys issue number comments current output) (\<lambda>fix.
      case fix of
        None \<Rightarrow> andThen (log_test number attempt ''fix-llm-fail'' []) (\<lambda>_. stop)
      | Some ch \<Rightarrow>
          andThen (of_result (validate_paths ch)) (\<lambda>forbidden.
          if forbidden \<noteq> [] then
            andThen (log_test number attempt ''forbidden-path'' [(''paths'', NTexts forbidden)]) (\<lambda>_. stop)
          else
            andThen (write_files wt ch) (\<lambda>_.
            andThen (test_round wt number ch attempt (''-retry'' @ show_int (int retry))) (\<lambda>(passed, out).
            if passed then return \<lparr>green = True, attempts = attempt, test_output = out\<rparr>
            else retry_tests ax sys wt issue number comments left ch out)))))"

definition run_tests_with_retries ::
  "actx \<Rightarrow> string \<Rightarrow> worktree \<Rightarrow> json \<Rightarrow> json \<Rightarrow> json \<Rightarrow> changes \<Rightarrow> test_result agent" where
  "run_tests_with_retries ax sys wt issue number comments ch =
     andThen (test_round wt number ch 1 []) (\<lambda>(passed, out).
     if passed then return \<lparr>green = True, attempts = 1, test_output = out\<rparr>
     else retry_tests ax sys wt issue number comments MAX_TEST_RETRIES ch out)"

subsection \<open>Git and the pull request\<close>

definition commit_message :: "changes \<Rightarrow> json \<Rightarrow> string" where
  "commit_message ch number =
     summary ch @ [CHR 0x0A, CHR 0x0A] @ ''Refs #'' @ py_str number @ [CHR 0x0A, CHR 0x0A] @ why ch"

text \<open>None: a commit was made and pushed; otherwise why not.\<close>

definition commit_and_push :: "worktree \<Rightarrow> changes \<Rightarrow> json \<Rightarrow> block_reason option agent" where
  "commit_and_push wt ch number =
     (let cwd = wt_path wt in
      andThen (git [''add'', ''-A''] cwd) (\<lambda>(code, _, err).
      if code \<noteq> 0 then return (Some (Git_Failed ''git add'' (strip err)))
      else
        andThen (git [''diff'', ''--cached'', ''--name-only''] cwd) (\<lambda>(_, out, _).
        if strip out = [] then return (Some Nothing_To_Commit)
        else
          andThen (git [''commit'', ''-m'', commit_message ch number] cwd)
            (\<lambda>(code, _, err).
          if code \<noteq> 0 then return (Some (Git_Failed ''git commit (pre-commit hook?)'' (strip err)))
          else
            andThen (git [''push'', ''-u'', ''origin'', wt_branch wt] cwd) (\<lambda>(code, _, err).
            if code \<noteq> 0 then return (Some (Git_Failed ''git push'' (strip err)))
            else return None)))))"

definition open_pr :: "worktree \<Rightarrow> changes \<Rightarrow> json \<Rightarrow> string list \<Rightarrow> int agent" where
  "open_pr wt ch number extra_labels =
     andThen (gh (Create_Pull_Request (summary ch) (why ch) (test_command ch) number (wt_branch wt))) (\<lambda>pr.
     andThen (of_result (ebind (json_index pr ''number'') json_int)) (\<lambda>pr_num.
     andThen
       (if extra_labels \<noteq> [] then ignoring_github (gh_do (Add_Labels (JNum pr_num) extra_labels)) else return ()) (\<lambda>_.
     return pr_num)))"

definition comment_pr_with_tests :: "int \<Rightarrow> test_result \<Rightarrow> unit agent" where
  "comment_pr_with_tests pr_num result =
     ignoring_github (gh_do (Comment_Pr (JNum pr_num)
       (Tests_Red (int (attempts result)) (take PYTEST_OUTPUT_TRUNC (test_output result)))))"

definition block :: "json \<Rightarrow> block_reason \<Rightarrow> unit agent" where
  "block number reason =
     andThen (gh_do (Comment_Issue number (Blocked reason))) (\<lambda>_.
     andThen (ignoring_github (gh_do (Remove_Label number INPROGRESS_LABEL))) (\<lambda>_.
     andThen (ignoring_github (gh_do (Add_Labels number [BLOCKED_LABEL]))) (\<lambda>_.
     log_event ''backend'' ''blocked'' [(''issue'', NJson number), (''reason'', NBlock reason)])))"

subsection \<open>Working on an issue\<close>

definition publish :: "worktree \<Rightarrow> json \<Rightarrow> changes \<Rightarrow> test_result \<Rightarrow> unit agent" where
  "publish wt number ch tr =
     andThen (commit_and_push wt ch number) (\<lambda>failure.
     case failure of
       Some reason \<Rightarrow> block number reason
     | None \<Rightarrow>
         andThen (open_pr wt ch number (if green tr then [] else [NEEDS_REVIEW_LABEL])) (\<lambda>pr_num.
         andThen (if green tr then return () else comment_pr_with_tests pr_num tr) (\<lambda>_.
         andThen (gh_do (Comment_Issue number (Worked_In_Pr pr_num))) (\<lambda>_.
         andThen (gh_do (Remove_Label number INPROGRESS_LABEL)) (\<lambda>_.
         andThen (gh_do (Add_Labels number [DONE_LABEL])) (\<lambda>_.
         log_event ''backend'' ''done'' [(''issue'', NJson number), (''pr'', NInt pr_num),
           (''tests_green'', NBool (green tr)), (''attempts'', NInt (int (attempts tr)))]))))))"

definition develop :: "actx \<Rightarrow> string \<Rightarrow> json \<Rightarrow> json \<Rightarrow> worktree \<Rightarrow> unit agent" where
  "develop ax sys issue number wt =
     andThen (fetch_issue_comments number) (\<lambda>comments.
     andThen (generate_changes ax sys issue number wt comments) (\<lambda>generated.
     case generated of
       None \<Rightarrow> block number No_Changes
     | Some ch \<Rightarrow>
         andThen (of_result (validate_paths ch)) (\<lambda>forbidden.
         if forbidden \<noteq> [] then block number (Forbidden_Changes forbidden)
         else
           andThen (write_files wt ch) (\<lambda>_.
           andThen (run_tests_with_retries ax sys wt issue number comments ch) (\<lambda>tr.
           publish wt number ch tr)))))"

definition set_up :: "roots \<Rightarrow> json \<Rightarrow> json \<Rightarrow> worktree option agent" where
  "set_up rt number title =
     catch
       (andThen (ensure_base_uptodate rt) (\<lambda>_.
        andThen (create_worktree rt (the_role ''backend'') number title) (\<lambda>wt. return (Some wt))))
       (\<lambda>e. case e of
          WorktreeError m \<Rightarrow> andThen (block number (Setup_Failed m)) (\<lambda>_. return None)
        | _ \<Rightarrow> raise e)"

definition work_in :: "actx \<Rightarrow> string \<Rightarrow> roots \<Rightarrow> json \<Rightarrow> json \<Rightarrow> worktree \<Rightarrow> unit agent" where
  "work_in ax sys rt issue number wt =
     finally_do
       (catch (develop ax sys issue number wt)
          (\<lambda>e. if is_exception e then block number (Crash (exn_str e)) else raise e))
       (catch (remove_worktree rt wt False) (\<lambda>e. if is_exception e then return () else raise e))"

definition work_one :: "actx \<Rightarrow> string \<Rightarrow> roots \<Rightarrow> json \<Rightarrow> unit agent" where
  "work_one ax sys rt issue =
     andThen (of_result (json_index issue ''number'')) (\<lambda>number.
     andThen (of_result (json_index issue ''title'')) (\<lambda>title.
     andThen (log_event ''backend'' ''pick'' [(''issue'', NJson number), (''title'', NJson title)]) (\<lambda>_.
     andThen (gh_do (Add_Labels number [INPROGRESS_LABEL])) (\<lambda>_.
     andThen (set_up rt number title) (\<lambda>wt.
     case wt of None \<Rightarrow> return () | Some w \<Rightarrow> work_in ax sys rt issue number w)))))"

subsection \<open>Picking an issue\<close>

text \<open>\<open>any(l["name"] == name for l in ls)\<close>\<close>

fun any_named :: "string \<Rightarrow> json list \<Rightarrow> exn + bool" where
  "any_named name [] = Inr False"
| "any_named name (l # ls) =
     ebind (json_index l ''name'') (\<lambda>n. if n = JStr name then Inr True else any_named name ls)"

definition has_label :: "json \<Rightarrow> string \<Rightarrow> exn + bool" where
  "has_label issue name = ebind (json_get issue ''labels'' (JList [])) (\<lambda>v. ebind (elements v) (any_named name))"

primrec has_none :: "json \<Rightarrow> string list \<Rightarrow> exn + bool" where
  "has_none issue [] = Inr True"
| "has_none issue (n # ns) = ebind (has_label issue n) (\<lambda>b. if b then Inr False else has_none issue ns)"

definition taken_labels :: "string list" where
  "taken_labels = [INPROGRESS_LABEL, DONE_LABEL, BLOCKED_LABEL, NEEDS_REVIEW_LABEL]"

fun candidates :: "json list \<Rightarrow> exn + json list" where
  "candidates [] = Inr []"
| "candidates (i # is) =
     ebind (has_none i taken_labels) (\<lambda>b. ebind (candidates is) (\<lambda>cs. Inr (if b then i # cs else cs)))"

text \<open>The numbers of issues; values that are no numbers are taken not to compare.\<close>

fun numbered :: "json list \<Rightarrow> exn + (json \<times> json) list" where
  "numbered [] = Inr []"
| "numbered (i # is) = ebind (json_index i ''number'') (\<lambda>n. ebind (numbered is) (\<lambda>r. Inr ((n, i) # r)))"

fun json_number :: "json \<Rightarrow> int option" where
  "json_number (JNum n) = Some n"
| "json_number (JBool b) = Some (if b then 1 else 0)"
| "json_number _ = None"

definition first_issue :: "json list \<Rightarrow> exn + json" where
  "first_issue cs =
     ebind (numbered cs) (\<lambda>nis.
     if length nis = 1 then Inr (snd (hd nis))
     else if list_all (\<lambda>ni. json_number (fst ni) \<noteq> None) nis
       then Inr (snd (hd (sort_key (\<lambda>ni. the (json_number (fst ni))) nis)))
     else Inl (TypeError ''not supported between instances''))"

definition backend_heartbeat :: "actx \<Rightarrow> string \<Rightarrow> roots \<Rightarrow> unit agent" where
  "backend_heartbeat ax sys rt =
     andThen (ask_json (Env_Var ''KOLA_BACKEND_PAUSED'')) (\<lambda>paused.
     if paused = JStr ''1'' then
       log_event ''backend'' ''paused'' [(''reason'', NText ''KOLA_BACKEND_PAUSED=1'')]
     else
       andThen
         (catch (andThen (gh (List_Open_Issues [AREA_LABEL, READY_LABEL])) (\<lambda>v. return (Some v)))
            (\<lambda>e. if is_github_error e then
                   andThen (log_event ''backend'' ''heartbeat-fail'' [(''error'', NText (exn_str e))]) (\<lambda>_. return None)
                 else raise e))
         (\<lambda>issues. case issues of
            None \<Rightarrow> return ()
          | Some v \<Rightarrow>
              andThen (of_result (ebind (elements v) candidates)) (\<lambda>cs.
              if cs = [] then return ()
              else andThen (of_result (first_issue cs)) (work_one ax sys rt))))"

end
