(* ===== verification/Backend_Safety.thy ===== *)
theory Backend_Safety
  imports Backend
begin

text \<open>
  What the agent of \<open>roles/backend.py\<close> does to files, branches and issues, whatever GitHub, git, Redis, the
  model and the tests reply.
\<close>

subsection \<open>Programs that issue only some commands\<close>

lemma wp_only: "only ok m \<Longrightarrow> (\<And>x. Q x) \<Longrightarrow> wp ok G m Q"
  unfolding only_def by (induction m) auto

lemma only_process [only_rules]: "ok (Run_Process args cwd) \<Longrightarrow> only ok (run_process args cwd)"
  "ok (Run_Process (''git'' # gargs) (Some d)) \<Longrightarrow> only ok (git gargs d)"
  "ok (Path_Exists p) \<Longrightarrow> only ok (path_exists p)"
  unfolding run_process_def git_def path_exists_def by (auto intro!: only_rules split: areply.splits)

text \<open>The commands a process of git or the tests, a file or the log needs; none writes a file or changes GitHub.\<close>

definition harmless :: "acmd \<Rightarrow> bool" where
  "harmless c \<longleftrightarrow> (case c of Gh _ \<Rightarrow> False | Write_Text _ _ \<Rightarrow> False | Make_Dirs _ \<Rightarrow> False | Remove_Tree _ \<Rightarrow> False
     | Llm_Post _ _ _ _ _ _ \<Rightarrow> False | Run_Process _ _ \<Rightarrow> False | _ \<Rightarrow> True)"

lemma only_repo_tree: "only harmless (repo_tree root n)"
proof -
  have "only harmless (tree_lines n b out ps)" for b out ps
    by (induction ps arbitrary: out) (auto intro!: only_rules simp: harmless_def Let_def)
  then show ?thesis unfolding repo_tree_def Let_def by (auto intro!: only_rules simp: harmless_def)
qed

lemma only_full_utils: "only harmless (full_utils_tests wt ex)"
proof -
  have "only harmless (utils_tests r e us)" for r e us
    by (induction us) (auto intro!: only_rules simp: harmless_def Let_def)
  then show ?thesis unfolding full_utils_tests_def by (auto intro!: only_rules simp: harmless_def)
qed

lemma only_weaken: "only ok m \<Longrightarrow> (\<And>c. ok c \<Longrightarrow> ok' c) \<Longrightarrow> only ok' m"
  unfolding only_def by (induction m) auto

lemma only_pytest: "(\<And>c. harmless c \<Longrightarrow> ok c) \<Longrightarrow> (\<And>a. ok (Run_Process a (Some (wt_path wt)))) \<Longrightarrow> only ok (pytest wt fs l)"
  unfolding pytest_def resolve_pytest_cmd_def Let_def by (auto intro!: only_rules simp: harmless_def)

lemma only_test_round:
  assumes "\<And>c. harmless c \<Longrightarrow> ok c" and "\<And>a. ok (Run_Process a (Some (wt_path wt)))"
  shows "only ok (test_round wt number ch a sfx)"
  unfolding test_round_def log_test_def
  by (auto intro!: only_rules only_pytest only_weaken [OF only_full_utils] assms simp: harmless_def)

lemma only_asks:
  assumes "\<And>c. harmless c \<Longrightarrow> ok c" and "\<And>al sy p mt tp ts. ok (Llm_Post al sy p mt tp ts)"
  shows "only ok (generate_changes ax sys issue number wt comments)"
    and "only ok (generate_fix ax sys issue number comments prev out)"
proof -
  have h: "ok Today" "ok (Incrby k n)" "ok (Expire k n)" "ok (Log_Event w a p)" for k n w a p
    by (auto intro!: assms(1) simp: harmless_def)
  have pay: "only ok (reserve_for who rl n e)" for who rl n e
    by (rule only_budget(1)) (rule h)+
  have fail: "only ok (log_failed_call n ph e)" for n ph e
    unfolding log_failed_call_def by (auto intro!: only_rules h split: exn.splits)
  have ask: "only ok (ask_for_changes ax sys n p rv ph)" for n p rv ph
    unfolding ask_for_changes_def Let_def
    by (auto intro!: only_rules only_paid_call fail h assms(2) split: option.splits)
  show "only ok (generate_changes ax sys issue number wt comments)"
    unfolding generate_changes_def
    by (auto intro!: only_rules pay ask h only_weaken [OF only_repo_tree] assms(1) split: option.splits)
  show "only ok (generate_fix ax sys issue number comments prev out)"
    unfolding generate_fix_def by (auto intro!: only_rules pay ask split: option.splits)
qed

subsection \<open>Every path written was checked\<close>

definition clean_path :: "string \<Rightarrow> string" where
  "clean_path raw = dropWhile (\<lambda>c. c = CHR ''/'') (strip raw)"

definition writes_checked :: "string \<Rightarrow> acmd \<Rightarrow> bool" where
  "writes_checked d c \<longleftrightarrow> (\<forall>p t. c = Write_Text p t \<longrightarrow>
     (\<exists>raw. p = under d raw \<and> clean_path raw \<noteq> [] \<and> allowed_path (clean_path raw)))"

lemma bad_path_None: "bad_path p = None \<longleftrightarrow> p \<noteq> [] \<and> allowed_path p"
  by (auto simp: bad_path_def matches_forbidden_None split: option.splits)

lemma checked_path_Inr:
  "checked_path f = Inr p \<Longrightarrow> json_index f ''path'' = Inr (JStr s) \<Longrightarrow> p = clean_path s"
  by (cases f) (auto simp: checked_path_def ebind_Inr clean_path_def json_or_def split: option.splits if_splits)

lemma only_write_one:
  assumes "checked_path f = Inr p" and "bad_path p = None"
  shows "only (writes_checked (wt_path wt)) (write_one wt f)"
proof -
  have "writes_checked (wt_path wt) (Write_Text (under (wt_path wt) s) t)" if "json_index f ''path'' = Inr (JStr s)" for s t
    using checked_path_Inr [OF assms(1) that] assms(2) by (auto simp: writes_checked_def bad_path_None)
  then show ?thesis
    unfolding write_one_def Let_def
    by (intro only_result only_rules) (auto simp: ebind_Inr writes_checked_def)
qed

lemma only_write_files:
  assumes "validate_paths ch = Inr []"
  shows "only (writes_checked (wt_path wt)) (write_files wt ch)"
proof -
  have "bad_paths fs = Inr [] \<Longrightarrow> only (writes_checked (wt_path wt)) (write_all wt fs)" for fs
  proof (induction fs)
    case (Cons f fs)
    then obtain p where "checked_path f = Inr p" "bad_path p = None" "bad_paths fs = Inr []"
      by (auto simp: ebind_Inr split: option.splits)
    with Cons.IH show ?case by (auto intro!: only_rules only_write_one)
  qed (simp add: only_rules)
  with assms show ?thesis
    unfolding write_files_def validate_paths_def by (intro only_result) (auto simp: ebind_Inr)
qed

lemma only_retry:
  assumes "\<And>ch. validate_paths ch = Inr [] \<Longrightarrow> only ok (write_files wt ch)" and "\<And>c. harmless c \<Longrightarrow> ok c"
    and "\<And>a. ok (Run_Process a (Some (wt_path wt)))" and "\<And>al sy p mt tp ts. ok (Llm_Post al sy p mt tp ts)"
  shows "only ok (retry_tests ax sys wt issue number comments n ch out)"
proof (induction n arbitrary: ch out)
  case 0
  then show ?case by (simp add: only_rules)
next
  case (Suc n)
  have "ok (Log_Event w a p)" for w a p by (auto intro!: assms(2) simp: harmless_def)
  then show ?case
    by (auto simp: Let_def log_test_def harmless_def
      intro!: only_result only_andThen only_pure only_calls only_asks(2) only_test_round assms Suc.IH split: option.splits prod.splits)
qed

text \<open>What the agent may ask GitHub while it works on an issue.\<close>

fun backend_gh :: "json \<Rightarrow> gh_cmd \<Rightarrow> bool" where
  "backend_gh n (Comment_Issue k _) = (k = n)"
| "backend_gh n (List_Issue_Comments k) = (k = n)"
| "backend_gh n (Remove_Label k l) = (k = n \<and> l = INPROGRESS_LABEL)"
| "backend_gh n (Add_Labels k ls) = (k = n \<and> (ls = [DONE_LABEL] \<or> ls = [BLOCKED_LABEL]) \<or> ls = [NEEDS_REVIEW_LABEL])"
| "backend_gh n (Create_Pull_Request _ _ _ k _) = (k = n)"
| "backend_gh n (Comment_Pr _ c) = (\<exists>a out. c = Tests_Red a out)"
| "backend_gh n _ = False"

lemma only_develop:
  assumes "\<And>ch. validate_paths ch = Inr [] \<Longrightarrow> only ok (write_files wt ch)" and "\<And>c. harmless c \<Longrightarrow> ok c"
    and "\<And>a. ok (Run_Process a (Some (wt_path wt)))" and "\<And>al sy p mt tp ts. ok (Llm_Post al sy p mt tp ts)"
    and "\<And>g. backend_gh number g \<Longrightarrow> ok (Gh g)"
  shows "only ok (develop ax sys issue number wt)"
proof -
  have log: "ok (Log_Event w a p)" for w a p by (auto intro!: assms(2) simp: harmless_def)
  have block: "only ok (block number r)" for r
    unfolding block_def by (auto intro!: only_rules assms(5) log)
  have publish: "only ok (publish wt number ch tr)" for ch tr
    unfolding publish_def commit_and_push_def open_pr_def comment_pr_with_tests_def Let_def
    by (auto intro!: only_rules block assms log split: option.splits)
  have tests: "only ok (run_tests_with_retries ax sys wt issue number comments ch)" for comments ch
    unfolding run_tests_with_retries_def
    by (auto intro!: only_rules only_retry only_test_round assms split: prod.splits)
  have fetch: "only ok (fetch_issue_comments number)"
    unfolding fetch_issue_comments_def by (auto intro!: only_rules assms)
  show ?thesis
    unfolding develop_def
    by (auto intro!: only_result only_andThen fetch only_asks(1) assms block publish tests split: option.splits)
qed

lemma in_history_andThen:
  "x \<in> set (history H (andThen m f) s) \<longleftrightarrow>
     x \<in> set (history H m s) \<or> (\<exists>a s1. run H m s = (Inr a, s1) \<and> x \<in> set (history H (f a) s1))"
  by (auto simp: history_andThen split: prod.splits sum.splits)

lemma wp_create_worktree:
  "wp (\<lambda>_. True) (\<lambda>_ _. True) (create_worktree rt rl n (JStr title))
     (\<lambda>x. \<forall>wt. x = Inr wt \<longrightarrow> wt_path wt = worktree_dir rt rl n title \<and> wt_branch wt = branch_name rl n title)"
proof -
  have t: "wp (\<lambda>_. True) (\<lambda>_ _. True) m (\<lambda>_. True)" for m :: "'z agent" by (induction m) auto
  have c: "wp (\<lambda>_. True) (\<lambda>_ _. True) m Q" if "\<And>x. Q x" for m :: "'z agent" and Q
    using wp_mono [OF t, of Q m] that by simp
  show ?thesis
    by (auto simp: create_worktree_def Let_def intro!: c split: sum.splits prod.splits)
qed

lemma set_up_worktree:
  assumes "run H (set_up rt n title) s = (Inr (Some wt), s')"
  shows "\<exists>t. title = JStr t \<and> wt_path wt = worktree_dir rt (the_role ''backend'') n t \<and>
    wt_branch wt = branch_name (the_role ''backend'') n t"
proof -
  obtain s1 s2 where c: "run H (create_worktree rt (the_role ''backend'') n title) s1 = (Inr wt, s2)"
    using assms unfolding set_up_def
    by (auto simp: run_catch run_andThen split: prod.splits sum.splits exn.splits)
  then obtain t where t: "title = JStr t"
    by (cases title) (auto simp: create_worktree_def run_andThen)
  with wp_history [OF wp_create_worktree, of H rt "the_role ''backend''" n t s1] c show ?thesis by auto
qed

lemma only_set_up:
  assumes "\<And>c. harmless c \<Longrightarrow> ok c" and "\<And>a d. ok (Run_Process a d)" and "\<And>d. ok (Make_Dirs d)"
    and "\<And>g. backend_gh n g \<Longrightarrow> ok (Gh g)"
  shows "only ok (set_up rt n title)"
proof -
  have h: "ok (Log_Event w a p)" "ok (Path_Exists q)" for w a p q by (auto intro!: assms(1) simp: harmless_def)
  have "only ok (create_worktree rt rl n title)" for rl
    unfolding create_worktree_def configure_identity_def configure_one_def install_hook_def Let_def
    by (auto intro!: only_rules assms h)
  then show ?thesis
    unfolding set_up_def ensure_base_uptodate_def block_def
    by (auto intro!: only_rules assms h split: exn.splits)
qed

lemma only_remove:
  assumes "\<And>a. ok (Run_Process a (Some (poc_dir rt)))" and "ok (Path_Exists (wt_path wt))" and "ok (Remove_Tree (wt_path wt))"
  shows "only ok (remove_worktree rt wt force)"
proof -
  have "only ok (Call (Remove_Tree (wt_path wt)) (\<lambda>_. return ()) :: unit agent)"
    using assms(3) by (simp add: only_def)
  then show ?thesis
    unfolding remove_worktree_def by (auto intro!: only_rules assms split: prod.splits)
qed

lemma work_in_writes: "only (writes_checked (wt_path wt)) (work_in ax sys rt issue number wt)"
  unfolding work_in_def
proof (intro only_rules)
  show "only (writes_checked (wt_path wt)) (develop ax sys issue number wt)"
    by (rule only_develop [OF only_write_files]) (auto simp: writes_checked_def harmless_def)
qed (auto intro!: only_rules only_remove simp: block_def writes_checked_def)

lemma work_one_history:
  assumes "(c, r) \<in> set (history H (work_one ax sys rt issue) s)" and "\<exists>p t. c = Write_Text p t"
  shows "\<exists>n title wt s'. json_index issue ''number'' = Inr n \<and> json_index issue ''title'' = Inr (JStr title) \<and>
    wt_path wt = worktree_dir rt (the_role ''backend'') n title \<and>
    (c, r) \<in> set (history H (work_in ax sys rt issue n wt) s')"
proof -
  obtain n where n: "json_index issue ''number'' = Inr n"
    using assms(1) by (cases "json_index issue ''number''") (auto simp: work_one_def history_andThen)
  obtain title where t: "json_index issue ''title'' = Inr title"
    using assms(1) n by (cases "json_index issue ''title''") (auto simp: work_one_def history_andThen)
  obtain p u where c: "c = Write_Text p u" using assms(2) by blast
  have "only (\<lambda>c. \<forall>p t. c \<noteq> Write_Text p t) (set_up rt n title)"
    by (rule only_set_up) (auto simp: harmless_def)
  then have no: "(c, r) \<notin> set (history H (set_up rt n title) s')" for s'
    using only_history [of _ _ c r H s'] c by fast
  define rest where "rest = andThen (set_up rt n title)
      (\<lambda>wt. case wt of None \<Rightarrow> return () | Some w \<Rightarrow> work_in ax sys rt issue n w)"
  have "work_one ax sys rt issue = andThen (log_event ''backend'' ''pick'' [(''issue'', NJson n), (''title'', NJson title)])
      (\<lambda>_. andThen (gh_do (Add_Labels n [INPROGRESS_LABEL])) (\<lambda>_. rest))"
    by (simp add: work_one_def n t andThen_result rest_def)
  with assms(1) obtain s1 where "(c, r) \<in> set (history H rest s1)"
    by (auto simp: in_history_andThen c)
  then obtain wt s2 where "run H (set_up rt n title) s1 = (Inr wt, s2)"
      "(c, r) \<in> set (history H (case wt of None \<Rightarrow> return () | Some w \<Rightarrow> work_in ax sys rt issue n w) s2)"
    using no unfolding rest_def by (auto simp: in_history_andThen)
  then obtain wt where "run H (set_up rt n title) s1 = (Inr (Some wt), s2)"
      "(c, r) \<in> set (history H (work_in ax sys rt issue n wt) s2)"
    by (cases wt) auto
  with set_up_worktree [OF this(1)] n t show ?thesis by blast
qed


subsection \<open>What the check of the paths misses\<close>

definition one_file :: "string \<Rightarrow> string \<Rightarrow> changes" where
  "one_file p t = \<lparr>summary = [], why = [],
     files = JList [JObj [(''path'', JStr p), (''content'', JStr t)]], tests = [], test_command = JNull\<rparr>"

lemma validate_one: "validate_paths (one_file p t) = Inr [] \<longleftrightarrow> clean_path p \<noteq> [] \<and> allowed_path (clean_path p)"
proof -
  have "checked_path (JObj [(''path'', JStr p), (''content'', JStr t)]) = Inr (clean_path p)"
    by (cases "p = []") (simp_all add: checked_path_def json_or_def clean_path_def)
  then show ?thesis
    by (simp add: validate_paths_def one_file_def all_files_def bad_path_None [symmetric] split: option.splits)
qed

lemma trace_write_one:
  assumes "\<And>d s e. fst (H (Make_Dirs d) s) \<noteq> A_Err e"
  shows "trace H (write_files wt (one_file p t)) s =
    [Make_Dirs (parent_dir (under (wt_path wt) p)), Write_Text (under (wt_path wt) p) t]"
proof -
  have "\<exists>x. answer (fst (H (Make_Dirs d) s)) = Inr x" for d s
    using assms [of d s] by (cases "fst (H (Make_Dirs d) s)") auto
  then obtain x where "\<And>d s. answer (fst (H (Make_Dirs d) s)) = Inr (x d s)" by metis
  then show ?thesis
    unfolding trace_history by (auto simp: write_files_def one_file_def all_files_def write_one_def history_andThen
        run_tell Let_def split: prod.splits sum.splits)
qed

lemma under_absolute: "has_prefix ''/'' p \<Longrightarrow> under root p = under root' p"
  by (simp add: under_def)

lemma allowed_examples: "allowed_path ''./CODEOWNERS''" "allowed_path ''etc/cron.d/job''" "allowed_path ''../../x''"
  "\<not> allowed_path ''CODEOWNERS''"
  unfolding matches_forbidden_None [symmetric] by code_simp+

text \<open>
  C36. The check looks at another path than the one written: a path with a dot in front is allowed where the bare
  one is forbidden and names the same file; an absolute path, whose slash the check drops, is
  written where it says, outside every worktree; and two dots climb out of the worktree.
\<close>

theorem path_check_is_bypassed:
  assumes "\<And>d s e. fst (H (Make_Dirs d) s) \<noteq> A_Err e"
  shows "validate_paths (one_file ''CODEOWNERS'' t) \<noteq> Inr [] \<and> validate_paths (one_file ''./CODEOWNERS'' t) = Inr [] \<and>
    last (trace H (write_files wt (one_file ''./CODEOWNERS'' t)) s) = Write_Text (wt_path wt @ ''/CODEOWNERS'') t \<and>
    validate_paths (one_file ''/etc/cron.d/job'' t) = Inr [] \<and>
    last (trace H (write_files wt (one_file ''/etc/cron.d/job'' t)) s) = Write_Text ''/etc/cron.d/job'' t \<and>
    validate_paths (one_file ''../../x'' t) = Inr [] \<and>
    last (trace H (write_files wt (one_file ''../../x'' t)) s) = Write_Text (wt_path wt @ ''/../../x'') t"
proof -
  have c: "clean_path ''CODEOWNERS'' = ''CODEOWNERS''" "clean_path ''./CODEOWNERS'' = ''./CODEOWNERS''"
    "clean_path ''/etc/cron.d/job'' = ''etc/cron.d/job''" "clean_path ''../../x'' = ''../../x''"
    by code_simp+
  have p: "parts ''./CODEOWNERS'' = [''CODEOWNERS'']" "parts ''../../x'' = [''..'', ''..'', ''x'']"
    "under r ''/etc/cron.d/job'' = ''/etc/cron.d/job''" for r
    by (code_simp, code_simp, simp add: under_def parts_def)
  then have "under r ''./CODEOWNERS'' = r @ ''/CODEOWNERS''" "under r ''../../x'' = r @ ''/../../x''" for r
    by (simp_all add: under_def)
  moreover have "trace H (write_files wt (one_file q t)) s =
      [Make_Dirs (parent_dir (under (wt_path wt) q)), Write_Text (under (wt_path wt) q) t]" for q
    by (rule trace_write_one) (rule assms)
  ultimately show ?thesis
    using allowed_examples p(3) by (simp add: validate_one c)
qed

theorem path_check_is_bypassed_witness:
  "last (trace demo_machine (write_files \<lparr>wt_path = ''/w'', wt_branch = ''b''\<rparr> (one_file ''/etc/cron.d/job'' ''t'')) ()) =
     Write_Text ''/etc/cron.d/job'' ''t''"
  by (rule path_check_is_bypassed [of demo_machine, THEN conjunct2, THEN conjunct2, THEN conjunct2, THEN conjunct2, THEN conjunct1])
    (simp add: demo_machine_def)

subsection \<open>The worktree goes\<close>

definition cleans_up :: "roots \<Rightarrow> worktree \<Rightarrow> acmd \<Rightarrow> bool" where
  "cleans_up rt wt c \<longleftrightarrow> c \<in> {Path_Exists (wt_path wt), Remove_Tree (wt_path wt),
     Run_Process [''git'', ''worktree'', ''prune''] (Some (poc_dir rt))}"

text \<open>
  However the work on an issue ends, the last thing done is to remove its worktree with git, and by hand if
  git fails; nothing else follows.
\<close>

theorem worktree_is_removed:
  "\<exists>before r after. history H (work_in ax sys rt issue n wt) s =
     before @ (Run_Process [''git'', ''worktree'', ''remove'', wt_path wt] (Some (poc_dir rt)), r) # after \<and>
     list_all (cleans_up rt wt) (map fst after)"
proof -
  let ?c = "Run_Process [''git'', ''worktree'', ''remove'', wt_path wt] (Some (poc_dir rt))"
  let ?rest = "\<lambda>(code, out, err). if code = 0 then return () else
      andThen (path_exists (wt_path wt)) (\<lambda>ex.
      andThen (if ex then Call (Remove_Tree (wt_path wt)) (\<lambda>_. return ()) else return ()) (\<lambda>_.
      andThen (git [''worktree'', ''prune''] (poc_dir rt)) (\<lambda>_. return ())))"
  have "only (cleans_up rt wt) (Call (Remove_Tree (wt_path wt)) (\<lambda>_. return ()) :: unit agent)"
    by (simp add: only_def cleans_up_def)
  then have o: "only (cleans_up rt wt) (?rest x)" for x
    by (auto intro!: only_rules simp: cleans_up_def split: prod.splits)
  have rest: "list_all (cleans_up rt wt) (map fst (history H (?rest x) s'))" for x s'
    using only_history [OF o, of _ _ H x s'] by (auto simp: list_all_iff)
  have "\<exists>r after. history H (remove_worktree rt wt False) s' = (?c, r) # after \<and> list_all (cleans_up rt wt) (map fst after)" for s'
  proof -
    have h: "history H (remove_worktree rt wt False) s' = (?c, fst (H ?c s')) #
        (case run H (git [''worktree'', ''remove'', wt_path wt] (poc_dir rt)) s' of (Inl e, _) \<Rightarrow> [] | (Inr x, s'') \<Rightarrow> history H (?rest x) s'')"
      by (simp add: remove_worktree_def history_andThen git_def split: prod.splits sum.splits)
    show ?thesis unfolding h by (auto simp: rest split: prod.splits sum.splits)
  qed
  then have "\<exists>r after. history H (catch (remove_worktree rt wt False) (\<lambda>e. if is_exception e then return () else raise e)) s' =
      (?c, r) # after \<and> list_all (cleans_up rt wt) (map fst after)" for s'
    by (fastforce simp: history_catch split: prod.splits sum.splits)
  then show ?thesis
    unfolding work_in_def history_finally by blast
qed

subsection \<open>A claimed issue is answered for\<close>

definition settles :: "json \<Rightarrow> acmd \<Rightarrow> bool" where
  "settles n c \<longleftrightarrow> c = Gh (Add_Labels n [DONE_LABEL]) \<or> c = Gh (Add_Labels n [BLOCKED_LABEL])"

lemma wp_result: "wp (\<lambda>_. True) G m (\<lambda>_. True)"
  by (induction m) auto

lemma wp_trivial: "(\<And>x. Q x) \<Longrightarrow> wp (\<lambda>_. True) G m Q"
  using wp_mono [OF wp_result, of Q G m] by simp

lemma block_settles: "wp (\<lambda>_. True) (\<lambda>c _. \<not> settles n c) (block n r) (\<lambda>x. \<exists>e. x = Inl e)"
  by (auto simp: block_def ignoring_github_def gh_do_def tell_def ask_def settles_def split: sum.splits)

lemma wp_after: "(\<And>e. Q (Inl e)) \<Longrightarrow> (\<And>a. wp (\<lambda>_. True) G (f a) Q) \<Longrightarrow> wp (\<lambda>_. True) G (andThen m f) Q"
  by (auto intro!: wp_trivial split: sum.splits)

abbreviation fails :: "exn + 'a \<Rightarrow> bool" where
  "fails x \<equiv> \<exists>e. x = Inl e"

lemma wp_fails_catch:
  "wp (\<lambda>_. True) G m fails \<Longrightarrow> (\<And>e. wp (\<lambda>_. True) G (h e) fails) \<Longrightarrow> wp (\<lambda>_. True) G (catch m h) fails"
  unfolding wp_catch by (erule wp_mono) auto

lemma wp_fails_finally: "wp (\<lambda>_. True) G m fails \<Longrightarrow> wp (\<lambda>_. True) G (finally_do m f) fails"
  unfolding wp_finally by (erule wp_mono) (auto intro!: wp_trivial split: sum.split)

lemma settled: "settles n (Gh g) \<Longrightarrow> wp (\<lambda>_. True) (\<lambda>c _. \<not> settles n c) (andThen (gh_do g) f) Q"
  by (simp add: gh_do_def tell_def ask_def)

lemmas settle_rules = wp_after block_settles settled

lemma publish_settles: "wp (\<lambda>_. True) (\<lambda>c _. \<not> settles n c) (publish wt n ch tr) fails"
proof -
  have "settles n (Gh (Add_Labels n [DONE_LABEL]))" by (simp add: settles_def)
  then have fin: "wp (\<lambda>_. True) (\<lambda>c _. \<not> settles n c) (andThen (gh_do (Add_Labels n [DONE_LABEL])) f) fails" for f :: "unit \<Rightarrow> unit agent"
    by (rule settled)
  show ?thesis
    unfolding publish_def
    by (intro wp_after) (auto simp del: wp_andThen intro!: wp_after block_settles fin split: option.split)
qed

lemma develop_settles: "wp (\<lambda>_. True) (\<lambda>c _. \<not> settles n c) (develop ax sys issue n wt) fails"
  unfolding develop_def
  by (auto simp del: wp_andThen intro!: wp_after block_settles publish_settles split: option.split)

lemma work_in_settles: "wp (\<lambda>_. True) (\<lambda>c _. \<not> settles n c) (work_in ax sys rt issue n wt) fails"
  unfolding work_in_def by (intro wp_fails_finally wp_fails_catch develop_settles) (auto simp: block_settles)

lemma set_up_settles:
  "wp (\<lambda>_. True) (\<lambda>c _. \<not> settles n c) (set_up rt n title) (\<lambda>x. fails x \<or> (\<exists>wt. x = Inr (Some wt)))"
proof -
  let ?Q = "\<lambda>x. fails x \<or> (\<exists>wt. x = Inr (Some wt))"
  have *: "wp (\<lambda>_. True) (\<lambda>c _. \<not> settles n c) (andThen (block n r) (\<lambda>_. return None)) ?Q" for r
    unfolding wp_andThen by (rule wp_mono [OF block_settles]) auto
  have h: "wp (\<lambda>_. True) (\<lambda>c _. \<not> settles n c)
      (case e of WorktreeError m \<Rightarrow> andThen (block n (Setup_Failed m)) (\<lambda>_. return None) | _ \<Rightarrow> raise e) ?Q" for e
    using * by (cases e) (simp_all del: wp_andThen)
  show ?thesis
    unfolding set_up_def wp_catch
  proof (intro wp_after)
    fix wt
    show "wp (\<lambda>_. True) (\<lambda>c _. \<not> settles n c) (return (Some wt))
        (\<lambda>x. case x of Inl e \<Rightarrow> wp (\<lambda>_. True) (\<lambda>c _. \<not> settles n c)
            (case e of WorktreeError m \<Rightarrow> andThen (block n (Setup_Failed m)) (\<lambda>_. return None) | _ \<Rightarrow> raise e) ?Q
          | Inr a \<Rightarrow> ?Q (Inr a))"
      by simp
  qed (simp_all only: sum.case h)
qed


text \<open>
  Only a failure of git that is no \<open>WorktreeError\<close>, such as a missing program, escapes: the claim then stays on the
  issue, which no heartbeat takes again.
\<close>

lemma trace_tell: "trace H (tell c) s = [c]" "trace H (return a) s = []"
  by (simp_all add: trace_history)

lemma broken_git_leaves_the_claim:
  assumes "json_index issue ''number'' = Inr n" and "json_index issue ''title'' = Inr title"
    and "\<And>w a p s e. fst (H (Log_Event w a p) s) \<noteq> A_Err e" and "\<And>g s e. fst (H (Gh g) s) \<noteq> A_Err e"
    and "\<And>q s. fst (H (Path_Exists q) s) = A_Bool True"
    and "\<And>a d s. fst (H (Run_Process a d) s) = A_Err (OtherException m)"
  shows "fst (run H (work_one ax sys rt issue) s) = Inl (OtherException m) \<and>
    (\<forall>c \<in> set (trace H (work_one ax sys rt issue) s). c \<noteq> Gh (Remove_Label n INPROGRESS_LABEL) \<and> \<not> settles n c)"
proof -
  have l: "\<exists>x. answer (fst (H (Log_Event w a p) s)) = Inr x" for w a p s
    using assms(3) [of w a p s] by (cases "fst (H (Log_Event w a p) s)") auto
  have g: "\<exists>x. answer (fst (H (Gh c) s)) = Inr x" for c s
    using assms(4) [of c s] by (cases "fst (H (Gh c) s)") auto
  have u: "\<exists>s''. run H (set_up rt n title) s' = (Inl (OtherException m), s'')" for s'
    by (simp add: set_up_def ensure_base_uptodate_def path_exists_def git_def run_process_def run_catch run_andThen run_ask assms)
  have "trace H (set_up rt n title) s' = [Path_Exists (poc_dir rt), Run_Process [''git'', ''fetch'', ''origin'', ''main'', ''--quiet''] (Some (poc_dir rt))]" for s'
    by (simp add: trace_history set_up_def ensure_base_uptodate_def path_exists_def git_def run_process_def
        run_catch run_andThen history_catch history_andThen run_ask assms)
  moreover obtain x1 x2 where "answer (fst (H (Log_Event ''backend'' ''pick'' [(''issue'', NJson n), (''title'', NJson title)]) s)) = Inr x1"
      "\<And>s. answer (fst (H (Gh (Add_Labels n [INPROGRESS_LABEL])) s)) = Inr (x2 s)"
    using l g by metis
  moreover obtain f where "\<And>s'. run H (set_up rt n title) s' = (Inl (OtherException m), f s')" using u by metis
  ultimately show ?thesis
    by (simp add: work_one_def assms(1,2) andThen_result log_event_def gh_do_def run_andThen run_tell trace_andThen
        trace_tell settles_def INPROGRESS_LABEL_def DONE_LABEL_def BLOCKED_LABEL_def)
qed

subsection \<open>A pull request follows a commit and a push\<close>

fun creates :: "string \<Rightarrow> acmd \<Rightarrow> bool" where
  "creates br (Gh (Create_Pull_Request su w tc n b)) = (b = br)"
| "creates br c = False"

definition committed :: "acmd \<Rightarrow> areply \<Rightarrow> bool" where
  "committed c r \<longleftrightarrow> (\<exists>msg d out err. c = Run_Process [''git'', ''commit'', ''-m'', msg] (Some d) \<and> r = A_Process 0 out err)"

definition pushed :: "string \<Rightarrow> acmd \<Rightarrow> areply \<Rightarrow> bool" where
  "pushed br c r \<longleftrightarrow>
     (\<exists>d out err. c = Run_Process [''git'', ''push'', ''-u'', ''origin'', br] (Some d) \<and> r = A_Process 0 out err)"

lemma harmless_creates: "harmless c \<Longrightarrow> \<not> creates br c"
  by (cases "(br, c)" rule: creates.cases) (auto simp: harmless_def)

lemma wp_git:
  assumes "ok (Run_Process (''git'' # a) (Some d))" and "\<And>e. Q (Inl e)"
    and "\<And>code out err. G (Run_Process (''git'' # a) (Some d)) (A_Process code out err) \<Longrightarrow> wp ok G (f (code, out, err)) Q"
  shows "wp ok G (andThen (git a d) f) Q"
  using assms by (auto simp: git_def run_process_def wp_ask answer_def split: areply.split)

text \<open>The two commands that must succeed, in the worktree at hand.\<close>

lemma commit_and_push_done:
  assumes "\<And>a d. ok (Run_Process a d)" and "\<And>e. Q (Inl e)" and "\<And>r. Q (Inr (Some r))"
    and "\<And>msg out err o2 e2. G (Run_Process [''git'', ''commit'', ''-m'', msg] (Some (wt_path wt))) (A_Process 0 out err) \<Longrightarrow>
      G (Run_Process [''git'', ''push'', ''-u'', ''origin'', wt_branch wt] (Some (wt_path wt))) (A_Process 0 o2 e2) \<Longrightarrow> Q (Inr None)"
  shows "wp ok G (commit_and_push wt ch n) Q"
  unfolding commit_and_push_def Let_def
  by (auto simp del: wp_andThen intro!: wp_git assms(1-3) split: prod.split) (erule (1) assms(4))

lemma only_other_publish:
  "only (\<lambda>c. \<not> creates br c) (block n r)"
  "only (\<lambda>c. \<not> creates br c) (comment_pr_with_tests k tr)"
  "only (\<lambda>c. \<not> creates br c) (fetch_issue_comments n)"
  unfolding block_def comment_pr_with_tests_def fetch_issue_comments_def
  by (auto intro!: only_rules)

lemma publish_pushes:
  assumes "\<And>msg out err o2 e2. G (Run_Process [''git'', ''commit'', ''-m'', msg] (Some (wt_path wt))) (A_Process 0 out err) \<Longrightarrow>
      G (Run_Process [''git'', ''push'', ''-u'', ''origin'', wt_branch wt] (Some (wt_path wt))) (A_Process 0 o2 e2) \<Longrightarrow> False"
  shows "wp (\<lambda>c. \<not> creates (wt_branch wt) c) G (publish wt n ch tr) (\<lambda>_. True)"
  unfolding publish_def wp_andThen
proof (rule commit_and_push_done, goal_cases)
  case (3 r)
  then show ?case by (simp add: wp_only [OF only_other_publish(1)])
next
  case (4 msg out err o2 e2)
  with assms show ?case by blast
qed simp_all

lemma publish_other:
  assumes "br \<noteq> wt_branch wt"
  shows "only (\<lambda>c. \<not> creates br c) (publish wt n ch tr)"
  unfolding publish_def commit_and_push_def open_pr_def Let_def
  by (auto intro!: only_rules only_other_publish simp: assms [symmetric] split: option.splits)

lemma wp_seq: "only ok m \<Longrightarrow> (\<And>a. wp ok G (f a) (\<lambda>_. True)) \<Longrightarrow> wp ok G (andThen m f) (\<lambda>_. True)"
  unfolding wp_andThen by (erule wp_only) (auto split: sum.split)

lemma only_write_files_any: "(\<And>d. ok (Make_Dirs d)) \<Longrightarrow> (\<And>p t. ok (Write_Text p t)) \<Longrightarrow> only ok (write_files wt ch)"
proof -
  assume ok: "\<And>d. ok (Make_Dirs d)" "\<And>p t. ok (Write_Text p t)"
  have "only ok (write_all wt fs)" for fs
    by (induction fs) (auto intro!: only_rules ok simp: write_one_def Let_def)
  then show ?thesis unfolding write_files_def by (auto intro!: only_rules)
qed

lemma work_in_creates:
  assumes "\<And>ch tr. wp (\<lambda>c. \<not> creates b c) G (publish wt n ch tr) (\<lambda>_. True)"
  shows "wp (\<lambda>c. \<not> creates b c) G (work_in ax sys rt issue n wt) (\<lambda>_. True)"
proof -
  have asks: "only (\<lambda>c. \<not> creates b c) (generate_changes ax sys issue n wt cs)" for cs
    by (rule only_asks(1)) (auto simp: harmless_creates)
  have writes: "only (\<lambda>c. \<not> creates b c) (write_files wt ch)" for ch
    by (rule only_write_files_any) simp_all
  have tests: "only (\<lambda>c. \<not> creates b c) (run_tests_with_retries ax sys wt issue n cs ch)" for cs ch
    unfolding run_tests_with_retries_def
    by (auto intro!: only_rules only_retry only_test_round writes simp: harmless_creates split: prod.splits)
  have dev: "wp (\<lambda>c. \<not> creates b c) G (develop ax sys issue n wt) (\<lambda>_. True)"
    unfolding develop_def
    by (auto simp del: wp_andThen intro!: wp_seq only_other_publish asks tests writes assms
        wp_only [OF only_other_publish(1)] only_pure split: option.split)
  have r: "only (\<lambda>c. \<not> creates b c) (remove_worktree rt wt False)"
    by (rule only_remove) simp_all
  show ?thesis
    unfolding work_in_def wp_finally wp_catch
    by (rule wp_mono [OF dev]) (auto intro!: wp_only [OF only_other_publish(1)] wp_only [OF r] split: sum.split)
qed

text \<open>
  C22. The agent opens a pull request for a branch only after git has committed the changes, with the hook in
  place that guards commits, and pushed that branch, in the same work.
\<close>

theorem pull_request_follows_push:
  assumes "(Gh (Create_Pull_Request su w tc k br), r) \<in> set (history H (work_in ax sys rt issue n wt) s)"
  shows "br = wt_branch wt \<and>
    (\<exists>c r. (c, r) \<in> set (history H (work_in ax sys rt issue n wt) s) \<and> committed c r) \<and>
    (\<exists>c r. (c, r) \<in> set (history H (work_in ax sys rt issue n wt) s) \<and> pushed br c r)"
proof -
  let ?h = "history H (work_in ax sys rt issue n wt) s"
  have br: "br = wt_branch wt"
  proof (rule ccontr)
    assume "\<not> ?thesis"
    then have "wp (\<lambda>c. \<not> creates br c) (\<lambda>_ _. True) (work_in ax sys rt issue n wt) (\<lambda>_. True)"
      by (intro work_in_creates wp_only [OF publish_other]) auto
    from wp_history [OF this, of H s] assms show False by auto
  qed
  have preceded: "\<exists>(c, r) \<in> set ?h. A c r"
    if "\<And>msg out err o2 e2. A (Run_Process [''git'', ''commit'', ''-m'', msg] (Some (wt_path wt))) (A_Process 0 out err) \<or>
      A (Run_Process [''git'', ''push'', ''-u'', ''origin'', wt_branch wt] (Some (wt_path wt))) (A_Process 0 o2 e2)" for A
  proof -
    have "wp (\<lambda>c. \<not> creates (wt_branch wt) c) (\<lambda>c r. \<not> A c r) (work_in ax sys rt issue n wt) (\<lambda>_. True)"
      by (intro work_in_creates publish_pushes) (use that in blast)
    from wp_outcome [OF this, of H s] show ?thesis using assms br by auto
  qed
  from preceded [of committed] preceded [of "pushed br"] br show ?thesis
    by (fastforce simp: committed_def pushed_def)
qed

subsection \<open>How much one issue can cost\<close>

definition posts :: "acmd \<Rightarrow> bool" where
  "posts c \<longleftrightarrow> (case c of Llm_Post _ _ _ _ _ _ \<Rightarrow> True | _ \<Rightarrow> False)"

definition runs_tests :: "acmd \<Rightarrow> bool" where
  "runs_tests c \<longleftrightarrow> (case c of Run_Process (_ # m # p # _) _ \<Rightarrow> m = ''-m'' \<and> p = ''pytest'' | _ \<Rightarrow> False)"

lemma harmless_free: "harmless c \<Longrightarrow> \<not> posts c" "harmless c \<Longrightarrow> \<not> runs_tests c"
  by (cases c; simp add: harmless_def posts_def runs_tests_def)+

lemma at_most_seq: "only (\<lambda>c. \<not> P c) m \<Longrightarrow> (\<And>a. at_most P (f a) k) \<Longrightarrow> at_most P (andThen m f) k"
  using at_most_andThen [OF at_most_only, of P m f k 0] by simp

lemma at_most_then: "at_most P m k \<Longrightarrow> (\<And>a. only (\<lambda>c. \<not> P c) (f a)) \<Longrightarrow> at_most P (andThen m f) k"
  using at_most_andThen [of P m k f 0] by (simp add: at_most_only)

lemma at_most_pure: "at_most P (return a) k" "at_most P (raise e) k" "at_most P (of_result x) k"
  by (simp_all add: return_def raise_def of_result_def)

lemma at_most_paid:
  assumes "\<And>e. only (\<lambda>c. \<not> posts c) (failed e)"
  shows "at_most posts (paid_call rl sy p mt tp rv ex failed) 2"
proof -
  have one: "at_most posts (try_one al sy p mt tp ts) (Suc 0)" for al ts
    unfolding try_one_def using at_most_call [of posts] by simp
  have "at_most posts (call_llm rl sy p mt tp) (Suc 0 + Suc 0)"
    unfolding call_llm_def
    by (rule at_most_andThen [OF one])
      (auto simp: at_most_pure split: option.split intro!: at_most_then one only_rules)
  then have "at_most posts (andThen (call_llm rl sy p mt tp) (\<lambda>res. return (Some res))) 2"
    using at_most_then [of posts "call_llm rl sy p mt tp" 2 "\<lambda>res. return (Some res)"] by (simp add: only_rules numeral_2_eq_2)
  moreover have settle: "only (\<lambda>c. \<not> posts c) (settle rv k)" for k
    by (rule only_budget(2)) (simp_all add: posts_def)
  ultimately have "at_most posts (catch (andThen (call_llm rl sy p mt tp) (\<lambda>res. return (Some res)))
      (\<lambda>e. case e of
         LLMTimeout _ \<Rightarrow> andThen (settle rv ex) (\<lambda>_. andThen (failed e) (\<lambda>_. return None))
       | LLMError _ \<Rightarrow> andThen (settle rv ex) (\<lambda>_. andThen (failed e) (\<lambda>_. return None))
       | _ \<Rightarrow> raise e)) (2 + 0)"
    by (intro at_most_catch [OF _ at_most_only]) (auto intro!: only_rules assms split: exn.split)
  with settle show ?thesis
    unfolding paid_call_def by (intro at_most_then) (auto intro!: only_rules split: option.split)
qed

lemma at_most_result: "(\<And>a. at_most P (f a) k) \<Longrightarrow> at_most P (andThen (of_result x) f) k"
  by (rule at_most_seq) (simp_all add: only_rules)

lemma no_posts:
  "only (\<lambda>c. \<not> posts c) (reserve_for who rl n e)" "only (\<lambda>c. \<not> posts c) (test_round wt n ch a sfx)"
  "only (\<lambda>c. \<not> posts c) (write_files wt ch)" "only (\<lambda>c. \<not> posts c) (log_event w a2 p)"
  "only (\<lambda>c. \<not> posts c) (repo_tree d k)" "only (\<lambda>c. \<not> posts c) (fetch_issue_comments n)"
  "only (\<lambda>c. \<not> posts c) (block n r)" "only (\<lambda>c. \<not> posts c) (publish wt n ch tr)"
  "only (\<lambda>c. \<not> posts c) (remove_worktree rt wt False)" "only (\<lambda>c. \<not> posts c) (set_up rt n title)"
proof -
  have gh: "only (\<lambda>c. \<not> posts c) (gh g)" "only (\<lambda>c. \<not> posts c) (gh_do g)" for g
    by (intro only_rules, simp add: posts_def)+
  show log: "only (\<lambda>c. \<not> posts c) (log_event w a2 p)" for w a2 p
    by (intro only_rules) (simp add: posts_def)
  show block: "only (\<lambda>c. \<not> posts c) (block n r)" for n r
    unfolding block_def by (intro only_rules log gh)
  show "only (\<lambda>c. \<not> posts c) (fetch_issue_comments n)"
    unfolding fetch_issue_comments_def by (auto intro!: only_rules gh)
  show "only (\<lambda>c. \<not> posts c) (publish wt n ch tr)"
    unfolding publish_def commit_and_push_def open_pr_def comment_pr_with_tests_def Let_def
    by (auto simp: posts_def intro!: only_rules block [unfolded posts_def] split: option.splits)
  show "only (\<lambda>c. \<not> posts c) (reserve_for who rl n e)"
    by (rule only_budget(1)) (simp_all add: posts_def)
  show "only (\<lambda>c. \<not> posts c) (test_round wt n ch a sfx)"
    by (rule only_test_round) (simp_all add: harmless_free, simp add: posts_def)
  show "only (\<lambda>c. \<not> posts c) (write_files wt ch)"
    by (rule only_write_files_any) (simp_all add: posts_def)
  show "only (\<lambda>c. \<not> posts c) (repo_tree d k)"
    by (rule only_weaken [OF only_repo_tree]) (simp add: harmless_free)
  show "only (\<lambda>c. \<not> posts c) (remove_worktree rt wt False)"
    by (rule only_remove) (simp_all add: posts_def)
  show "only (\<lambda>c. \<not> posts c) (set_up rt n title)"
    by (rule only_set_up) (simp_all add: harmless_free, simp_all add: posts_def)
qed

lemma at_most_asks:
  "at_most posts (generate_changes ax sys issue n wt cs) 2" "at_most posts (generate_fix ax sys issue n cs prev out) 2"
proof -
  have "only (\<lambda>c. \<not> posts c) (log_failed_call n ph e)" for ph e
    unfolding log_failed_call_def by (cases e) (simp_all add: no_posts)
  then have ask: "at_most posts (ask_for_changes ax sys n p rv ph) 2" for p rv ph
    unfolding ask_for_changes_def
    by (intro at_most_then at_most_paid) (auto simp: Let_def intro!: only_rules no_posts split: option.split)
  show "at_most posts (generate_changes ax sys issue n wt cs) 2"
    unfolding generate_changes_def
    by (auto simp: at_most_pure split: option.split
      intro!: at_most_result at_most_seq [OF no_posts(1)] at_most_seq [OF no_posts(5)] at_most_then [OF ask] only_rules no_posts)
  show "at_most posts (generate_fix ax sys issue n cs prev out) 2"
    unfolding generate_fix_def
    by (auto simp: at_most_pure split: option.split
      intro!: at_most_result at_most_seq [OF no_posts(1)] at_most_then [OF ask] only_rules no_posts)
qed

lemma at_most_retry: "at_most posts (retry_tests ax sys wt issue n cs k ch out) (2 * k)"
proof (induction k arbitrary: ch out)
  case 0
  then show ?case by (simp add: at_most_pure)
next
  case (Suc k)
  have "at_most posts (retry_tests ax sys wt issue n cs (Suc k) ch out) (2 + 2 * k)"
    unfolding retry_tests.simps Let_def log_test_def
    by (rule at_most_andThen [OF at_most_asks(2)])
      (auto simp: at_most_pure split: option.split prod.split
        intro!: at_most_seq [OF no_posts(4)] at_most_result at_most_seq [OF no_posts(3)]
          at_most_seq [OF no_posts(2)] Suc.IH only_rules)
  then show ?case by simp
qed

lemma at_most_work: "at_most posts (work_one ax sys rt issue) 6"
proof -
  have tests: "at_most posts (run_tests_with_retries ax sys wt issue n cs ch) 4" for wt n cs ch
    unfolding run_tests_with_retries_def
    using at_most_retry [of ax sys wt issue n cs MAX_TEST_RETRIES]
    by (intro at_most_seq [OF no_posts(2)]) (auto simp: at_most_pure MAX_TEST_RETRIES_def split: prod.split)
  have "at_most posts (develop ax sys issue n wt) (2 + 4)" for n wt
    unfolding develop_def
    by (intro at_most_seq [OF no_posts(6)] at_most_andThen [OF at_most_asks(1)])
      (auto simp: at_most_only no_posts split: option.split
        intro!: at_most_result at_most_seq [OF no_posts(3)] at_most_then [OF tests])
  then have dev: "at_most posts (catch (develop ax sys issue n wt) (\<lambda>e. if is_exception e then block n (Crash (exn_str e)) else raise e)) (6 + 0)" for n wt
    by (intro at_most_catch [OF _ at_most_only]) (auto intro!: only_rules no_posts)
  have clean: "at_most posts (catch (remove_worktree rt wt False) (\<lambda>e. if is_exception e then return () else raise e)) 0" for wt
    by (intro at_most_only only_rules no_posts)
  have "at_most posts (work_in ax sys rt issue n wt) 6" for n wt
    using at_most_finally [OF dev clean] unfolding work_in_def by simp
  then show ?thesis
    unfolding work_one_def
    by (auto simp: at_most_pure split: option.split intro!: at_most_result at_most_seq [OF no_posts(4)]
        at_most_seq [OF no_posts(10)] at_most_seq [of _ "gh_do g" for g] only_rules) (simp add: posts_def)
qed

lemma retry_attempts:
  "k \<le> MAX_TEST_RETRIES \<Longrightarrow> wp (\<lambda>_. True) G (retry_tests ax sys wt issue n cs k ch out)
     (\<lambda>x. \<forall>tr. x = Inr tr \<longrightarrow> 0 < attempts tr \<and> attempts tr \<le> Suc MAX_TEST_RETRIES)"
proof (induction k arbitrary: ch out)
  case (Suc k)
  then show ?case
    unfolding retry_tests.simps Let_def
    by (intro wp_after) (auto simp del: wp_andThen split: option.split prod.split intro!: wp_after)
qed simp


subsection \<open>Green and red\<close>

definition exits_zero :: "acmd \<times> areply \<Rightarrow> bool" where
  "exits_zero cr \<longleftrightarrow> (\<forall>a d. fst cr = Run_Process a d \<longrightarrow> (\<exists>out err. snd cr = A_Process 0 out err))"

lemma harmless_exits: "only harmless m \<Longrightarrow> list_all exits_zero (history H m s)"
  by (auto simp: list_all_iff exits_zero_def harmless_def dest!: only_history)

lemma pytest_passed:
  assumes "run H (pytest wt fs l) s = (Inr p, s')" and "exit_code p = 0"
  shows "list_all exits_zero (history H (pytest wt fs l) s)"
proof (cases "fs = []")
  case True
  then show ?thesis by (simp add: pytest_def)
next
  case False
  have cmd: "only harmless (resolve_pytest_cmd wt)"
    unfolding resolve_pytest_cmd_def Let_def by (auto intro!: only_rules simp: harmless_def)
  from assms(1) False obtain x s1 where 1: "run H (resolve_pytest_cmd wt) s = (Inr x, s1)"
    by (auto simp: pytest_def run_andThen_Inr)
  let ?c = "Run_Process (x @ fs @ [''-q'']) (Some (wt_path wt))"
  from assms False obtain out err where c: "H ?c s1 = (A_Process 0 out err, s')"
    by (auto simp: pytest_def run_andThen_Inr 1 run_process_Inr)
  then have 2: "run H (run_process (x @ fs @ [''-q'']) (Some (wt_path wt))) s1 = (Inr (0, out, err), s')"
    by (simp add: run_process_Inr)
  have "history H (pytest wt fs l) s = history H (resolve_pytest_cmd wt) s @ [(?c, A_Process 0 out err)]"
    using False c by (simp add: pytest_def history_after [OF 1] history_after [OF 2])
  with harmless_exits [OF cmd, of H s] show ?thesis by (auto simp: exits_zero_def)
qed

lemma round_passed:
  assumes "run H (test_round wt n ch a sfx) s = (Inr (True, out), s')"
  shows "list_all exits_zero (history H (test_round wt n ch a sfx) s)"
proof -
  have log: "list_all exits_zero (history H (log_test n a x y) s)" for x y s
    by (simp add: log_test_def exits_zero_def)
  obtain ts where ts: "targets (tests ch) = Inr ts"
    using assms by (auto simp del: append_Cons simp: test_round_def run_andThen_Inr)
  obtain r1 s1 where 1: "run H (pytest wt ts (''target'' @ sfx)) s = (Inr r1, s1)"
    using assms by (auto simp del: append_Cons simp: test_round_def run_andThen_Inr ts)
  obtain s2 where 2: "run H (log_test n a (''target'' @ sfx) [(''exit_code'', NInt (exit_code r1))]) s1 = (Inr (), s2)"
    using assms by (auto simp del: append_Cons simp: test_round_def run_andThen_Inr ts 1)
  have z: "exit_code r1 = 0" using assms by (auto simp del: append_Cons simp: test_round_def run_andThen_Inr ts 1 2 split: if_splits)
  note 2 = 2 [unfolded z]
  obtain full s3 where 3: "run H (full_utils_tests wt None) s2 = (Inr full, s3)"
    using assms by (auto simp del: append_Cons simp: test_round_def run_andThen_Inr ts 1 2 z)
  obtain r2 s4 where 4: "run H (pytest wt full (''utils-full'' @ sfx)) s3 = (Inr r2, s4)"
    using assms by (auto simp del: append_Cons simp: test_round_def run_andThen_Inr ts 1 2 z 3)
  obtain s5 where 5: "run H (log_test n a (''utils-full'' @ sfx) [(''exit_code'', NInt (exit_code r2))]) s4 = (Inr (), s5)"
    using assms by (auto simp del: append_Cons simp: test_round_def run_andThen_Inr ts 1 2 z 3 4)
  have z2: "exit_code r2 = 0" using assms by (auto simp del: append_Cons simp: test_round_def run_andThen ts 1 2 z 3 4 5)
  note 5 = 5 [unfolded z2]
  show ?thesis
    using pytest_passed [OF 1 z] pytest_passed [OF 4 z2] harmless_exits [OF only_full_utils] log
    by (simp del: append_Cons add: test_round_def andThen_result ts history_after [OF 1] history_after [OF 2] history_after [OF 3]
        history_after [OF 4] history_after [OF 5] z z2)
qed

definition ends_in_a_passed_round :: "(acmd \<Rightarrow> 's \<Rightarrow> areply \<times> 's) \<Rightarrow> worktree \<Rightarrow> json \<Rightarrow> (acmd \<times> areply) list \<Rightarrow> bool" where
  "ends_in_a_passed_round H wt n h \<longleftrightarrow>
     (\<exists>before ch a sfx s1 s2 out. h = before @ history H (test_round wt n ch a sfx) s1 \<and>
        run H (test_round wt n ch a sfx) s1 = (Inr (True, out), s2) \<and>
        list_all exits_zero (history H (test_round wt n ch a sfx) s1))"

lemma ends_append: "ends_in_a_passed_round H wt n h \<Longrightarrow> ends_in_a_passed_round H wt n (h0 @ h)"
  unfolding ends_in_a_passed_round_def by (metis append.assoc)

lemma ends_round: "run H (test_round wt n ch a sfx) s = (Inr (True, out), s') \<Longrightarrow>
    ends_in_a_passed_round H wt n (history H (test_round wt n ch a sfx) s)"
  unfolding ends_in_a_passed_round_def using round_passed by (metis append_Nil)

lemma ends_after: "run H m s = (Inr a, s1) \<Longrightarrow> ends_in_a_passed_round H wt n (history H (f a) s1) \<Longrightarrow>
    ends_in_a_passed_round H wt n (history H (andThen m f) s)"
  by (simp add: history_after ends_append)

lemma retry_green:
  "run H (retry_tests ax sys wt issue n cs k ch out) s = (Inr tr, s') \<Longrightarrow> green tr \<Longrightarrow>
     ends_in_a_passed_round H wt n (history H (retry_tests ax sys wt issue n cs k ch out) s)"
proof (induction k arbitrary: ch out s)
  case (Suc k)
  let ?a = "Suc (MAX_TEST_RETRIES - k)" and ?sfx = "''-retry'' @ show_int (int (MAX_TEST_RETRIES - k))"
  from Suc.prems(1) obtain fx s1 where 1: "run H (generate_fix ax sys issue n cs ch out) s = (Inr fx, s1)"
    by (auto simp del: append_Cons simp: Let_def run_andThen_Inr)
  with Suc.prems obtain ch' where f: "fx = Some ch'"
    by (cases fx) (auto simp del: append_Cons simp: Let_def run_andThen_Inr)
  from Suc.prems 1 f obtain s2 where v: "validate_paths ch' = Inr []" and 2: "run H (write_files wt ch') s1 = (Inr (), s2)"
    by (auto simp del: append_Cons simp: Let_def run_andThen_Inr split: if_splits)
  from Suc.prems obtain p o2 s3 where 3: "run H (test_round wt n ch' ?a ?sfx) s2 = (Inr (p, o2), s3)"
    by (auto simp del: append_Cons simp: Let_def run_andThen_Inr 1 f v 2)
  show ?case
  proof (cases p)
    case True
    then show ?thesis
      using ends_round [of H wt n ch' ?a ?sfx s2] 3
      by (simp del: append_Cons add: Let_def history_after [OF 1] f v andThen_result history_after [OF 2] history_after [OF 3] ends_append)
  next
    case False
    then have "run H (retry_tests ax sys wt issue n cs k ch' o2) s3 = (Inr tr, s')"
      using Suc.prems(1) by (simp del: append_Cons add: Let_def run_andThen 1 f v 2 3)
    from Suc.IH [OF this Suc.prems(2)] False show ?thesis
      by (simp del: append_Cons add: Let_def history_after [OF 1] f v andThen_result history_after [OF 2] history_after [OF 3] ends_append)
  qed
qed auto

text \<open>
  Tests are called green only when the last thing the agent did was a whole round, the tests of its changes
  and those of all modules, in which every process ended with status 0.
\<close>

theorem green_means_passed:
  assumes "fst (run H (run_tests_with_retries ax sys wt issue n cs ch) s) = Inr tr" and "green tr"
  shows "ends_in_a_passed_round H wt n (history H (run_tests_with_retries ax sys wt issue n cs ch) s)"
proof -
  obtain s' where r: "run H (run_tests_with_retries ax sys wt issue n cs ch) s = (Inr tr, s')"
    using assms(1) by (metis prod.collapse)
  then obtain p out s1 where 1: "run H (test_round wt n ch 1 []) s = (Inr (p, out), s1)"
    by (auto simp: run_tests_with_retries_def run_andThen_Inr)
  show ?thesis
  proof (cases p)
    case True
    then show ?thesis
      using ends_round [of H wt n ch 1 "[]" s] 1 by (simp del: One_nat_def add: run_tests_with_retries_def history_after [OF 1])
  next
    case False
    then have "run H (retry_tests ax sys wt issue n cs MAX_TEST_RETRIES ch out) s1 = (Inr tr, s')"
      using r by (simp del: One_nat_def add: run_tests_with_retries_def run_andThen 1)
    from retry_green [OF this assms(2)] False show ?thesis
      by (simp del: One_nat_def add: run_tests_with_retries_def history_after [OF 1] ends_append)
  qed
qed

subsection \<open>Which issue, and what of GitHub\<close>

definition free :: "json \<Rightarrow> bool" where
  "free i \<longleftrightarrow> (\<forall>l \<in> set taken_labels. has_label i l = Inr False)"

lemma candidates_free: "candidates is = Inr cs \<Longrightarrow> i \<in> set cs \<Longrightarrow> i \<in> set is \<and> free i"
proof (induction "is" arbitrary: cs)
  case (Cons j js)
  have "has_none j ls = Inr True \<Longrightarrow> \<forall>l \<in> set ls. has_label j l = Inr False" for ls
    by (induction ls) (auto simp: ebind_Inr split: if_splits)
  with Cons show ?case by (fastforce simp: ebind_Inr free_def split: if_splits)
qed simp

lemma numbered_set: "numbered is = Inr nis \<Longrightarrow> map snd nis = is \<and> (\<forall>(n, i) \<in> set nis. json_index i ''number'' = Inr n)"
  by (induction "is" arbitrary: nis) (fastforce simp: ebind_Inr)+

lemma hd_sort_key: "xs \<noteq> [] \<Longrightarrow> hd (sort_key f xs) \<in> set xs \<and> (\<forall>x \<in> set xs. f (hd (sort_key f xs)) \<le> f x)"
proof -
  assume "xs \<noteq> []"
  then obtain y ys where s: "sort_key f xs = y # ys" by (metis length_0_conv length_sort neq_Nil_conv)
  have "sorted (map f (y # ys))" using sorted_sort_key [of f xs] by (simp add: s)
  moreover have set: "set (y # ys) = set xs" by (metis s set_sort)
  ultimately show ?thesis using s by (metis list.sel(1) list.set_intros(1) list.simps(9) set_ConsD sorted_simps(2) image_eqI list.set_map order_refl)
qed

definition lowest :: "json list \<Rightarrow> json \<Rightarrow> bool" where
  "lowest cs i \<longleftrightarrow> i \<in> set cs \<and> (\<forall>j \<in> set cs. \<forall>m k. json_index i ''number'' = Inr (JNum m) \<longrightarrow>
     json_index j ''number'' = Inr (JNum k) \<longrightarrow> m \<le> k)"

lemma first_lowest:
  assumes "first_issue cs = Inr i" and "cs \<noteq> []"
  shows "lowest cs i"
proof -
  obtain nis where n: "numbered cs = Inr nis" using assms by (auto simp: first_issue_def ebind_Inr)
  note s = numbered_set [OF n]
  have ne: "nis \<noteq> []" using s assms(2) by auto
  show ?thesis
  proof (cases "length nis = 1")
    case True
    then obtain x where x: "nis = [x]" by (auto simp: length_Suc_conv)
    then have "cs = [snd x]" "i = snd x" using s assms(1) n by (auto simp: first_issue_def)
    then show ?thesis by (simp add: lowest_def)
  next
    case False
    let ?f = "\<lambda>ni :: json \<times> json. the (json_number (fst ni))" and ?x = "hd (sort_key (\<lambda>ni. the (json_number (fst ni))) nis)"
    have i: "i = snd ?x" using assms(1) n False by (auto simp: first_issue_def split: if_splits)
    have x: "?x \<in> set nis" and le: "\<forall>y \<in> set nis. ?f ?x \<le> ?f y" using hd_sort_key [OF ne, of ?f] by auto
    show ?thesis
      unfolding lowest_def
    proof (intro conjI ballI allI impI)
      show "i \<in> set cs" using x i s by (metis image_eqI list.set_map)
      fix j m k
      assume "j \<in> set cs" "json_index i ''number'' = Inr (JNum m)" "json_index j ''number'' = Inr (JNum k)"
      then obtain y where y: "y \<in> set nis" "snd y = j" using s by (metis imageE list.set_map)
      then have "fst y = JNum k" "fst ?x = JNum m"
        using s x i \<open>json_index i _ = _\<close> \<open>json_index j _ = _\<close> by (auto split: prod.splits) (metis case_prodD prod.collapse sum.inject(2))+
      with le y show "m \<le> k" by force
    qed
  qed
qed

definition asks_only :: "json \<Rightarrow> acmd \<Rightarrow> bool" where
  "asks_only n c \<longleftrightarrow> (\<forall>g. c = Gh g \<longrightarrow> backend_gh n g)"

lemma asks_only_other: "harmless c \<Longrightarrow> asks_only n c" "asks_only n (Run_Process a d)" "asks_only n (Make_Dirs p)"
  "asks_only n (Write_Text p t)" "asks_only n (Remove_Tree p)" "asks_only n (Llm_Post al sy pr mt tp ts)"
  "backend_gh n g \<Longrightarrow> asks_only n (Gh g)"
  by (auto simp: asks_only_def harmless_def)

lemma work_gh:
  "only (asks_only n) (work_in ax sys rt issue n wt)" "only (asks_only n) (set_up rt n title)"
proof -
  have "only (asks_only n) (develop ax sys issue n wt)"
    by (rule only_develop) (simp_all add: asks_only_other only_write_files_any)
  then show "only (asks_only n) (work_in ax sys rt issue n wt)"
    unfolding work_in_def block_def
    by (auto intro!: only_rules only_remove simp: asks_only_other harmless_def)
  show "only (asks_only n) (set_up rt n title)"
    by (rule only_set_up) (simp_all add: asks_only_other)
qed

lemma work_one_gh:
  assumes "(Gh g, r) \<in> set (history H (work_one ax sys rt issue) s)"
  shows "\<exists>n. json_index issue ''number'' = Inr n \<and> (backend_gh n g \<or> g = Add_Labels n [INPROGRESS_LABEL])"
proof -
  obtain n where n: "json_index issue ''number'' = Inr n"
    using assms by (cases "json_index issue ''number''") (auto simp: work_one_def history_andThen)
  obtain title where t: "json_index issue ''title'' = Inr title"
    using assms n by (cases "json_index issue ''title''") (auto simp: work_one_def history_andThen)
  have rest: "only (asks_only n) (andThen (set_up rt n title)
      (\<lambda>wt. case wt of None \<Rightarrow> return () | Some w \<Rightarrow> work_in ax sys rt issue n w))"
    by (auto intro!: only_rules work_gh split: option.split)
  from assms have "backend_gh n g \<or> g = Add_Labels n [INPROGRESS_LABEL]"
    unfolding work_one_def n t andThen_result
    by (auto simp: in_history_andThen [where m = "log_event w a p" for w a p] in_history_andThen [where m = "gh_do c" for c]
      asks_only_def dest!: only_history [OF rest])
  with n show ?thesis by blast
qed


text \<open>
  No test at all is green too: changes without tests, in a tree without modules to test, end the first round
  without a process, and their pull request is not marked.
\<close>

lemma green_without_tests:
  assumes "tests ch = []" and "\<And>w a p s e. fst (H (Log_Event w a p) s) \<noteq> A_Err e"
    and "\<And>q s. fst (H (Path_Exists q) s) = A_Bool False"
  shows "(\<exists>out. fst (run H (run_tests_with_retries ax sys wt issue n cs ch) s) = Inr \<lparr>green = True, attempts = 1, test_output = out\<rparr>) \<and>
    (\<forall>c \<in> set (trace H (run_tests_with_retries ax sys wt issue n cs ch) s). \<forall>a d. c \<noteq> Run_Process a d)"
proof -
  have l: "\<exists>x. answer (fst (H (Log_Event w a p) s)) = Inr x" for w a p s
    using assms(2) [of w a p s] by (cases "fst (H (Log_Event w a p) s)") auto
  then obtain f where f: "\<And>w a p s. answer (fst (H (Log_Event w a p) s)) = Inr (f w a p s)" by metis
  have u: "run H (full_utils_tests wt None) s = (Inr [], snd (H (Path_Exists (wt_path wt @ ''/apps/api/utils'')) s))"
    "trace H (full_utils_tests wt None) s = [Path_Exists (wt_path wt @ ''/apps/api/utils'')]" for s
    by (simp_all add: full_utils_tests_def path_exists_def run_andThen run_ask assms(3) trace_history history_andThen)
  show ?thesis
    by (simp del: append_Cons add: run_tests_with_retries_def test_round_def assms(1) andThen_result pytest_def log_test_def
        log_event_def run_andThen run_tell f u trace_andThen trace_tell)
qed

text \<open>
  When the tests stayed red, a pull request that GitHub opened is marked for review by a human: the mark is
  the next thing asked of GitHub after the pull request.
\<close>

theorem red_pull_request_is_marked:
  assumes "\<not> green tr" and "(Gh (Create_Pull_Request su w tc k br), A_Json pr) \<in> set (history H (publish wt n ch tr) s)"
    and "ebind (json_index pr ''number'') json_int = Inr m"
  shows "\<exists>r. (Gh (Add_Labels (JNum m) [NEEDS_REVIEW_LABEL]), r) \<in> set (history H (publish wt n ch tr) s)"
proof -
  let ?c = "Gh (Create_Pull_Request su w tc k br)"
  let ?open = "open_pr wt ch n [NEEDS_REVIEW_LABEL]"
  have commit: "only (\<lambda>c. \<not> creates br c) (commit_and_push wt ch n)"
    unfolding commit_and_push_def Let_def by (auto intro!: only_rules split: prod.splits)
  have no: "(?c, A_Json pr) \<notin> set (history H (commit_and_push wt ch n) s')" "(?c, A_Json pr) \<notin> set (history H (block n y) s')" for s' y
    using only_history [OF commit, of ?c] only_history [OF only_other_publish(1), of ?c "A_Json pr" H n y s' br] by auto
  define rest where "rest = (\<lambda>pr_num. andThen (if green tr then return () else comment_pr_with_tests pr_num tr) (\<lambda>_.
         andThen (gh_do (Comment_Issue n (Worked_In_Pr pr_num))) (\<lambda>_.
         andThen (gh_do (Remove_Label n INPROGRESS_LABEL)) (\<lambda>_.
         andThen (gh_do (Add_Labels n [DONE_LABEL])) (\<lambda>_.
         log_event ''backend'' ''done'' [(''issue'', NJson n), (''pr'', NInt pr_num),
           (''tests_green'', NBool (green tr)), (''attempts'', NInt (int (attempts tr)))])))))"
  have p: "publish wt n ch tr = andThen (commit_and_push wt ch n) (\<lambda>failure. case failure of
      Some reason \<Rightarrow> block n reason | None \<Rightarrow> andThen ?open rest)"
    using assms(1) by (simp add: publish_def rest_def cong: option.case_cong)
  from assms(2) no obtain s1 where 1: "run H (commit_and_push wt ch n) s = (Inr None, s1)"
    unfolding p in_history_andThen by (auto split: option.splits)
  have after: "only (\<lambda>c. \<not> creates br c) (rest x)"
      "only (\<lambda>c. \<not> creates br c) (andThen (of_result (ebind (json_index y ''number'') json_int)) (\<lambda>pr_num.
         andThen (if [NEEDS_REVIEW_LABEL] \<noteq> [] then ignoring_github (gh_do (Add_Labels (JNum pr_num) [NEEDS_REVIEW_LABEL])) else return ())
           (\<lambda>_. return pr_num)))" for x y
    unfolding rest_def by (auto intro!: only_rules only_other_publish)
  let ?pr = "Gh (Create_Pull_Request (summary ch) (why ch) (test_command ch) n (wt_branch wt))"
  have "(?c, A_Json pr) \<in> set (history H (andThen ?open rest) s1)"
    using assms(2) no 1 unfolding p by (auto simp: in_history_andThen)
  then have "(?c, A_Json pr) \<in> set (history H ?open s1)"
    using only_history [OF after(1), of ?c "A_Json pr" H] by (auto simp: in_history_andThen)
  then have "fst (H ?pr s1) = A_Json pr"
    using only_history [OF after(2), of ?c "A_Json pr" H] unfolding open_pr_def in_history_andThen [of _ H "gh x" for x] by auto
  then have "\<exists>r. (Gh (Add_Labels (JNum m) [NEEDS_REVIEW_LABEL]), r) \<in> set (history H ?open s1)"
    by (auto simp: open_pr_def history_andThen run_gh assms(3) ignoring_github_def history_catch)
  with 1 show ?thesis unfolding p by (auto simp: in_history_andThen)
qed

subsection \<open>A run of the agent\<close>

definition demo_issue :: json where
  "demo_issue = JObj [(''number'', JNum 7), (''title'', JStr ''Add: the API!''), (''body'', JStr ''b'')]"

definition demo_ax :: actx where
  "demo_ax = \<lparr>json_loads = (\<lambda>_. Some (JObj [(''summary'', JStr ''s''), (''why'', JStr ''w''),
     (''files'', JList [JObj [(''path'', JStr ''apps/api/utils/x.py''), (''content'', JStr ''c'')]]),
     (''tests'', JList [JObj [(''path'', JStr ''apps/api/tests/test_x.py''), (''content'', JStr ''t'')]])])),
     shorten = (\<lambda>s n. take n s)\<rparr>"

text \<open>The world says how the tests end.\<close>

definition demo_world :: "acmd \<Rightarrow> int \<Rightarrow> areply \<times> int" where
  "demo_world c s =
     ((case c of
        Env_Var _ \<Rightarrow> A_Json JNull
      | Gh (List_Open_Issues _) \<Rightarrow> A_Json (JList [demo_issue])
      | Gh (Create_Pull_Request _ _ _ _ _) \<Rightarrow> A_Json (JObj [(''number'', JNum 9)])
      | Gh _ \<Rightarrow> A_Json JNull
      | Today \<Rightarrow> A_Text ''2026-01-02''
      | Incrby _ _ \<Rightarrow> A_Int 1
      | Llm_Post _ _ _ _ _ _ \<Rightarrow>
          A_Response 200 [] (Some (JObj [(''choices'', JList [JObj [(''message'', JObj [(''content'', JStr ''{}'')])]])]))
      | Run_Process args _ \<Rightarrow> A_Process (if ''-q'' \<in> set args then s else 0) ''x'' []
      | Path_Exists p \<Rightarrow> A_Bool (has_suffix ''.sh'' p \<or> p = ''/g/poc'')
      | _ \<Rightarrow> A_Nil), s)"

definition demo_wt :: worktree where
  "demo_wt = \<lparr>wt_path = ''/g/agents/backend/7-add-the-api'', wt_branch = ''agents/backend/7-add-the-api''\<rparr>"

definition demo_changes :: changes where
  "demo_changes = \<lparr>summary = ''s'', why = ''w'',
     files = JList [JObj [(''path'', JStr ''apps/api/utils/x.py''), (''content'', JStr ''c'')]],
     tests = [JObj [(''path'', JStr ''apps/api/tests/test_x.py''), (''content'', JStr ''t'')]], test_command = JNull\<rparr>"

lemma demo_write:
  "(Write_Text ''/g/agents/backend/7-add-the-api/apps/api/utils/x.py'' ''c'', A_Nil)
     \<in> set (history demo_world (work_one demo_ax ''sys'' demo_roots demo_issue) 0)"
  by code_simp

lemma demo_settled:
  "fst (run demo_world (work_one demo_ax ''sys'' demo_roots demo_issue) 0) = Inr ()"
  by code_simp

lemma demo_opens:
  "(Gh (Create_Pull_Request ''s'' ''w'' JNull (JNum 7) ''agents/backend/7-add-the-api''), A_Json (JObj [(''number'', JNum 9)]))
     \<in> set (history demo_world (work_in demo_ax ''sys'' demo_roots demo_issue (JNum 7) demo_wt) 0)"
  by code_simp

lemma demo_green:
  "fst (run demo_world (run_tests_with_retries demo_ax ''sys'' demo_wt demo_issue (JNum 7) JNull demo_changes) 0) =
     Inr \<lparr>green = True, attempts = 1, test_output = ''(utils-full: aucun fichier de test '' @ [CHR 0xE0] @ '' ex'' @ [CHR 0xE9] @ ''cuter)''\<rparr>"
  by code_simp

lemma demo_claims:
  "(Gh (Add_Labels (JNum 7) [INPROGRESS_LABEL]), A_Json JNull)
     \<in> set (history demo_world (backend_heartbeat demo_ax ''sys'' demo_roots) 0)"
  by code_simp



theorem pull_request_follows_push_witness:
  "\<exists>c r. (c, r) \<in> set (history demo_world (work_in demo_ax ''sys'' demo_roots demo_issue (JNum 7) demo_wt) 0) \<and>
    pushed ''agents/backend/7-add-the-api'' c r"
  using pull_request_follows_push [OF demo_opens] by blast

theorem green_means_passed_witness:
  "ends_in_a_passed_round demo_world demo_wt (JNum 7)
     (history demo_world (run_tests_with_retries demo_ax ''sys'' demo_wt demo_issue (JNum 7) JNull demo_changes) 0)"
  by (rule green_means_passed [OF demo_green]) simp


definition red_result :: test_result where
  "red_result = \<lparr>green = False, attempts = 3, test_output = ''failed''\<rparr>"

lemma demo_red:
  "(Gh (Create_Pull_Request ''s'' ''w'' JNull (JNum 7) ''agents/backend/7-add-the-api''), A_Json (JObj [(''number'', JNum 9)]))
     \<in> set (history demo_world (publish demo_wt (JNum 7) demo_changes red_result) 0)"
  by code_simp

theorem red_pull_request_is_marked_witness:
  "\<exists>r. (Gh (Add_Labels (JNum 9) [NEEDS_REVIEW_LABEL]), r) \<in>
     set (history demo_world (publish demo_wt (JNum 7) demo_changes red_result) 0)"
  by (rule red_pull_request_is_marked [OF _ demo_red]) (simp_all add: red_result_def)

end
