(* ===== verification/Handoff.thy ===== *)
theory Handoff
  imports Backend_Safety "HOL-Library.Sublist"
begin

text \<open>
  From one agent to the next: the text of the pull request and of the comment the backend agent writes, with
  \<open>textwrap.dedent\<close>, and what the CEO makes of the pull request and of the label on it.
\<close>

subsection \<open>Lines\<close>

fun split_nl :: "string \<Rightarrow> string list" where
  "split_nl [] = [[]]"
| "split_nl (c # s) =
     (if c = CHR 0x0A then [] # split_nl s
      else case split_nl s of [] \<Rightarrow> [[c]] | l # ls \<Rightarrow> (c # l) # ls)"

fun join_nl :: "string list \<Rightarrow> string" where
  "join_nl [] = []"
| "join_nl [l] = l"
| "join_nl (l # ls) = l @ CHR 0x0A # join_nl ls"

definition single_line :: "string \<Rightarrow> bool" where
  "single_line s \<longleftrightarrow> CHR 0x0A \<notin> set s"

lemma split_nl_not_Nil [simp]: "split_nl s \<noteq> []"
  by (induction s) (auto split: list.split)

lemma split_nl_append: "split_nl (a @ CHR 0x0A # b) = split_nl a @ split_nl b"
  by (induction a) (auto split: list.split)

lemma split_nl_single [simp]: "single_line s \<Longrightarrow> split_nl s = [s]"
  by (induction s) (auto simp: single_line_def)

lemma split_join: "ls \<noteq> [] \<Longrightarrow> split_nl (join_nl ls) = concat (map split_nl ls)"
  by (induction ls rule: join_nl.induct) (simp_all add: split_nl_append)

lemma split_nl_lines: "l \<in> set (split_nl s) \<Longrightarrow> single_line l"
  by (induction s arbitrary: l) (auto simp: single_line_def split: if_splits list.splits)

lemma join_split: "join_nl (split_nl s) = s"
proof (induction s)
  case (Cons c s)
  then show ?case
    by (cases "split_nl s"; cases "tl (split_nl s)") auto
qed simp

lemma join_contains: "l \<in> set ls \<Longrightarrow> \<exists>a b. join_nl ls = a @ l @ b"
proof (induction ls rule: join_nl.induct)
  case (3 l' m ls)
  show ?case
  proof (cases "l = l'")
    case True
    then have "join_nl (l' # m # ls) = [] @ l @ CHR 0x0A # join_nl (m # ls)" by simp
    then show ?thesis by blast
  next
    case False
    with 3 obtain a b where "join_nl (m # ls) = a @ l @ b" by auto
    then have "join_nl (l' # m # ls) = (l' @ CHR 0x0A # a) @ l @ b" by simp
    then show ?thesis by blast
  qed
next
  case (2 l')
  then have "join_nl [l'] = [] @ l @ []" by simp
  then show ?case by blast
qed simp

subsection \<open>\<open>textwrap.dedent\<close>\<close>

definition is_pad :: "char \<Rightarrow> bool" where
  "is_pad c \<longleftrightarrow> c = CHR 0x20 \<or> c = CHR 0x09"

definition blank_line :: "string \<Rightarrow> bool" where
  "blank_line l = list_all is_pad l"

text \<open>A line of white space only is emptied; the margin is what the indents of the other lines begin with in common.\<close>

definition tidy :: "string \<Rightarrow> string" where
  "tidy l = (if blank_line l then [] else l)"

definition indent :: "string \<Rightarrow> string" where
  "indent l = takeWhile is_pad l"

definition margin :: "string list \<Rightarrow> string" where
  "margin ls = (case map indent (filter (\<lambda>l. \<not> blank_line l) ls) of [] \<Rightarrow> [] | i # is \<Rightarrow> fold longest_common_prefix is i)"

definition cut_margin :: "string \<Rightarrow> string \<Rightarrow> string" where
  "cut_margin m l = (if take (length m) l = m then drop (length m) l else l)"

definition dedent :: "string \<Rightarrow> string" where
  "dedent s = (let ls = map tidy (split_nl s) in join_nl (map (cut_margin (margin ls)) ls))"

lemma dedent_examples:
  "dedent (join_nl [''  a'', ''   b'', '' '', ''  c'']) = join_nl [''a'', '' b'', [], ''c'']"
  "dedent (join_nl [''  a'', ''b'']) = join_nl [''  a'', ''b'']"
  by code_simp+

lemma fold_lcp_prefix:
  "prefix (fold longest_common_prefix is i) i \<and> (\<forall>j \<in> set is. prefix (fold longest_common_prefix is i) j)"
proof (induction "is" arbitrary: i)
  case (Cons j js)
  from Cons [of "longest_common_prefix j i"] show ?case
    by (auto intro: prefix_order.trans longest_common_prefix_prefix1 longest_common_prefix_prefix2)
qed simp

lemma fold_lcp_greatest:
  "prefix m i \<Longrightarrow> \<forall>j \<in> set is. prefix m j \<Longrightarrow> prefix m (fold longest_common_prefix is i)"
  by (induction "is" arbitrary: i) (auto intro: longest_common_prefix_max_prefix)

lemma margin_prefix:
  assumes "l \<in> set ls" and "\<not> blank_line l"
  shows "prefix (margin ls) (indent l)"
proof -
  from assms have "indent l \<in> set (map indent (filter (\<lambda>l. \<not> blank_line l) ls))" by auto
  then show ?thesis
    using fold_lcp_prefix by (cases "map indent (filter (\<lambda>l. \<not> blank_line l) ls)") (fastforce simp: margin_def)+
qed

lemma margin_greatest:
  assumes "\<forall>l \<in> set ls. blank_line l \<or> prefix m (indent l)" and "\<exists>l \<in> set ls. \<not> blank_line l"
  shows "prefix m (margin ls)"
proof -
  let ?is = "map indent (filter (\<lambda>l. \<not> blank_line l) ls)"
  have "\<forall>i \<in> set ?is. prefix m i" "?is \<noteq> []" using assms by (auto simp: filter_empty_conv)
  then show ?thesis using fold_lcp_greatest by (cases ?is) (auto simp: margin_def)
qed

subsection \<open>A template\<close>

text \<open>
  The lines of an f-string as the source indents them, None for an empty one, with what it interpolates; and the last
  line, that of the closing quotes. An interpolated text may itself have several lines.
\<close>

definition pad :: "nat \<Rightarrow> string" where
  "pad n = replicate n (CHR 0x20)"

definition source_line :: "string option \<Rightarrow> string" where
  "source_line l = (case l of None \<Rightarrow> [] | Some t \<Rightarrow> pad 12 @ t)"

definition template :: "string option list \<Rightarrow> string" where
  "template ls = dedent (join_nl (map source_line ls @ [pad 8]))"

lemma blank_pad [simp]: "blank_line (pad n)" "blank_line (pad n @ l) = blank_line l" "blank_line []"
  by (simp_all add: blank_line_def pad_def is_pad_def list_all_iff set_replicate_conv_if ball_Un)

lemma indent_pad: "indent (pad n @ l) = pad n @ indent l"
  by (simp add: indent_def pad_def takeWhile_append is_pad_def)

lemma single_pad [simp]: "single_line (pad n)" "single_line (pad n @ l) = single_line l" "single_line []"
  by (simp_all add: single_line_def pad_def)

lemma blank_tidy [simp]: "blank_line (tidy l) = blank_line l"
  by (simp add: tidy_def)

lemma single_tidy [simp]: "single_line l \<Longrightarrow> single_line (tidy l)"
  by (simp add: tidy_def)

lemma single_cut [simp]: "single_line l \<Longrightarrow> single_line (cut_margin m l)"
  by (auto simp: cut_margin_def single_line_def dest: in_set_dropD)

lemma concat_singles: "\<forall>l \<in> set ls. single_line l \<Longrightarrow> concat (map split_nl ls) = ls"
  by (induction ls) simp_all

lemma split_dedent: "split_nl (dedent s) = map (cut_margin (margin (map tidy (split_nl s)))) (map tidy (split_nl s))"
proof -
  have "\<forall>l \<in> set (map (cut_margin m) (map tidy (split_nl s))). single_line l" for m
    using split_nl_lines by auto
  then show ?thesis by (simp add: dedent_def Let_def split_join concat_singles del: map_map)
qed

definition template_raw :: "string option list \<Rightarrow> string list" where
  "template_raw ls = map tidy (concat (map split_nl (map source_line ls @ [pad 8])))"

lemma template_lines: "split_nl (template ls) = map (cut_margin (margin (template_raw ls))) (template_raw ls)"
  by (simp add: template_def template_raw_def split_dedent split_join del: map_map)

lemma raw_heading:
  assumes "Some h \<in> set ls" and "single_line h" and "\<not> blank_line h"
  shows "pad 12 @ h \<in> set (template_raw ls)"
  using assms by (force simp: template_raw_def tidy_def source_line_def)

lemma prefix_pad: "prefix m (pad n) \<Longrightarrow> \<exists>k \<le> n. m = pad k"
  unfolding pad_def by (metis append_eq_conv_conj length_replicate length_append le_add1 prefix_def take_replicate min.absorb1)

lemma cut_pad: "k \<le> n \<Longrightarrow> cut_margin (pad k) (pad n @ h) = pad (n - k) @ h"
  by (simp add: cut_margin_def pad_def)

text \<open>A heading of the template stays, with at most its own indent before it.\<close>

lemma template_keeps:
  assumes "Some h \<in> set ls" and "single_line h" and "h \<noteq> []" and "\<not> is_pad (hd h)"
  shows "\<exists>k. pad k @ h \<in> set (split_nl (template ls))"
proof -
  have h: "\<not> blank_line h" "indent h = []" using assms(3,4) by (cases h; simp add: blank_line_def indent_def)+
  note raw = raw_heading [OF assms(1,2) h(1)]
  have "prefix (margin (template_raw ls)) (pad 12)"
    using margin_prefix [OF raw] h by (simp add: indent_pad)
  then obtain k where "k \<le> 12" "margin (template_raw ls) = pad k" using prefix_pad by blast
  with raw show ?thesis unfolding template_lines by (force simp: cut_pad)
qed

text \<open>A template that interpolates single lines only comes out flush left.\<close>

lemma template_flush:
  assumes "\<forall>l. Some l \<in> set ls \<longrightarrow> single_line l" and "Some h \<in> set ls" and "h \<noteq> []" and "\<not> is_pad (hd h)"
  shows "template ls = join_nl (map (case_option [] tidy) ls @ [[]])"
proof -
  have h: "\<not> blank_line h" "indent h = []" using assms(3,4) by (cases h; simp add: blank_line_def indent_def)+
  have raw: "template_raw ls = map (case_option [] (\<lambda>l. if blank_line l then [] else pad 12 @ l)) ls @ [[]]"
    using assms(1) by (subst template_raw_def, subst concat_singles) (auto simp: tidy_def source_line_def split: option.splits)
  have "prefix (margin (template_raw ls)) (pad 12)"
    using margin_prefix [OF raw_heading [OF assms(2) _ h(1)]] assms(1,2) h by (simp add: indent_pad)
  moreover have "prefix (pad 12) (margin (template_raw ls))"
    using raw_heading [OF assms(2) _ h(1)] assms(1,2) h(1)
    by (intro margin_greatest) (auto simp: raw indent_pad intro: bexI [of _ "pad 12 @ h"] split: option.splits)
  ultimately have m: "margin (template_raw ls) = pad 12" by (rule prefix_order.antisym)
  have "split_nl (template ls) = map (case_option [] tidy) ls @ [[]]"
    unfolding template_lines m by (auto simp: raw tidy_def cut_pad cut_margin_def pad_def split: option.split)
  then show ?thesis by (metis join_split)
qed

text \<open>
  But \<open>dedent\<close> is applied after the interpolation: one further line of an interpolated text that starts at the left
  leaves every line of the template where the source has it.
\<close>

lemma template_sticks:
  assumes "Some (a @ CHR 0x0A # c # b) \<in> set ls" and "\<not> is_pad c" and "c \<noteq> CHR 0x0A"
    and "Some h \<in> set ls" and "single_line h" and "\<not> blank_line h"
  shows "pad 12 @ h \<in> set (split_nl (template ls))"
proof -
  obtain l where l: "c # l \<in> set (split_nl (c # b))"
    using assms(3) by (cases "split_nl b") auto
  have "split_nl (pad 12 @ a @ CHR 0x0A # c # b) = split_nl (pad 12 @ a) @ split_nl (c # b)"
    using split_nl_append [of "pad 12 @ a"] by simp
  with l have "c # l \<in> set (concat (map split_nl (map source_line ls @ [pad 8])))"
    using assms(1) by (auto simp: source_line_def simp del: split_nl.simps intro!: bexI [of _ "Some (a @ CHR 0x0A # c # b)"])
  then have "tidy (c # l) \<in> set (template_raw ls)" unfolding template_raw_def set_map by (rule imageI)
  moreover have "tidy (c # l) = c # l" "\<not> blank_line (c # l)" "indent (c # l) = []"
    using assms(2) by (simp_all add: tidy_def blank_line_def indent_def)
  ultimately have "margin (template_raw ls) = []"
    using margin_prefix [of "c # l" "template_raw ls"] by simp
  then show ?thesis
    using raw_heading [OF assms(4-6)] unfolding template_lines by (auto simp: cut_margin_def)
qed

subsection \<open>The body of the pull request\<close>

text \<open>
  The last line of the body and the first of the comment hold characters beyond those of \<open>char\<close>, and are arguments.
\<close>

definition pr_lines :: "string \<Rightarrow> changes \<Rightarrow> json \<Rightarrow> string option list" where
  "pr_lines signature ch issue_num =
     [Some ''## What'', Some (summary ch), None,
      Some ''## Why'', Some (why ch), None,
      Some ''## Test'',
      Some (''- [ ] `'' @ (if truthy (test_command ch) then py_str (test_command ch) else ''(no test command provided)'') @ ''`''),
      Some ''- [ ] CI passe (forbidden-zones-check + tests)'', None,
      Some (''Closes #'' @ py_str issue_num @ ''.''), None,
      Some ''---'', Some signature]"

definition pr_body :: "string \<Rightarrow> changes \<Rightarrow> json \<Rightarrow> string" where
  "pr_body signature ch issue_num = template (pr_lines signature ch issue_num)"

definition tests_comment :: "string \<Rightarrow> test_result \<Rightarrow> string" where
  "tests_comment heading result =
     template
       [Some heading, None,
        Some (''Label `'' @ NEEDS_REVIEW_LABEL @ ''` pos'' @ CHR 0xE9 # ''. Revue humaine requise.''), None,
        Some (''<details><summary>pytest output (tronqu'' @ CHR 0xE9 # '')</summary>''), None,
        Some ''```'', Some (take PYTEST_OUTPUT_TRUNC (test_output result)), Some ''```'', Some ''</details>'']"

lemma kept_section: "pad k @ h \<in> set (split_nl s) \<Longrightarrow> contains h s"
proof -
  assume "pad k @ h \<in> set (split_nl s)"
  from join_contains [OF this] obtain a b where "s = (a @ pad k) @ h @ b" by (auto simp: join_split)
  then show ?thesis unfolding contains_iff by blast
qed

lemma pr_body_sections: "list_all (\<lambda>sec. contains sec (pr_body signature ch issue_num)) REQUIRED_PR_SECTIONS"
proof -
  have "contains h (pr_body signature ch issue_num)" if "h \<in> {''## What'', ''## Why'', ''## Test''}" for h
  proof -
    have "\<exists>k. pad k @ h \<in> set (split_nl (pr_body signature ch issue_num))"
      unfolding pr_body_def by (rule template_keeps) (use that in \<open>auto simp: pr_lines_def single_line_def is_pad_def\<close>)
    then show ?thesis using kept_section by blast
  qed
  then show ?thesis by (simp add: REQUIRED_PR_SECTIONS_def)
qed

text \<open>
  C23. What the backend agent writes is what the CEO asks for: whatever the model gave as summary, reason and test
  command, one line or many, the body of the pull request has the three sections without which the CEO would leave it
  to a human.
\<close>

theorem pr_body_passes_review:
  "has_sections (JObj (dict_put ''body'' (JStr (pr_body signature ch issue_num)) kvs)) = Inr None"
  unfolding has_sections_None
  by (intro exI [of _ "JStr (pr_body signature ch issue_num)"])
    (use pr_body_sections [of signature ch issue_num] in \<open>auto simp: json_or_def list_all_iff\<close>)

text \<open>The body for a summary, a reason, a command and a last line of one line each.\<close>

lemma pr_body_flush:
  assumes "single_line (summary ch)" and "single_line (why ch)" and "test_command ch = JStr cmd" and "cmd \<noteq> []"
    and "single_line cmd" and "single_line signature" and "single_line (py_str issue_num)"
  shows "pr_body signature ch issue_num = join_nl
     [''## What'', tidy (summary ch), [], ''## Why'', tidy (why ch), [], ''## Test'', ''- [ ] `'' @ cmd @ ''`'',
      ''- [ ] CI passe (forbidden-zones-check + tests)'', [], ''Closes #'' @ py_str issue_num @ ''.'', [], ''---'',
      tidy signature, []]"
proof -
  have "pr_body signature ch issue_num = join_nl (map (case_option [] tidy) (pr_lines signature ch issue_num) @ [[]])"
    unfolding pr_body_def
    by (rule template_flush [where h = "''## What''"])
      (use assms in \<open>auto simp: pr_lines_def single_line_def is_pad_def py_str_def\<close>)
  then show ?thesis
    using assms(3,4) by (simp add: pr_lines_def py_str_def tidy_def blank_line_def is_pad_def)
qed

lemma single_show_int: "single_line (show_int n)"
  using set_show_nat [of "CHR 0x0A"] by (auto simp: single_line_def show_int_def)

text \<open>
  \<open>dedent\<close> runs on the text with the values already in it: when the summary or the reason of the model has a
  second line that starts at the left, nothing is dedented, and every heading of the body, and the line that closes the
  issue, keeps the twelve spaces of the source, which Markdown shows as a block of code.
\<close>

lemma multiline_reason_spoils_body:
  assumes "a @ CHR 0x0A # c # b \<in> {summary ch, why ch}" and "\<not> is_pad c" and "c \<noteq> CHR 0x0A"
  shows "{pad 12 @ ''## What'', pad 12 @ ''## Why'', pad 12 @ ''## Test'', pad 12 @ ''Closes #'' @ show_int n @ ''.''} \<subseteq>
    set (split_nl (pr_body signature ch (JNum n)))"
proof -
  have line: "Some (a @ CHR 0x0A # c # b) \<in> set (pr_lines signature ch (JNum n))"
    using assms(1) by (auto simp: pr_lines_def)
  have "pad 12 @ h \<in> set (split_nl (pr_body signature ch (JNum n)))"
    if "h \<in> {''## What'', ''## Why'', ''## Test'', ''Closes #'' @ show_int n @ ''.''}" for h
    unfolding pr_body_def
    by (rule template_sticks [OF line assms(2,3)])
      (use that single_show_int [of n] in \<open>auto simp: pr_lines_def single_line_def blank_line_def is_pad_def py_str_def\<close>)
  then show ?thesis by simp
qed

lemma seven: "show_int 7 = ''7''"
  by code_simp

lemma multiline_reason_spoils_body_witness:
  "pad 12 @ ''Closes #7.'' \<in> set (split_nl (pr_body ''bot''
     \<lparr>summary = ''s'', why = ''one'' @ CHR 0x0A # ''two'', files = JList [], tests = [], test_command = JNull\<rparr> (JNum 7)))"
  using multiline_reason_spoils_body [of "''one''" "CHR ''t''" "''wo''"
      "\<lparr>summary = ''s'', why = ''one'' @ CHR 0x0A # ''two'', files = JList [], tests = [], test_command = JNull\<rparr>" 7 "''bot''"]
  by (simp add: is_pad_def seven)

text \<open>
  The comment on failing tests always quotes the output of pytest, which has many lines: it is never dedented.
\<close>

lemma multiline_output_spoils_comment:
  assumes "take PYTEST_OUTPUT_TRUNC (test_output result) = a @ CHR 0x0A # c # b" and "\<not> is_pad c" and "c \<noteq> CHR 0x0A"
  shows "pad 12 @ ''</details>'' \<in> set (split_nl (tests_comment heading result))"
  unfolding tests_comment_def
  by (rule template_sticks [where a = a and b = b, OF _ assms(2,3)]) (simp_all add: assms(1) single_line_def blank_line_def is_pad_def)

subsection \<open>The zones of the charter\<close>

text \<open>
  The rules hold the forbidden patterns of another repository. Of the zones that CHARTER.md of this one forbids, only
  those of \<open>.env\<close> are among them: the CEO may merge a change of the charter itself.
\<close>

lemma charter_zones_pass:
  "list_all (\<lambda>name. matches_forbidden name = None \<and>
      check_charter_4 pr [JObj [(''filename'', JStr name), (''patch'', JStr ''+x'')]] = Inr accepted)
     [''app/main.py'', ''deploy/xeon-runbook.md'', ''CHARTER.md'']"
proof -
  have "check_charter_4 pr [JObj [(''filename'', JStr name), (''patch'', JStr ''+x'')]] = Inr accepted"
    if "check_charter_4 JNull [JObj [(''filename'', JStr name), (''patch'', JStr ''+x'')]] = Inr accepted" for name
    using that by (simp add: charter_4_accepts)
  moreover have "list_all (\<lambda>name. matches_forbidden name = None \<and>
      check_charter_4 JNull [JObj [(''filename'', JStr name), (''patch'', JStr ''+x'')]] = Inr accepted)
     [''app/main.py'', ''deploy/xeon-runbook.md'', ''CHARTER.md'']"
    by code_simp
  ultimately show ?thesis by simp
qed

end
