(* ===== verification/Orch_Main.thy ===== *)
theory Orch_Main
  imports Backend_Safety Triage
begin

text \<open>
  \<open>orchestrator/audit.py\<close> and \<open>orchestrator/main.py\<close>: the audit log, and the daemon that runs the three agents
  side by side, one heartbeat each per tick.
\<close>

subsection \<open>The audit log\<close>

datatype file_cmd =
    Mk_Dirs string
  | Local_Date
  | Utc_Now
  | Log_Lock
  | Log_Unlock
  | Append string string

record entry =
  entry_ts :: string
  entry_role :: string
  entry_action :: string
  entry_payload :: "(string \<times> detail) list"

definition LOG_DIR :: "roots \<Rightarrow> string" where
  "LOG_DIR rt = team_dir rt @ ''/logs''"

definition ask_file :: "file_cmd \<Rightarrow> (file_cmd, areply, exn + string) tree" where
  "ask_file c = Call c (\<lambda>r. Ret (text_reply r))"

definition tell_file :: "file_cmd \<Rightarrow> (file_cmd, areply, exn + unit) tree" where
  "tell_file c = andThen (ask_file c) (\<lambda>_. return ())"

text \<open>One line of JSON, which \<open>dumps\<close> makes, in the file of the day.\<close>

definition append_event ::
  "(entry \<Rightarrow> string) \<Rightarrow> roots \<Rightarrow> string \<Rightarrow> string \<Rightarrow> (string \<times> detail) list \<Rightarrow> (file_cmd, areply, exn + unit) tree" where
  "append_event dumps rt rl action payload =
     andThen (tell_file (Mk_Dirs (LOG_DIR rt))) (\<lambda>_.
     andThen (ask_file Local_Date) (\<lambda>day.
     let f = LOG_DIR rt @ ''/orchestrator-'' @ day @ ''.jsonl'' in
     andThen (ask_file Utc_Now) (\<lambda>ts.
     let line = dumps \<lparr>entry_ts = ts, entry_role = rl, entry_action = action, entry_payload = payload\<rparr> in
     andThen (tell_file Log_Lock) (\<lambda>_.
     finally_do (tell_file (Append f (line @ [CHR 0x0A]))) (tell_file Log_Unlock)))))"

subsection \<open>One tick\<close>

text \<open>
  \<open>asyncio.gather\<close> runs the heartbeats at once; they interleave at their commands. A schedule says which goes
  next. The result is the exception of the first heartbeat that raises, which the others do not wait
  for: they stay under way. None: the schedule ended first.
\<close>

type_synonym call_log = "(nat \<times> acmd \<times> areply) list"

primrec raised :: "unit agent list \<Rightarrow> exn option" where
  "raised [] = None"
| "raised (p # ps) = (case p of Ret (Inl e) \<Rightarrow> Some e | _ \<Rightarrow> raised ps)"

definition all_done :: "unit agent list \<Rightarrow> bool" where
  "all_done ps = list_all (\<lambda>p. case p of Ret _ \<Rightarrow> True | Call _ _ \<Rightarrow> False) ps"

fun step_of :: "(acmd \<Rightarrow> 's \<Rightarrow> areply \<times> 's) \<Rightarrow> nat \<Rightarrow> unit agent list \<Rightarrow> 's \<Rightarrow> call_log \<times> unit agent list \<times> 's" where
  "step_of H i ps s =
     (if i < length ps then
        (case ps ! i of
           Ret _ \<Rightarrow> ([], ps, s)
         | Call c k \<Rightarrow> (let (r, s') = H c s in ([(i, c, r)], ps[i := k r], s')))
      else ([], ps, s))"

fun interleave :: "(acmd \<Rightarrow> 's \<Rightarrow> areply \<times> 's) \<Rightarrow> nat list \<Rightarrow> unit agent list \<Rightarrow> 's \<Rightarrow> call_log \<times> unit agent list \<times> 's" where
  "interleave H [] ps s = ([], ps, s)"
| "interleave H (i # is) ps s =
     (let (h, ps', s') = step_of H i ps s; (h', ps'', s'') = interleave H is ps' s' in (h @ h', ps'', s''))"

fun one_tick ::
  "(acmd \<Rightarrow> 's \<Rightarrow> areply \<times> 's) \<Rightarrow> nat list \<Rightarrow> unit agent list \<Rightarrow> 's \<Rightarrow> (exn + unit) option \<times> unit agent list \<times> 's" where
  "one_tick H sched ps s =
     (case raised ps of
        Some e \<Rightarrow> (Some (Inl e), ps, s)
      | None \<Rightarrow>
          if all_done ps then (Some (Inr ()), ps, s)
          else (case sched of
             [] \<Rightarrow> (None, ps, s)
           | i # is \<Rightarrow> (let (_, ps', s') = step_of H i ps s in one_tick H is ps' s')))"

definition heartbeats :: "actx \<Rightarrow> string \<Rightarrow> string \<Rightarrow> roots \<Rightarrow> unit agent list" where
  "heartbeats ax triage_sys backend_sys rt =
     [heartbeat, triage_heartbeat ax triage_sys, backend_heartbeat ax backend_sys rt]"

subsection \<open>The daemon\<close>

datatype main_cmd =
    M_Log string "(string \<times> detail) list"
  | M_Tick string string \<comment> \<open>with the system prompts of the triage and of the backend\<close>
  | M_Is_Stopped
  | M_Exists string
  | M_Read string
  | M_Wait int

record arguments =
  once :: bool
  interval :: int

definition ask_main :: "main_cmd \<Rightarrow> (main_cmd, areply, exn + areply) tree" where
  "ask_main c = Call c (\<lambda>r. Ret (answer r))"

definition do_main :: "main_cmd \<Rightarrow> (main_cmd, areply, exn + unit) tree" where
  "do_main c = andThen (ask_main c) (\<lambda>_. return ())"

text \<open>
  The agents are made before anything is logged: their roles are found, and the prompts of two of them are read. The
  triage has one of its own when the file is missing; the backend does not.
\<close>

definition prompt_path :: "roots \<Rightarrow> string \<Rightarrow> string" where
  "prompt_path rt name = team_dir rt @ ''/agents/'' @ name @ ''.md''"

definition builtin_triage_prompt :: string where
  "builtin_triage_prompt =
     ''Tu es l'agent Triage de l'' @ CHR 0x27 # CHR 0xE9 # ''quipe kola-team. Analyse l'issue et '' @
     CHR 0x72 # CHR 0xE9 # ''ponds en JSON strict avec les cl'' @ CHR 0xE9 # ''s: area (parmi area/api, '' @
     ''area/web, area/infra, area/docs, area/team-ops), kind (parmi '' @
     ''kind/bug, kind/feature, kind/chore, kind/task), ready (true|false), '' @
     ''missing_info (string court, vide si ready=true). Pas de markdown, '' @
     ''pas d'explication, juste le JSON.''"

definition read_main :: "string \<Rightarrow> (main_cmd, areply, exn + string) tree" where
  "read_main path = andThen (ask_main (M_Read path)) (\<lambda>r. Ret (text_reply r))"

definition triage_prompt :: "roots \<Rightarrow> (main_cmd, areply, exn + string) tree" where
  "triage_prompt rt =
     andThen (ask_main (M_Exists (prompt_path rt ''triage''))) (\<lambda>there.
     if there \<noteq> A_Bool True then return builtin_triage_prompt else read_main (prompt_path rt ''triage''))"

definition backend_prompt :: "roots \<Rightarrow> (main_cmd, areply, exn + string) tree" where
  "backend_prompt rt =
     andThen (ask_main (M_Exists (prompt_path rt ''backend''))) (\<lambda>there.
     if there \<noteq> A_Bool True then raise (OtherException (''backend prompt manquant : '' @ prompt_path rt ''backend''))
     else read_main (prompt_path rt ''backend''))"

definition make_agents :: "roots \<Rightarrow> (main_cmd, areply, exn + (string list \<times> string \<times> string)) tree" where
  "make_agents rt =
     andThen (Ret (role_of ''ceo'')) (\<lambda>ceo.
     andThen (Ret (role_of ''triage'')) (\<lambda>triage.
     andThen (triage_prompt rt) (\<lambda>triage_sys.
     andThen (Ret (role_of ''backend'')) (\<lambda>backend.
     andThen (backend_prompt rt) (\<lambda>backend_sys.
     return (map role_name [ceo, triage, backend], triage_sys, backend_sys))))))"

text \<open>The loop until \<open>stop\<close> is set, for at most \<open>fuel\<close> rounds: whether it was set.\<close>

primrec loop :: "string list \<times> string \<times> string \<Rightarrow> nat \<Rightarrow> int \<Rightarrow> (main_cmd, areply, exn + bool) tree" where
  "loop agents 0 interval_s = return False"
| "loop agents (Suc fuel) interval_s =
     andThen (ask_main M_Is_Stopped) (\<lambda>stopped.
     if stopped = A_Bool True then return True
     else
       case agents of (names, triage_sys, backend_sys) \<Rightarrow>
       andThen (do_main (M_Log ''heartbeat-start'' [(''agents'', NTexts names)])) (\<lambda>_.
       andThen
         (catch (do_main (M_Tick triage_sys backend_sys))
            (\<lambda>e. if is_exception e then do_main (M_Log ''heartbeat-fail'' [(''error'', NText (exn_str e))]) else raise e))
         (\<lambda>_.
       andThen (do_main (M_Wait interval_s)) (\<lambda>_.
       loop agents fuel interval_s))))"

definition amain :: "roots \<Rightarrow> nat \<Rightarrow> arguments \<Rightarrow> (main_cmd, areply, exn + int option) tree" where
  "amain rt fuel args =
     andThen (make_agents rt) (\<lambda>agents.
     case agents of (names, triage_sys, backend_sys) \<Rightarrow>
     andThen (do_main (M_Log ''boot'' [(''roles'', NTexts names), (''interval'', NInt (interval args)),
       (''once'', NBool (once args))])) (\<lambda>_.
     if once args then andThen (do_main (M_Tick triage_sys backend_sys)) (\<lambda>_. return (Some 0))
     else
       andThen (loop agents fuel (interval args)) (\<lambda>stopped.
       if \<not> stopped then return None
       else andThen (do_main (M_Log ''shutdown'' [])) (\<lambda>_. return (Some 0)))))"

subsection \<open>A heartbeat among others is a heartbeat alone\<close>

text \<open>
  What one program issued during an interleaving, and a server that replays the replies it got and then fails
  every call. Alone with that server the program does the same, so what holds of every run of an agent
  alone holds of it among the others.
\<close>

definition own :: "nat \<Rightarrow> call_log \<Rightarrow> (acmd \<times> areply) list" where
  "own i h = map snd (filter (\<lambda>x. fst x = i) h)"

fun replay :: "acmd \<Rightarrow> areply list \<Rightarrow> areply \<times> areply list" where
  "replay c [] = (A_Err CancelledError, [])"
| "replay c (r # rs) = (r, rs)"

definition all_fail :: "(acmd \<times> areply) list \<Rightarrow> bool" where
  "all_fail h \<longleftrightarrow> (\<forall>(c, r) \<in> set h. r = A_Err CancelledError)"

lemma replay_nothing: "all_fail (history replay p [])"
  by (induction p) (auto simp: all_fail_def)

lemma interleave_indices: "interleave H is ps s = (h, qs, s') \<Longrightarrow> (i, c, r) \<in> set h \<Longrightarrow> i < length ps"
proof (induction "is" arbitrary: ps s h)
  case (Cons j js)
  then show ?case
    by (fastforce split: if_splits tree.splits prod.splits)
qed simp

lemma own_alone:
  "interleave H is ps s = (h, qs, s') \<Longrightarrow> i < length ps \<Longrightarrow>
     \<exists>rest. history replay (ps ! i) (map snd (own i h)) = own i h @ rest \<and> all_fail rest"
proof (induction "is" arbitrary: ps s h)
  case Nil
  then show ?case by (simp add: own_def replay_nothing)
next
  case (Cons j js)
  obtain h1 ps1 s1 where 1: "step_of H j ps s = (h1, ps1, s1)" by (cases "step_of H j ps s") auto
  obtain h2 where 2: "interleave H js ps1 s1 = (h2, qs, s')" and h: "h = h1 @ h2"
    using Cons.prems(1) 1 by (auto split: prod.splits)
  have len: "i < length ps1" using 1 Cons.prems(2) by (auto split: if_splits tree.splits prod.splits)
  obtain rest where r: "history replay (ps1 ! i) (map snd (own i h2)) = own i h2 @ rest" "all_fail rest"
    using Cons.IH [OF 2 len] by blast
  show ?case
  proof (cases "j = i \<and> (\<exists>c k. ps ! i = Call c k)")
    case True
    then obtain c k where c: "j = i" "ps ! i = Call c k" by blast
    then have "h1 = [(i, c, fst (H c s))]" "ps1 ! i = k (fst (H c s))"
      using 1 Cons.prems(2) by (auto split: prod.splits)
    with r c show ?thesis by (simp add: h own_def)
  next
    case False
    then have "own i h1 = [] \<and> ps1 ! i = ps ! i"
      using 1 by (cases "i = j") (auto simp: own_def split: if_splits tree.splits prod.splits)
    with r show ?thesis by (simp add: h own_def)
  qed
qed

subsection \<open>Only the CEO merges\<close>

lemma merges_simps: "merges (Gh g) \<longleftrightarrow> (\<exists>n t b. g = Merge_Pr n t b)" "\<not> merges (Log_Event w a p)" "\<not> merges (Env_Var v)"
  "\<not> merges (Run_Process args d)" "\<not> merges (Llm_Post al sys pr mt tp ts)" "\<not> merges (Path_Exists q)"
  "\<not> merges (Remove_Tree q)" "\<not> merges (Make_Dirs q)" "\<not> merges (Write_Text q txt)" "\<not> merges Today"
  "\<not> merges (Incrby q k)" "\<not> merges (Expire q k)"
  by (simp_all add: merges_def)

lemma triage_does_not_merge: "only (\<lambda>c. \<not> merges c) (triage_heartbeat ax sys)"
proof -
  have reserve: "only (\<lambda>c. \<not> merges c) (reserve_for who rl n e)" for who rl n e
    by (rule only_budget(1)) (simp_all add: merges_simps)
  have paid: "only (\<lambda>c. \<not> merges c) (paid_call rl sys p mt tp rv e (\<lambda>_. return ()))" for rl p mt tp rv e
    by (rule only_paid_call) (simp_all add: merges_simps only_rules)
  have one: "only (\<lambda>c. \<not> merges c) (triage_one ax sys i)" for i
    unfolding triage_one_def apply_labels_def Let_def
    by (auto intro!: only_rules reserve paid simp: merges_simps split: option.split)
  have "only (\<lambda>c. \<not> merges c) (triage_all ax sys is)" for "is"
    by (induction "is") (auto intro!: only_rules one simp: triage_safely_def merges_simps)
  then show ?thesis
    unfolding triage_heartbeat_def by (auto intro!: only_rules simp: merges_simps split: option.split)
qed

lemma backend_does_not_merge: "only (\<lambda>c. \<not> merges c) (backend_heartbeat ax sys rt)"
proof -
  have h: "harmless c \<Longrightarrow> \<not> merges c" for c by (auto simp: harmless_def merges_def)
  have g: "backend_gh n g \<Longrightarrow> g \<noteq> Merge_Pr k t b" for n g k t b by auto
  have "only (\<lambda>c. \<not> merges c) (develop ax sys i n wt)" for i n wt
    by (rule only_develop) (simp_all add: h g only_write_files_any merges_simps)
  moreover have "only (\<lambda>c. \<not> merges c) (block n r)" for n r
    unfolding block_def by (auto intro!: only_rules simp: merges_simps)
  moreover have "only (\<lambda>c. \<not> merges c) (remove_worktree rt wt False)" for wt
    by (rule only_remove) (simp_all add: merges_simps)
  ultimately have "only (\<lambda>c. \<not> merges c) (work_in ax sys rt i n wt)" for i n wt
    unfolding work_in_def by (auto intro!: only_rules)
  moreover have "only (\<lambda>c. \<not> merges c) (set_up rt n title)" for n title
    by (rule only_set_up) (simp_all add: h g merges_simps)
  ultimately show ?thesis
    unfolding backend_heartbeat_def work_one_def
    by (auto intro!: only_rules simp: merges_simps split: option.split)
qed

definition agent_program :: "unit agent \<Rightarrow> bool" where
  "agent_program p \<longleftrightarrow> p = heartbeat \<or> (\<exists>ax sys. p = triage_heartbeat ax sys) \<or> (\<exists>ax sys rt. p = backend_heartbeat ax sys rt)"

lemma heartbeats_agents: "list_all agent_program (heartbeats ax sys1 sys2 rt)"
  unfolding heartbeats_def agent_program_def list.pred_inject by (intro conjI; (blast | simp))

text \<open>
  C10. However the heartbeats of any number of agents interleave, of one tick or of several that overlap, over any
  server, only a heartbeat of the CEO merges, and only a pull request that it saw itself, in that
  heartbeat, to satisfy both sets of rules.
\<close>

theorem only_the_ceo_merges:
  assumes "interleave H is ps s = (h, qs, s')" and "list_all agent_program ps" and "(i, Gh (Merge_Pr n t b), r) \<in> set h"
  shows "ps ! i = heartbeat \<and> (\<exists>pr files status. listed (own i h) pr \<and> eligible pr n \<and> reviewed (own i h) n files status \<and>
    list_all file_safe files \<and> mergeable pr files status)"
proof -
  let ?p = "ps ! i" and ?rs = "map snd (own i h)"
  have len: "i < length ps" using interleave_indices assms(1,3) .
  obtain rest where hist: "history replay ?p ?rs = own i h @ rest" and rest: "all_fail rest"
    using own_alone [OF assms(1) len] by blast
  have m: "(Gh (Merge_Pr n t b), r) \<in> set (history replay ?p ?rs)"
    unfolding hist using assms(3) by (force simp: own_def)
  have "agent_program ?p" using assms(2) len by (simp add: list_all_length)
  then have p: "?p = heartbeat"
    unfolding agent_program_def
  proof (elim disjE exE)
    fix ax sys assume "?p = triage_heartbeat ax sys"
    from only_history [OF triage_does_not_merge m [unfolded this]] show ?thesis by (simp add: merges_simps)
  next
    fix ax sys rt assume "?p = backend_heartbeat ax sys rt"
    from only_history [OF backend_does_not_merge m [unfolded this]] show ?thesis by (simp add: merges_simps)
  qed
  from heartbeat_history [OF m [unfolded p]] obtain pr n' files status s2
    where *: "listed (own i h @ rest) pr" "eligible pr n'" "reviewed (own i h @ rest) n' files status"
      and a: "(Gh (Merge_Pr n t b), r) \<in> set (history replay (act_on pr n' files status) s2)"
    unfolding hist [unfolded p] by auto
  have "n = n'" using only_history [OF act_only [of n' pr files status] a] by simp
  moreover have "listed (own i h) pr" "reviewed (own i h) n' files status"
    using *(1,3) rest unfolding listed_def reviewed_def all_fail_def by fastforce+
  ultimately show ?thesis using * p act_merges [OF a] by (auto simp: merges_def)
qed

text \<open>The heartbeats of the CEO and of the triage in turn, over a GitHub with one pull request.\<close>

lemma demo_interleaving:
  "\<exists>h qs s'. interleave (demo_github demo_files) [0, 1, 0, 1, 0, 0, 0, 0] [heartbeat, triage_heartbeat demo_actx ''p''] () = (h, qs, s') \<and>
     (0, Gh (Merge_Pr (JNum 7) (JStr ''t'') (JStr ''## What ## Why ## Test'')), A_Json JNull) \<in> set h"
proof -
  have "(0, Gh (Merge_Pr (JNum 7) (JStr ''t'') (JStr ''## What ## Why ## Test'')), A_Json JNull) \<in>
      set (fst (interleave (demo_github demo_files) [0, 1, 0, 1, 0, 0, 0, 0] [heartbeat, triage_heartbeat demo_actx ''p''] ()))"
    by code_simp
  then show ?thesis by (metis prod.collapse)
qed

theorem only_the_ceo_merges_witness:
  "\<exists>h pr files status. listed (own 0 h) pr \<and> eligible pr (JNum 7) \<and> reviewed (own 0 h) (JNum 7) files status \<and>
     list_all file_safe files \<and> mergeable pr files status"
proof -
  have agents: "list_all agent_program [heartbeat, triage_heartbeat demo_actx ''p'']"
    unfolding agent_program_def list.pred_inject by (intro conjI; (blast | simp))
  from demo_interleaving obtain h qs s' where
      "interleave (demo_github demo_files) [0, 1, 0, 1, 0, 0, 0, 0] [heartbeat, triage_heartbeat demo_actx ''p''] () = (h, qs, s')"
      "(0, Gh (Merge_Pr (JNum 7) (JStr ''t'') (JStr ''## What ## Why ## Test'')), A_Json JNull) \<in> set h" by blast
  from only_the_ceo_merges [OF this(1) agents this(2)] show ?thesis by blast
qed

text \<open>
  \<open>gather\<close> does not isolate the agents: an exception that the heartbeat of the CEO lets through, such as an error of
  \<open>httpx\<close>, ends the tick with the other two still under way.
\<close>

lemma one_failure_ends_the_tick:
  assumes "\<And>s. fst (H (Env_Var ''KOLA_CEO_PAUSED'') s) = A_Json JNull" and "\<And>s. fst (H (Gh List_Open_Prs) s) = A_Err (HttpxError m)"
  shows "\<exists>s' p. one_tick H [0, 0] (heartbeats ax sys1 sys2 rt) s =
    (Some (Inl (HttpxError m)), [p, triage_heartbeat ax sys1, backend_heartbeat ax sys2 rt], s')"
proof -
  have "\<exists>k j. heartbeat = Call (Env_Var ''KOLA_CEO_PAUSED'') k \<and> k (A_Json JNull) = Call (Gh List_Open_Prs) j \<and>
      j (A_Err (HttpxError m)) = Ret (Inl (HttpxError m))"
    by (simp add: heartbeat_def open_prs_def ask_json_def gh_def andThen_def catch_def return_def raise_def)
  then obtain k j where k: "heartbeat = Call (Env_Var ''KOLA_CEO_PAUSED'') k" "k (A_Json JNull) = Call (Gh List_Open_Prs) j"
      "j (A_Err (HttpxError m)) = Ret (Inl (HttpxError m))" by blast
  obtain c2 k2 c3 k3 where r: "triage_heartbeat ax sys1 = Call c2 k2" "backend_heartbeat ax sys2 rt = Call c3 k3"
    by (simp add: triage_heartbeat_def backend_heartbeat_def gh_def ask_json_def andThen_def catch_def)
  obtain s1 s2 where "H (Env_Var ''KOLA_CEO_PAUSED'') s = (A_Json JNull, s1)" "H (Gh List_Open_Prs) s1 = (A_Err (HttpxError m), s2)"
    using assms by (metis prod.collapse)
  then show ?thesis
    by (simp add: heartbeats_def k r all_done_def)
qed

subsection \<open>The daemon goes on, and ends when it is told to\<close>

text \<open>
  A world in which the log can be written and \<open>stop\<close> is set after a number of waits, which \<open>left\<close> counts. A
  tick may raise any exception an \<open>except Exception\<close> catches.
\<close>

definition stopping_world :: "(main_cmd \<Rightarrow> 's \<Rightarrow> areply \<times> 's) \<Rightarrow> ('s \<Rightarrow> nat) \<Rightarrow> bool" where
  "stopping_world H left \<longleftrightarrow>
     (\<forall>s. fst (H M_Is_Stopped s) = A_Bool (left s = 0)) \<and>
     (\<forall>s a p e. fst (H (M_Log a p) s) \<noteq> A_Err e) \<and> (\<forall>s n e. fst (H (M_Wait n) s) \<noteq> A_Err e) \<and>
     (\<forall>s t b e. fst (H (M_Tick t b) s) = A_Err e \<longrightarrow> is_exception e) \<and>
     (\<forall>s q e. fst (H (M_Exists q) s) \<noteq> A_Err e) \<and> (\<forall>s q e. fst (H (M_Read q) s) \<noteq> A_Err e) \<and>
     (\<forall>s c. left (snd (H c s)) \<le> left s) \<and> (\<forall>s n. left (snd (H (M_Wait n) s)) \<le> left s - 1)"

lemma run_quiet:
  assumes "stopping_world H left"
  shows "\<exists>s'. run H (do_main (M_Log a p)) s = (Inr (), s') \<and> left s' \<le> left s"
    and "\<exists>s'. run H (do_main (M_Wait n)) s = (Inr (), s') \<and> left s' \<le> left s - 1"
proof -
  have "\<exists>x. answer (fst (H (M_Log a p) s)) = Inr x" "\<exists>x. answer (fst (H (M_Wait n) s)) = Inr x"
    using assms by (simp_all add: stopping_world_def answer_Inr)
  then show "\<exists>s'. run H (do_main (M_Log a p)) s = (Inr (), s') \<and> left s' \<le> left s"
    "\<exists>s'. run H (do_main (M_Wait n)) s = (Inr (), s') \<and> left s' \<le> left s - 1"
    using assms by (auto simp: do_main_def ask_main_def run_andThen stopping_world_def)
qed

lemma run_tick:
  assumes w: "stopping_world H left"
  shows "\<exists>s'. run H (catch (do_main (M_Tick t b))
     (\<lambda>e. if is_exception e then do_main (M_Log ''heartbeat-fail'' [(''error'', NText (exn_str e))]) else raise e)) s =
     (Inr (), s') \<and> left s' \<le> left s"
proof -
  have l: "left (snd (H (M_Tick t b) s)) \<le> left s" using w by (simp add: stopping_world_def)
  show ?thesis
  proof (cases "\<exists>e. fst (H (M_Tick t b) s) = A_Err e")
    case True
    then obtain e where e: "fst (H (M_Tick t b) s) = A_Err e" by blast
    obtain s' where "run H (do_main (M_Log ''heartbeat-fail'' [(''error'', NText (exn_str e))])) (snd (H (M_Tick t b) s)) = (Inr (), s')"
        "left s' \<le> left (snd (H (M_Tick t b) s))"
      using run_quiet(1) [OF w] by blast
    moreover have "run H (do_main (M_Tick t b)) s = (Inl e, snd (H (M_Tick t b) s))"
      by (simp add: do_main_def ask_main_def run_andThen e)
    ultimately show ?thesis using w e l by (auto simp: run_catch stopping_world_def intro: order_trans)
  next
    case False
    then obtain x where "answer (fst (H (M_Tick t b) s)) = Inr x" by (cases "fst (H (M_Tick t b) s)") auto
    then have "run H (do_main (M_Tick t b)) s = (Inr (), snd (H (M_Tick t b) s))"
      by (simp add: do_main_def ask_main_def run_andThen)
    with l show ?thesis by (simp add: run_catch)
  qed
qed

lemma loop_ends:
  assumes w: "stopping_world H left"
  shows "left s < fuel \<Longrightarrow> \<exists>s'. run H (loop agents fuel n) s = (Inr True, s')"
proof (induction fuel arbitrary: s)
  case (Suc fuel)
  let ?s = "snd (H M_Is_Stopped s)"
  have q: "run H (ask_main M_Is_Stopped) s = (Inr (A_Bool (left s = 0)), ?s)"
    using w by (simp add: ask_main_def stopping_world_def)
  show ?case
  proof (cases "left s = 0")
    case True
    then show ?thesis by (simp add: run_andThen q)
  next
    case False
    obtain names t b where agents: "agents = (names, t, b)" by (cases agents)
    have l: "left ?s \<le> left s" using w by (simp add: stopping_world_def)
    obtain s1 where 1: "run H (do_main (M_Log ''heartbeat-start'' [(''agents'', NTexts names)])) ?s = (Inr (), s1)" "left s1 \<le> left ?s"
      using run_quiet(1) [OF w] by blast
    obtain s2 where 2: "run H (catch (do_main (M_Tick t b))
        (\<lambda>e. if is_exception e then do_main (M_Log ''heartbeat-fail'' [(''error'', NText (exn_str e))]) else raise e)) s1 = (Inr (), s2)"
        "left s2 \<le> left s1"
      using run_tick [OF w] by blast
    obtain s3 where 3: "run H (do_main (M_Wait n)) s2 = (Inr (), s3)" "left s3 \<le> left s2 - 1"
      using run_quiet(2) [OF w] by blast
    have "left s3 < fuel" using l 1(2) 2(2) 3(2) False Suc.prems by linarith
    from Suc.IH [OF this] show ?thesis using False by (simp add: run_andThen q 1 2 3 agents [symmetric]) (simp add: agents run_andThen 1 2 3)
  qed
qed simp

lemma make_agents_runs:
  assumes w: "stopping_world H left" and "\<And>s. fst (H (M_Exists (prompt_path rt ''backend'')) s) = A_Bool True"
  shows "\<exists>t b s'. run H (make_agents rt) s = (Inr ([''ceo'', ''triage'', ''backend''], t, b), s') \<and> left s' \<le> left s"
proof -
  have left: "left (snd (H c s)) \<le> left s" for c s using w by (simp add: stopping_world_def)
  have exist: "run H (ask_main (M_Exists q)) s = (Inr (fst (H (M_Exists q) s)), snd (H (M_Exists q) s))" for q s
    using w by (auto simp: ask_main_def answer_Inr stopping_world_def split: prod.split)
  have get: "\<exists>t s'. run H (read_main q) s = (Inr t, s') \<and> left s' \<le> left s" for q s
  proof -
    have "answer (fst (H (M_Read q) s)) = Inr (fst (H (M_Read q) s))" "\<exists>t. text_reply (fst (H (M_Read q) s)) = Inr t"
      using w by (cases "fst (H (M_Read q) s)"; simp add: stopping_world_def)+
    then show ?thesis using left [of "M_Read q" s]
      by (auto simp: read_main_def ask_main_def run_andThen)
  qed
  have "\<exists>t s'. run H (triage_prompt rt) s = (Inr t, s') \<and> left s' \<le> left s"
    using get [of "prompt_path rt ''triage''" "snd (H (M_Exists (prompt_path rt ''triage'')) s)"]
      left [of "M_Exists (prompt_path rt ''triage'')" s]
    by (fastforce simp: triage_prompt_def run_andThen exist)
  then obtain t s1 where 1: "run H (triage_prompt rt) s = (Inr t, s1)" "left s1 \<le> left s" by blast
  have "\<exists>b s'. run H (backend_prompt rt) s1 = (Inr b, s') \<and> left s' \<le> left s1"
    using get [of "prompt_path rt ''backend''" "snd (H (M_Exists (prompt_path rt ''backend'')) s1)"]
      left [of "M_Exists (prompt_path rt ''backend'')" s1] assms(2)
    by (fastforce simp: backend_prompt_def run_andThen exist)
  then obtain b s2 where "run H (backend_prompt rt) s1 = (Inr b, s2)" "left s2 \<le> left s1" by blast
  with 1 show ?thesis by (simp add: make_agents_def role_of_def ROLES_def run_andThen)
qed

text \<open>
  C28. With the backend's prompt in its place, and once it is told to stop, the daemon ends with status 0 and as many
  rounds later as there are waits until then, whatever exceptions its ticks raise on the way: a failing tick never ends it.
\<close>

theorem daemon_survives_and_stops:
  assumes "stopping_world H left" and "\<And>s. fst (H (M_Exists (prompt_path rt ''backend'')) s) = A_Bool True"
    and "\<not> once args" and "left s < fuel"
  shows "fst (run H (amain rt fuel args) s) = Inr (Some 0)"
proof -
  obtain t b s0 where 0: "run H (make_agents rt) s = (Inr ([''ceo'', ''triage'', ''backend''], t, b), s0)" "left s0 \<le> left s"
    using make_agents_runs [OF assms(1,2)] by blast
  let ?p = "[(''roles'', NTexts [''ceo'', ''triage'', ''backend'']), (''interval'', NInt (interval args)), (''once'', NBool (once args))]"
  obtain s1 where 1: "run H (do_main (M_Log ''boot'' ?p)) s0 = (Inr (), s1)" "left s1 \<le> left s0"
    using run_quiet(1) [OF assms(1)] by blast
  obtain s2 where 2: "run H (loop ([''ceo'', ''triage'', ''backend''], t, b) fuel (interval args)) s1 = (Inr True, s2)"
    using loop_ends [OF assms(1), of s1 fuel] 0 1 assms(4) by fastforce
  obtain s3 where "run H (do_main (M_Log ''shutdown'' [])) s2 = (Inr (), s3)"
    using run_quiet(1) [OF assms(1)] by blast
  then show ?thesis using assms(3) 0 1 2 by (simp add: amain_def run_andThen)
qed

definition demo_daemon :: "main_cmd \<Rightarrow> nat \<Rightarrow> areply \<times> nat" where
  "demo_daemon c s =
     (case c of
        M_Is_Stopped \<Rightarrow> (A_Bool (s = 0), s)
      | M_Tick _ _ \<Rightarrow> (A_Err (HttpxError ''down''), s)
      | M_Wait _ \<Rightarrow> (A_Nil, s - 1)
      | M_Exists q \<Rightarrow> (A_Bool (q = prompt_path demo_roots ''backend''), s)
      | M_Read _ \<Rightarrow> (A_Text ''p'', s)
      | _ \<Rightarrow> (A_Nil, s))"

theorem daemon_survives_and_stops_witness:
  "fst (run demo_daemon (amain demo_roots 3 \<lparr>once = False, interval = 300\<rparr>) 2) = Inr (Some 0)"
proof (rule daemon_survives_and_stops [where left = "\<lambda>s. s"])
  show "stopping_world demo_daemon (\<lambda>s. s)"
    by (auto simp: stopping_world_def demo_daemon_def is_exception_def split: main_cmd.split)
qed (simp_all add: demo_daemon_def)

text \<open>
  Signals: the handler of SIGINT and SIGTERM sets \<open>stop\<close>, in the middle of whatever the loop is about. The state
  holds the number of commands that still run before a signal comes, and the event.
\<close>

definition on_sig :: "bool \<Rightarrow> bool" where
  "on_sig stop = True"

definition signalled :: "(main_cmd \<Rightarrow> 's \<Rightarrow> areply \<times> 's) \<Rightarrow> main_cmd \<Rightarrow> nat \<times> bool \<times> 's \<Rightarrow> areply \<times> (nat \<times> bool \<times> 's)" where
  "signalled H c x =
     (case x of (quiet, stop, s) \<Rightarrow>
        (case c of M_Is_Stopped \<Rightarrow> A_Bool stop | _ \<Rightarrow> fst (H c s),
         (quiet - 1, if quiet = 0 then on_sig stop else stop, case c of M_Is_Stopped \<Rightarrow> s | _ \<Rightarrow> snd (H c s))))"

lemma signalled_stops:
  assumes "\<And>s a p e. fst (H (M_Log a p) s) \<noteq> A_Err e" and "\<And>s n e. fst (H (M_Wait n) s) \<noteq> A_Err e"
    and "\<And>s t b e. fst (H (M_Tick t b) s) = A_Err e \<Longrightarrow> is_exception e"
    and "\<And>s q e. fst (H (M_Exists q) s) \<noteq> A_Err e" and "\<And>s q e. fst (H (M_Read q) s) \<noteq> A_Err e"
  shows "stopping_world (signalled H) (\<lambda>(quiet, stop, s). if stop then 0 else Suc quiet)"
  using assms unfolding stopping_world_def by (auto simp: signalled_def on_sig_def split: main_cmd.split)

text \<open>Once a signal has come the loop ends, after the round in which it came.\<close>

lemma signal_ends_the_loop:
  assumes "\<And>s a p e. fst (H (M_Log a p) s) \<noteq> A_Err e" and "\<And>s n e. fst (H (M_Wait n) s) \<noteq> A_Err e"
    and "\<And>s t b e. fst (H (M_Tick t b) s) = A_Err e \<Longrightarrow> is_exception e"
    and "\<And>s q e. fst (H (M_Exists q) s) \<noteq> A_Err e" and "\<And>s q e. fst (H (M_Read q) s) \<noteq> A_Err e"
    and "Suc quiet < fuel"
  shows "\<exists>x. run (signalled H) (loop agents fuel n) (quiet, False, s) = (Inr True, x)"
  by (rule loop_ends [OF signalled_stops]) (use assms in auto)

text \<open>Without the backend's prompt there is no daemon: nothing is logged and no tick is run.\<close>

lemma no_daemon_without_backend_prompt:
  assumes "\<And>s. fst (H (M_Exists (prompt_path rt ''backend'')) s) = A_Bool False"
    and "\<And>s q e. fst (H (M_Exists q) s) \<noteq> A_Err e" and "\<And>s q e. fst (H (M_Read q) s) \<noteq> A_Err e"
  shows "fst (run H (amain rt fuel args) s) =
    Inl (OtherException (''backend prompt manquant : '' @ prompt_path rt ''backend''))"
proof -
  have exist: "run H (ask_main (M_Exists q)) s = (Inr (fst (H (M_Exists q) s)), snd (H (M_Exists q) s))" for q s
    using assms(2) by (auto simp: ask_main_def answer_Inr split: prod.split)
  have "\<exists>t s'. run H (read_main q) s = (Inr t, s')" for q s
  proof -
    have "answer (fst (H (M_Read q) s)) = Inr (fst (H (M_Read q) s))" "\<exists>t. text_reply (fst (H (M_Read q) s)) = Inr t"
      using assms(3) by (cases "fst (H (M_Read q) s)"; simp)+
    then show ?thesis by (auto simp: read_main_def ask_main_def run_andThen)
  qed
  then obtain t s' where "run H (triage_prompt rt) s = (Inr t, s')"
    by (fastforce simp: triage_prompt_def run_andThen exist)
  then show ?thesis
    using assms(1) by (simp add: amain_def make_agents_def backend_prompt_def role_of_def ROLES_def run_andThen exist)
qed

text \<open>
  A call of \<open>log_event\<close> that returns has appended exactly one line, with its line feed, to the file of the day
  it read, while it held the lock.
\<close>

theorem audit_appends_one_line:
  assumes "fst (run H (append_event dumps rt rl action payload) s) = Inr ()"
  shows "\<exists>day ts. trace H (append_event dumps rt rl action payload) s =
    [Mk_Dirs (LOG_DIR rt), Local_Date, Utc_Now, Log_Lock,
     Append (LOG_DIR rt @ ''/orchestrator-'' @ day @ ''.jsonl'')
       (dumps \<lparr>entry_ts = ts, entry_role = rl, entry_action = action, entry_payload = payload\<rparr> @ [CHR 0x0A]),
     Log_Unlock]"
proof -
  have f: "run H (ask_file c) s = (text_reply (fst (H c s)), snd (H c s))" "trace H (ask_file c) s = [c]"
    "trace H (tell_file c) s = [c]" for c s
    by (simp_all add: ask_file_def tell_file_def trace_andThen return_def split: prod.split sum.split)
  obtain s' where r: "run H (append_event dumps rt rl action payload) s = (Inr (), s')"
    using assms by (metis prod.collapse)
  obtain s1 where 1: "run H (tell_file (Mk_Dirs (LOG_DIR rt))) s = (Inr (), s1)"
    using r by (auto simp: append_event_def run_andThen_Inr)
  obtain day s2 where 2: "run H (ask_file Local_Date) s1 = (Inr day, s2)"
    using r by (auto simp: append_event_def run_andThen_Inr 1)
  obtain ts s3 where 3: "run H (ask_file Utc_Now) s2 = (Inr ts, s3)"
    using r by (auto simp: append_event_def run_andThen_Inr 1 2 Let_def)
  obtain s4 where 4: "run H (tell_file Log_Lock) s3 = (Inr (), s4)"
    using r by (auto simp: append_event_def run_andThen_Inr 1 2 3 Let_def)
  have fin: "trace H (finally_do m (tell_file Log_Unlock)) s = trace H m s @ [Log_Unlock]" for m :: "(file_cmd, areply, exn + unit) tree" and s
    by (simp add: trace_history history_finally) (simp add: trace_history [symmetric] f)
  show ?thesis
    by (intro exI [of _ day] exI [of _ ts]) (simp add: append_event_def trace_andThen 1 2 3 4 f(2,3) fin Let_def)
qed

definition demo_disk :: "file_cmd \<Rightarrow> unit \<Rightarrow> areply \<times> unit" where
  "demo_disk c s = (A_Text ''2026-01-02'', s)"

lemma demo_append: "fst (run demo_disk (append_event entry_action demo_roots ''ceo'' ''paused'' []) ()) = Inr ()"
  by code_simp

theorem audit_appends_one_line_witness:
  "\<exists>day. Append (''/g/team/logs/orchestrator-'' @ day @ ''.jsonl'') (''paused'' @ [CHR 0x0A]) \<in>
     set (trace demo_disk (append_event entry_action demo_roots ''ceo'' ''paused'' []) ())"
  using audit_appends_one_line [OF demo_append] by (auto simp: LOG_DIR_def demo_roots_def)

end
