(* ===== verification/Spec2Isabelle.thy ===== *)
theory Spec2Isabelle
  imports Application Shutdown Metering Sync_Wait Schemas Recovery Github_App Handoff Orch_Main
begin

text \<open>
  A model of the Talki LLM admission scheduler, a FastAPI process that queues chat completions in
  Redis, lets each model run only as many at a time as it has slots, and forwards them to a
  LiteLLM proxy; and of the orchestrator that lives beside it, a daemon of agents that label issues,
  implement them and merge pull requests with the help of a model. The paths below are under \<open>src/\<close>.

  \<^bold>\<open>How the program works.\<close> A request handler (\<open>app/api/routes.py\<close>) gives a request to the
  admission controller (\<open>app/core/admission.py\<close>), which scores it and adds it to the sorted set of
  its model in one Lua script (\<open>app/storage/redis_lua.py\<close>), or rejects it. The worker of the model
  (\<open>app/core/dispatcher.py\<close>) pops the lowest score, claims a slot in a second script, takes a
  lease, posts the stored payload (\<open>app/backend/litellm_forwarder.py\<close>), writes the terminal state and
  gives the slot back. The lease watcher (\<open>app/core/lease_watcher.py\<close>) fails jobs whose lease is
  gone; the integrity checker (\<open>app/core/integrity.py\<close>) corrects slot counters. All state they
  share is in Redis; the processes meet only there.

  The daemon (\<open>orchestrator/main.py\<close>) runs three agents at once, one heartbeat each per tick. The triage agent
  (\<open>orchestrator/roles/triage.py\<close>) labels new issues as a model says. The backend agent (\<open>roles/backend.py\<close>) claims an issue,
  makes a git worktree (\<open>worktree.py\<close>), has a model write files and tests, checks the paths, runs the tests,
  pushes a branch and opens a pull request. The CEO agent (\<open>roles/ceo.py\<close>) merges or closes the
  pull requests of agents by fixed rules (\<open>charter_rules.py\<close>). They share the GitHub client
  (\<open>github_app.py\<close>), the client of the model (\<open>llm.py\<close>), the daily budget of tokens (\<open>budget.py\<close>) and the audit log
  (\<open>audit.py\<close>).

  \<^bold>\<open>Programs and their world.\<close> A coroutine, and a Lua script, is a tree of commands
  (\<open>Effects\<close>): the code runs undisturbed between two awaits, and an await is a node whose
  reply comes from outside. A coroutine that may raise has a result of type \<open>exn + 'a\<close>, and
  \<open>andThen\<close>, \<open>catch\<close> and \<open>finally_do\<close> are sequencing, \<open>except\<close> and \<open>finally\<close>.
  Redis, HTTP, the clock and randomness are not code of the repository. They are a parameter
  \<open>H\<close>, the server, and what is assumed of it is documented behaviour: \<open>redis_server\<close> (each call acts as
  Redis documents, or raises with or without having taken effect) and \<open>exact_server\<close> (every call is answered).
  \<open>Redis\<close> holds the effect of each command on a database record: strings, hashes, sorted sets
  with integer scores, sets, times to live and published messages. Two servers are defined and
  shown to satisfy the assumptions, \<open>scripted\<close> and \<open>flaky\<close>; the witnesses run on them.
  The agents are trees too, over the commands of \<open>Agent_World\<close>: the methods of the GitHub client, Redis
  counters, a call of a model, a process, a file, a line of the audit log. What is shown of them holds for
  every sequence of replies; \<open>history\<close> is a run's commands with their replies. \<open>Github_App\<close> carries each GitHub method out
  as a program over HTTP, and \<open>layered\<close> puts that program in the place of the command; so a fact about an agent over
  its client becomes one about the requests it sends.

  \<^bold>\<open>The theories, in the order of their imports.\<close>
  \<^item> \<open>Prelude\<close>: decimal text, \<open>strip\<close>, doubles, JSON values, exceptions. \<open>Effects\<close>: trees, their run,
    interleaving and the rely/guarantee rule. \<open>Redis\<close>, \<open>World\<close>: see above; \<open>alone\<close> is the
    proof rule for one coroutine on an exact server, \<open>wp\<close> the rule under any replies.
  \<^item> \<open>Keys\<close>: \<open>app/storage/redis_keys.py\<close>. \<open>Job_State\<close>: \<open>app/state.py\<close>. \<open>Config\<close>:
    \<open>app/config.py\<close>. \<open>Lua_Scripts\<close>: \<open>app/storage/redis_lua.py\<close>. \<open>Uuid7\<close>:
    \<open>app/core/uuid7.py\<close>. \<open>Observability\<close>: \<open>app/observability\<close>, the declared
    collectors, the metric helpers, the event builders and the JSONL logger.
  \<^item> \<open>Admission\<close>, \<open>Forwarder\<close>, \<open>Dispatcher\<close>, \<open>Lease_Watcher\<close>, \<open>Integrity\<close>: the components above,
    one definition per method or per step of a long method, in the order of the code.
  \<^item> \<open>Job_Store\<close>: \<open>app/storage/job_store.py\<close>. \<open>Routes\<close>: the endpoints and the response models of
    \<open>app/api\<close>. \<open>Startup\<close>: what \<open>app/main.py\<close> does when it starts, up to the background tasks.
  \<^item> \<open>Frames\<close>: which commands each program can issue. \<open>System\<close>: all programs interleaved.
  \<^item> \<open>Journey\<close>: one job from its submission over its worker to its answer, on a server that answers and with
    a backend that obliges. \<open>Recovery\<close>: start-up and a scan after a process was killed. \<open>Schemas\<close>:
    \<open>app/api/schemas.py\<close>, and the two endpoints with a body from its JSON on.
  \<^item> \<open>Event_Loop\<close>: asyncio, as far as the scheduler uses it: one main coroutine, background tasks, cancellation and
    \<open>wait_for\<close>, as the step relation \<open>loop_step\<close>. \<open>Lifecycle\<close>: \<open>start\<close>, \<open>stop\<close> and \<open>is_alive\<close> of the
    components, and start-up, shutdown and \<open>lifespan\<close> of \<open>app/main.py\<close> over it. \<open>Application\<close>: the invariants
    of \<open>System\<close> for that application. \<open>Shutdown\<close>: its end can always be reached.
  \<^item> \<open>Metering\<close>: GET /metrics and the registry, and a program logic that counts what a worker says of its jobs.
    \<open>Sync_Wait\<close>: the wait of a synchronous request while others change Redis between its commands (\<open>noisy\<close>), and the
    program logic for that, \<open>amid\<close>.
  \<^item> \<open>Charter_Rules\<close>: \<open>orchestrator/charter_rules.py\<close>, Python's operations on JSON values, and the rules in
    declarative form, \<open>mergeable\<close> and \<open>file_safe\<close>. \<open>Agent_World\<close>: the commands of the agents, the text of JSON
    values, and three ways to bound what a program issues: \<open>only\<close>, \<open>at_most\<close> and, from \<open>Effects\<close>, \<open>wp\<close>.
  \<^item> \<open>Orch_Config\<close>: \<open>orchestrator/config.py\<close>. \<open>Budget\<close>: \<open>budget.py\<close>. \<open>Llm\<close>: \<open>llm.py\<close>. \<open>Github_App\<close>:
    \<open>github_app.py\<close>. \<open>Worktree\<close>: \<open>worktree.py\<close>.
  \<^item> \<open>Ceo\<close>, \<open>Triage\<close>, \<open>Backend\<close>: the agents of \<open>orchestrator/roles\<close>; \<open>Backend_Safety\<close> holds what is shown of
    the last. \<open>Handoff\<close>: the texts the backend agent writes for its pull request, with \<open>textwrap.dedent\<close>, and what the
    CEO makes of them. \<open>Orch_Main\<close>: \<open>audit.py\<close> and \<open>main.py\<close>, and the agents interleaved.

  \<^bold>\<open>What is shown.\<close> Of the whole system, in any interleaving of any number of requests with the
  background tasks, while calls fail and tasks die: no slot counter exceeds its capacity and no queue
  its depth; and the same of the application in its event loop, from its start-up, on an empty Redis or on what
  an earlier process left, to the end of its shutdown. Of each operation on a server that answers: what it
  returns and what it does to the database on every branch the theorem names, from admission (queued,
  rejected, idempotent) over claim, dispatch (each
  outcome of the backend), reclaim, reconciliation and cancellation to what the endpoints answer.
  From its submission to its answer a job that nothing disturbs ends completed with the response of its backend, and
  the backend is sent what the client submitted, each message cut to its role and content. A client that waits is told how its own job ended, or that the time is over, whatever
  others do to Redis meanwhile, and an end that came before it subscribed is not missed. Once the application has shut down no task of it runs and its
  clients are closed, and no state of its event loop is one from which it cannot shut down; one that fails to start has
  started no task. A process that was killed
  costs no slot: the next start-up and a scan of the watcher free them. Every metric a program moves is declared, with those labels,
  and the metrics and the log of a worker agree on how each of its jobs ended.
  Of the pure parts: the order in which a queue drains, the layout and order of identifiers, the
  validity of a loaded configuration, the logger's bounds. Several theorems state defects the
  model brought out, such as the order of jobs across a window of the clock, a slot given back twice, a payload
  stored after the job is visible, and a completed job that a late cancellation makes a cancelled one.

  Of the orchestrator: the two checks accept exactly what the declarative rules say; in every interleaving of any
  number of heartbeats only the CEO merges, and only what it saw to satisfy both; the same for the requests
  that leave over HTTP. The backend agent claims only free issues, answers for each one it claims, writes only
  paths that were checked, pushes before it opens a pull request, calls tests green only when they passed,
  removes its worktree last, and spends a bounded number of calls. The budget balances, the fallback model
  is asked only when the first is out of reach, tokens are fresh, a failing tick does not end the daemon, and a signal does. The body of
  every pull request has the sections the CEO asks for; the label that asks for a human does not hold the CEO back. The
  check of paths, and the search for secrets, are shown to miss what they are meant to catch.

  \<^bold>\<open>Bounds and fuel.\<close> Loops without an end (the worker, the watcher, the checker, the wait for a job)
  carry a number of rounds; a result None is a loop still running. Theorems on them either hold for every
  number, or say what one round does. Integers are Python's; a Redis counter is a 64-bit integer and an increment
  that would overflow is an error (\<open>in_int64\<close>); a score is a double, and \<open>float_of_int\<close> is exact below
  2^53, which holds for priorities up to 9000 in size (\<open>admit_ready\<close>). The loop of the daemon has fuel as well, and
  \<open>daemon_survives_and_stops\<close> says how much is enough; the loop over failing tests is a recursion on the attempts left.
  The event loop is a relation with no bound: what is shown of it holds after any number of steps. Time is in microseconds. A
  sorted set keeps integer scores, since every score the code writes is one, a whole double
  or a time in microseconds.

  \<^bold>\<open>Parameters.\<close> \<open>ctx\<close> holds the configuration, the loaded scripts and the library functions the
  code calls: SHA-256, \<open>json.loads\<close> of text the program did not write, and the error text of
  httpx. \<open>conversions\<close> holds pydantic's lax readings of a number and of a truth value. Theorems hold for all of them, or
  name what they need.

  \<open>actx\<close> holds \<open>json.loads\<close> and \<open>textwrap.shorten\<close> for the agents, \<open>gctx\<close> the settings and
  \<open>Path.resolve\<close> for the GitHub client, \<open>roots\<close> the directories. The system prompts are arguments of the agents; \<open>make_agents\<close>
  reads them.

  \<^bold>\<open>Texts.\<close> A character is one of Latin-1; an arrow or an ellipsis of the source is written in ASCII. In the commands of the agents a comment, a
  prompt and the body of a pull request are the values they show, without the words around them; \<open>Handoff\<close> has the words
  of the two texts of which more is shown, but for a line of each with characters beyond Latin-1. JSON
  numbers are integers.

  \<^bold>\<open>Not modelled.\<close> The text that \<open>prometheus_client\<close> makes for /metrics, the words of pydantic's error reports, the syntax of YAML and of the command line,
  the loggers of Python, and the tests, benchmarks and deployment files.
\<close>

end
